(* ===== verification/Prelude.thy ===== *)
theory Prelude
  imports Main "HOL-Library.Word" "HOL-Library.Product_Lexorder" "HOL-Library.Signed_Division"
begin

text \<open>
  The vocabulary of the development: the Go and PostgreSQL scalar types, the generic
  operations on tables (a table is the list of its rows) and the lemmas on lists that
  the component theories share.

  Two collections carry the proofs of the other theories: \<open>keeps_intros\<close> holds the
  rules that lift a relation between database states from one SQL statement to an
  operation and from operations to a whole handler; \<open>stmt_defs\<close> holds the definitions
  of the SQL statements.
\<close>

named_theorems keeps_intros \<open>rules that lift a relation between stores to effects\<close>
named_theorems stmt_defs \<open>definitions of the SQL statements\<close>

section \<open>Scalar types\<close>

text \<open>
  A \<open>uuid.UUID\<close> is 128 bits; Go's \<open>uint\<close> and \<open>time.Duration\<close> (an \<open>int64\<close> count of
  nanoseconds) are 64 bits wide; an instant is a count of nanoseconds; a Go string and a
  byte slice are sequences of bytes; a Go type argument is named by its identifier.
\<close>

type_synonym uuid = "128 word"
type_synonym uint = "64 word"
type_synonym duration = "64 word"
type_synonym instant = int
type_synonym bytes = string
type_synonym gotype = string

definition uuid_Nil :: uuid where
  "uuid_Nil = 0"

definition Millisecond :: duration where "Millisecond = 1000000"
definition Second :: duration where "Second = 1000 * Millisecond"
definition Minute :: duration where "Minute = 60 * Second"
definition Hour :: duration where "Hour = 60 * Minute"

lemmas duration_defs = Millisecond_def Second_def Minute_def Hour_def

text \<open>\<open>time.Time.Add\<close>: the duration is signed.\<close>

definition time_Add :: "instant \<Rightarrow> duration \<Rightarrow> instant" where
  "time_Add t d = t + sint d"

text \<open>Division of two \<open>int64\<close> values truncates towards zero.\<close>

definition int64_div :: "64 word \<Rightarrow> 64 word \<Rightarrow> 64 word" where
  "int64_div a b = word_of_int (sint a sdiv sint b)"

definition max_int4 :: int where "max_int4 = 2147483647"
definition min_int4 :: int where "min_int4 = - 2147483648"
definition max_int8 :: int where "max_int8 = 9223372036854775807"

definition in_int4 :: "int \<Rightarrow> bool" where
  "in_int4 n \<longleftrightarrow> min_int4 \<le> n \<and> n \<le> max_int4"

lemma in_int4_0 [simp]: "in_int4 0" and in_int4_1 [simp]: "in_int4 1"
  by (simp_all add: in_int4_def min_int4_def max_int4_def)

section \<open>Tables\<close>

text \<open>
  \<open>UPDATE .. SET .. WHERE p\<close> rewrites the rows that satisfy the condition in place;
  \<open>count_where\<close> is the number of rows it reports.
\<close>

definition update_where :: "('r \<Rightarrow> bool) \<Rightarrow> ('r \<Rightarrow> 'r) \<Rightarrow> 'r list \<Rightarrow> 'r list" where
  "update_where p f rows = map (\<lambda>r. if p r then f r else r) rows"

definition count_where :: "('r \<Rightarrow> bool) \<Rightarrow> 'r list \<Rightarrow> nat" where
  "count_where p rows = length (filter p rows)"

lemma set_update_where [simp]:
  "set (update_where p f rows) = f ` {r \<in> set rows. p r} \<union> {r \<in> set rows. \<not> p r}"
  by (auto simp: update_where_def)

lemma length_update_where [simp]: "length (update_where p f rows) = length rows"
  by (simp add: update_where_def)

lemma update_where_Nil [simp]: "update_where p f [] = []"
  by (simp add: update_where_def)

lemma update_where_Cons [simp]:
  "update_where p f (r # rows) = (if p r then f r else r) # update_where p f rows"
  by (simp add: update_where_def)

lemma update_where_none:
  "(\<And>r. r \<in> set rows \<Longrightarrow> \<not> p r) \<Longrightarrow> update_where p f rows = rows"
  by (simp add: update_where_def map_idI)

text \<open>A column that the assignment does not touch keeps its list of values.\<close>

lemma map_update_where_same:
  "(\<And>r. k (f r) = k r) \<Longrightarrow> map k (update_where p f rows) = map k rows"
  by (simp add: update_where_def)

lemma count_where_0 [simp]: "count_where p rows = 0 \<longleftrightarrow> (\<forall>r \<in> set rows. \<not> p r)"
  by (simp add: count_where_def filter_empty_conv)

lemma count_where_pos: "0 < count_where p rows \<longleftrightarrow> (\<exists>r \<in> set rows. p r)"
  by (auto simp: count_where_def filter_empty_conv)

lemma count_where_le: "count_where p rows \<le> length rows"
  by (simp add: count_where_def)

text \<open>Rows found by a key that is unique in the table.\<close>

lemma find_SomeD: "find p xs = Some x \<Longrightarrow> x \<in> set xs \<and> p x"
  by (induction xs) (auto split: if_splits)

lemma find_NoneD: "find p xs = None \<Longrightarrow> x \<in> set xs \<Longrightarrow> \<not> p x"
  by (auto simp: find_None_iff)

lemma distinct_map_inj: "distinct (map k xs) \<Longrightarrow> x \<in> set xs \<Longrightarrow> y \<in> set xs \<Longrightarrow> k x = k y \<Longrightarrow> x = y"
  by (metis distinct_map inj_onD)

lemma find_unique:
  assumes "distinct (map k xs)" and "x \<in> set xs"
  shows "find (\<lambda>r. k r = k x) xs = Some x"
proof (cases "find (\<lambda>r. k r = k x) xs")
  case None
  with assms(2) show ?thesis by (auto simp: find_None_iff)
next
  case (Some y)
  then have "y \<in> set xs" "k y = k x" by (auto dest: find_SomeD)
  with assms Some show ?thesis by (metis distinct_map_inj)
qed

text \<open>The rows with given ids: at most one for each id, exactly one when all exist.\<close>

lemma length_filter_ids_le:
  assumes "distinct (map k xs)"
  shows "length (filter (\<lambda>x. k x \<in> set ids) xs) \<le> length ids"
proof -
  have "length (filter (\<lambda>x. k x \<in> set ids) xs) = card (set (map k (filter (\<lambda>x. k x \<in> set ids) xs)))"
    using distinct_card [of "map k (filter (\<lambda>x. k x \<in> set ids) xs)"] assms by (simp add: distinct_map_filter)
  also have "\<dots> \<le> card (set ids)" by (intro card_mono) auto
  also have "\<dots> \<le> length ids" by (rule card_length)
  finally show ?thesis .
qed

lemma length_filter_ids:
  assumes "distinct (map k xs)" and "distinct ids" and "set ids \<subseteq> k ` set xs"
  shows "length (filter (\<lambda>x. k x \<in> set ids) xs) = length ids"
proof -
  have "set (map k (filter (\<lambda>x. k x \<in> set ids) xs)) = set ids" using assms(3) by auto
  moreover have "distinct (map k (filter (\<lambda>x. k x \<in> set ids) xs))" using assms(1) by (simp add: distinct_map_filter)
  ultimately show ?thesis using assms(2) by (metis distinct_card length_map)
qed

text \<open>No row satisfies both of two conditions that exclude each other.\<close>

lemma distinct_branches:
  assumes "distinct (map k xs)" and "\<And>x. p x \<Longrightarrow> \<not> r x"
  shows "distinct (map k (filter p xs @ filter r xs))"
proof -
  have "k ` set (filter p xs) \<inter> k ` set (filter r xs) = {}"
    using assms by (auto dest: distinct_map_inj)
  with assms(1) show ?thesis by (simp add: distinct_map_filter)
qed

lemma distinct_map_sort_key [simp]: "distinct (map k (sort_key f xs)) = distinct (map k xs)"
  by (simp add: distinct_map)

end
