(* ===== verification/Errors.thy ===== *)
theory Errors
  imports Prelude
begin

text \<open>
  Go error values and the standard library's traversal of wrapped errors, with the two
  questions the engine asks of an error: is it the suspension of a workflow
  (\<open>errors.Is(err, ErrWorkflowSuspended)\<close> in \<open>workflow.go\<close>) and is it unrecoverable
  (\<open>unrecoverable_error.go\<close>).
\<close>

section \<open>Error values\<close>

text \<open>
  An error is the sentinel \<open>ErrWorkflowSuspended\<close>, an error with no cause (\<open>errors.New\<close>,
  \<open>fmt.Errorf\<close> without \<open>%w\<close>, an error of the driver), \<open>fmt.Errorf\<close> with one \<open>%w\<close> (its
  formatted text and its cause), an error with several causes (\<open>errors.Join\<close>, several
  \<open>%w\<close>), or the engine's own wrapper, whose embedded error may be nil.
\<close>

datatype error =
    ErrWorkflowSuspended
  | ErrorString string
  | WrapError string error
  | WrapErrors string "error list"
  | UnrecoverableError "error option"

primrec Error :: "error \<Rightarrow> string" where
  "Error ErrWorkflowSuspended = ''workflow suspended''"
| "Error (ErrorString s) = s"
| "Error (WrapError s e) = s"
| "Error (WrapErrors s es) = s"
| "Error (UnrecoverableError c) =
     (case map_option Error c of None \<Rightarrow> ''unrecoverable error'' | Some s \<Rightarrow> s)"

text \<open>\<open>fmt.Errorf("<prefix>: %w", err)\<close>.\<close>

definition Errorf :: "string \<Rightarrow> error \<Rightarrow> error" where
  "Errorf prefix e = WrapError (prefix @ '': '' @ Error e) e"

text \<open>
  The errors that \<open>errors.Is\<close> and \<open>errors.AsType\<close> visit, in their order: the error
  itself, then what its \<open>Unwrap\<close> method returns, depth first.
\<close>

fun chain :: "error \<Rightarrow> error list" where
  "chain (WrapError s e) = WrapError s e # chain e"
| "chain (WrapErrors s es) = WrapErrors s es # concat (map chain es)"
| "chain (UnrecoverableError (Some e)) = UnrecoverableError (Some e) # chain e"
| "chain (UnrecoverableError None) = [UnrecoverableError None]"
| "chain ErrWorkflowSuspended = [ErrWorkflowSuspended]"
| "chain (ErrorString s) = [ErrorString s]"

definition errors_Is_suspended :: "error \<Rightarrow> bool" where
  "errors_Is_suspended e \<longleftrightarrow> list_ex (\<lambda>x. x = ErrWorkflowSuspended) (chain e)"

text \<open>\<open>Unrecoverable\<close> accepts a nil error (\<open>None\<close>).\<close>

definition Unrecoverable :: "error option \<Rightarrow> error" where
  "Unrecoverable err = UnrecoverableError err"

fun is_unrecoverableError :: "error \<Rightarrow> bool" where
  "is_unrecoverableError (UnrecoverableError c) = True"
| "is_unrecoverableError e = False"

definition IsUnrecoverable :: "error \<Rightarrow> bool" where
  "IsUnrecoverable e \<longleftrightarrow> list_ex is_unrecoverableError (chain e)"

section \<open>What wrapping keeps\<close>

text \<open>
  A wrapping context is any nesting of the wrappers of a handler: messages, joins with
  other errors and \<open>Unrecoverable\<close>.
\<close>

inductive wraps :: "error \<Rightarrow> error \<Rightarrow> bool" where
  wraps_self: "wraps e e"
| wraps_message: "wraps e f \<Longrightarrow> wraps e (WrapError s f)"
| wraps_join: "wraps e f \<Longrightarrow> f \<in> set fs \<Longrightarrow> wraps e (WrapErrors s fs)"
| wraps_unrecoverable: "wraps e f \<Longrightarrow> wraps e (UnrecoverableError (Some f))"

inductive_cases wraps_stringE: "wraps e (ErrorString s)"

lemma self_in_chain [simp]: "e \<in> set (chain e)"
  by (cases e rule: chain.cases) auto

lemma chain_subset: "wraps e f \<Longrightarrow> set (chain e) \<subseteq> set (chain f)"
  by (induction rule: wraps.induct) auto

lemma chain_wraps: "x \<in> set (chain e) \<Longrightarrow> wraps x e"
  by (induction e rule: chain.induct) (auto intro: wraps.intros)

lemma chain_iff_wraps: "x \<in> set (chain e) \<longleftrightarrow> wraps x e"
  using chain_wraps chain_subset self_in_chain by blast

lemma errors_Is_suspended_iff: "errors_Is_suspended e \<longleftrightarrow> wraps ErrWorkflowSuspended e"
  by (auto simp: errors_Is_suspended_def list_ex_iff simp flip: chain_iff_wraps)

lemma is_unrecoverableError_iff: "is_unrecoverableError e \<longleftrightarrow> (\<exists>c. e = UnrecoverableError c)"
  by (cases e) auto

lemma IsUnrecoverable_iff: "IsUnrecoverable e \<longleftrightarrow> (\<exists>c. wraps (UnrecoverableError c) e)"
  by (auto simp: IsUnrecoverable_def list_ex_iff is_unrecoverableError_iff simp flip: chain_iff_wraps)

lemma IsUnrecoverable_simps [simp]:
  "IsUnrecoverable (UnrecoverableError c)"
  "IsUnrecoverable (WrapError s e) = IsUnrecoverable e"
  "\<not> IsUnrecoverable ErrWorkflowSuspended"
  "\<not> IsUnrecoverable (ErrorString s)"
  by (cases c) (auto simp: IsUnrecoverable_def)

lemma errors_Is_suspended_simps [simp]:
  "errors_Is_suspended ErrWorkflowSuspended"
  "errors_Is_suspended (WrapError s e) = errors_Is_suspended e"
  "\<not> errors_Is_suspended (ErrorString s)"
  by (auto simp: errors_Is_suspended_def)

lemma errors_Is_Errorf [simp]: "errors_Is_suspended (Errorf p e) = errors_Is_suspended e"
  by (simp add: Errorf_def)

lemma IsUnrecoverable_Errorf [simp]: "IsUnrecoverable (Errorf p e) = IsUnrecoverable e"
  by (simp add: Errorf_def)

end
