(* ===== verification/Events.thy ===== *)
theory Events
  imports Errors
begin

text \<open>
  Payloads and their decoding: \<open>encoder.go\<close>, \<open>event.go\<close>,
  \<open>future.go\<close>, \<open>workflow_run.go\<close> and \<open>activity_run.go\<close>. A value of any Go type is a
  \<open>'v\<close>; decoding needs the Go type of its target, so a decoder takes that type's name. A
  byte slice may be nil (\<open>None\<close>).
\<close>

type_synonym 'v decoder = "gotype \<Rightarrow> bytes option \<Rightarrow> error + 'v"

record 'v encoder =
  enc_Encode :: "'v \<Rightarrow> error + bytes"
  enc_Decode :: "'v decoder"

section \<open>Events\<close>

record 'v event =
  ev_IdempotencyKey :: uuid
  ev_value :: "bytes option"
  ev_decoder :: "'v decoder"

definition NewEvent :: "uuid \<Rightarrow> bytes option \<Rightarrow> 'v decoder \<Rightarrow> 'v event" where
  "NewEvent key value decoder = \<lparr>ev_IdempotencyKey = key, ev_value = value, ev_decoder = decoder\<rparr>"

definition IntoValue :: "'v event \<Rightarrow> gotype \<Rightarrow> error + 'v" where
  "IntoValue e t = ev_decoder e t (ev_value e)"

type_synonym 'v events = "uuid \<Rightarrow> 'v event option"

text \<open>
  A map from the rows of a query, to which the two loops that fill an \<open>Events\<close> map
  (\<open>history_events\<close>, \<open>signal_events\<close>) are equal: a later row replaces an earlier one with the same key.
\<close>

definition events_of_rows :: "'v decoder \<Rightarrow> (uuid \<times> bytes option) list \<Rightarrow> 'v events" where
  "events_of_rows decoder rows = foldl (\<lambda>m (k, b). m(k \<mapsto> NewEvent k b decoder)) Map.empty rows"

lemma events_of_rows_snoc [simp]:
  "events_of_rows dec (rows @ [(k, b)]) = (events_of_rows dec rows)(k \<mapsto> NewEvent k b dec)"
  by (simp add: events_of_rows_def)

lemma events_of_rows_Nil [simp]: "events_of_rows dec [] = Map.empty"
  by (simp add: events_of_rows_def)

lemma events_of_rows_None: "events_of_rows dec rows k = None \<longleftrightarrow> k \<notin> fst ` set rows"
  by (induction rows rule: rev_induct) (auto split: if_splits)

lemma events_of_rows_Some: "events_of_rows dec rows k = Some e \<Longrightarrow> \<exists>b. (k, b) \<in> set rows \<and> e = NewEvent k b dec"
  by (induction rows rule: rev_induct) (auto split: if_splits)

lemma events_of_rows_distinct:
  assumes "distinct (map fst rows)" and "(k, b) \<in> set rows"
  shows "events_of_rows dec rows k = Some (NewEvent k b dec)"
proof (cases "events_of_rows dec rows k")
  case None
  with assms(2) show ?thesis by (force simp: events_of_rows_None)
next
  case (Some e)
  then obtain b' where "(k, b') \<in> set rows" "e = NewEvent k b' dec" by (blast dest: events_of_rows_Some)
  with assms Some show ?thesis by (auto dest: eq_key_imp_eq_value)
qed

section \<open>Futures\<close>

text \<open>
  The event of a future is absent while it is pending; the type argument is the type its
  value is decoded into. (\<open>mo.Option\<close> is HOL's option.)
\<close>

record 'v future =
  fut_event :: "'v event option"
  fut_out :: gotype

definition Get :: "'v future \<Rightarrow> error + 'v" where
  "Get f = (case fut_event f of
      None \<Rightarrow> Inl ErrWorkflowSuspended
    | Some e \<Rightarrow>
        (case IntoValue e (fut_out f) of
           Inl err \<Rightarrow> Inl (Errorf ''decode future event value'' err)
         | Inr v \<Rightarrow> Inr v))"

lemma Get_simps [simp]:
  "Get \<lparr>fut_event = None, fut_out = t\<rparr> = Inl ErrWorkflowSuspended"
  "dec t b = Inr v \<Longrightarrow> Get \<lparr>fut_event = Some (NewEvent k b dec), fut_out = t\<rparr> = Inr v"
  "dec t b = Inl err \<Longrightarrow>
     Get \<lparr>fut_event = Some (NewEvent k b dec), fut_out = t\<rparr> = Inl (Errorf ''decode future event value'' err)"
  by (simp_all add: Get_def IntoValue_def NewEvent_def)

section \<open>Runs\<close>

record 'v workflow_run =
  wrun_WorkflowID :: uuid
  wrun_input :: "bytes option"
  wrun_decoder :: "'v decoder"

definition NewWorkflowRun :: "uuid \<Rightarrow> bytes option \<Rightarrow> 'v decoder \<Rightarrow> 'v workflow_run" where
  "NewWorkflowRun i input decoder =
     \<lparr>wrun_WorkflowID = i, wrun_input = input, wrun_decoder = decoder\<rparr>"

definition wrun_IntoInput :: "'v workflow_run \<Rightarrow> gotype \<Rightarrow> error + 'v" where
  "wrun_IntoInput r t = wrun_decoder r t (wrun_input r)"

record 'v activity_run =
  arun_ActivityID :: uuid
  arun_input :: "bytes option"
  arun_decoder :: "'v decoder"

definition NewActivityRun :: "uuid \<Rightarrow> bytes option \<Rightarrow> 'v decoder \<Rightarrow> 'v activity_run" where
  "NewActivityRun i input decoder =
     \<lparr>arun_ActivityID = i, arun_input = input, arun_decoder = decoder\<rparr>"

definition arun_IntoInput :: "'v activity_run \<Rightarrow> gotype \<Rightarrow> error + 'v" where
  "arun_IntoInput r t = arun_decoder r t (arun_input r)"

end
