(* ===== verification/Effects.thy ===== *)
theory Effects
  imports Events
begin

text \<open>
  Effects: a Go function that talks to a store is a function on a world, which is the
  contents of the store and a count of the interactions with the outside. Everything
  outside the repository (the PostgreSQL service, the \<open>pgx\<close> driver, \<open>google/uuid\<close>, the
  clocks, \<open>encoding/json\<close>) is a field of the record \<open>env\<close>, an argument of the
  definitions that use it; \<open>begin_func_law\<close> states what is documented of
  \<open>pgx.BeginFunc\<close>, \<open>wait_group_law\<close> what is documented of \<open>errgroup\<close>.
\<close>

section \<open>Worlds and effects\<close>

record 'd world =
  store :: 'd
  ticks :: nat

type_synonym ('d, 'a) io = "'d world \<Rightarrow> (error + 'a) \<times> 'd world"

definition ret :: "'a \<Rightarrow> ('d, 'a) io" where
  "ret x w = (Inr x, w)"

definition throw :: "error \<Rightarrow> ('d, 'a) io" where
  "throw e w = (Inl e, w)"

text \<open>\<open>x, err := m(); if err != nil { return err }; k(x)\<close>.\<close>

definition bindE :: "('d, 'a) io \<Rightarrow> ('a \<Rightarrow> ('d, 'b) io) \<Rightarrow> ('d, 'b) io" where
  "bindE m k w = (case m w of (Inl e, w') \<Rightarrow> (Inl e, w') | (Inr x, w') \<Rightarrow> k x w')"

text \<open>\<open>if err != nil { return fmt.Errorf("<prefix>: %w", err) }\<close>.\<close>

definition wrapE :: "string \<Rightarrow> ('d, 'a) io \<Rightarrow> ('d, 'a) io" where
  "wrapE prefix m w = (case m w of (Inl e, w') \<Rightarrow> (Inl (Errorf prefix e), w') | (Inr x, w') \<Rightarrow> (Inr x, w'))"

text \<open>\<open>x, err := m(); if err != nil { return onErr(err) }; return onOk(x)\<close>.\<close>

definition tryE :: "('d, 'a) io \<Rightarrow> (error \<Rightarrow> ('d, 'b) io) \<Rightarrow> ('a \<Rightarrow> ('d, 'b) io) \<Rightarrow> ('d, 'b) io" where
  "tryE m onErr onOk w = (case m w of (Inl e, w') \<Rightarrow> onErr e w' | (Inr x, w') \<Rightarrow> onOk x w')"

definition liftE :: "error + 'a \<Rightarrow> ('d, 'a) io" where
  "liftE r w = (r, w)"

lemma ret_simps [simp]: "ret x w = (Inr x, w)" and throw_simps [simp]: "throw e w = (Inl e, w)"
  and liftE_simps [simp]: "liftE r w = (r, w)"
  by (simp_all add: ret_def throw_def liftE_def)

lemma bindE_Inr: "m w = (Inr x, w') \<Longrightarrow> bindE m k w = k x w'"
  and bindE_Inl: "m w = (Inl e, w') \<Longrightarrow> bindE m k w = (Inl e, w')"
  by (simp_all add: bindE_def)

lemma bindE_ok:
  "bindE m k w = (Inr y, w2) \<longleftrightarrow> (\<exists>x w1. m w = (Inr x, w1) \<and> k x w1 = (Inr y, w2))"
  by (auto simp: bindE_def split: prod.splits sum.splits)

lemma bindE_err:
  "bindE m k w = (Inl e, w2) \<longleftrightarrow>
     m w = (Inl e, w2) \<or> (\<exists>x w1. m w = (Inr x, w1) \<and> k x w1 = (Inl e, w2))"
  by (auto simp: bindE_def split: prod.splits sum.splits)

lemma wrapE_ok [simp]: "wrapE p m w = (Inr x, w') \<longleftrightarrow> m w = (Inr x, w')"
  by (auto simp: wrapE_def split: prod.splits sum.splits)

lemma wrapE_err: "wrapE p m w = (Inl e, w') \<longleftrightarrow> (\<exists>e'. m w = (Inl e', w') \<and> e = Errorf p e')"
  by (auto simp: wrapE_def split: prod.splits sum.splits)

lemma snd_wrapE [simp]: "snd (wrapE p m w) = snd (m w)"
  by (auto simp: wrapE_def split: prod.splits sum.splits)

section \<open>What lies outside the repository\<close>

text \<open>
  The errors PostgreSQL raises for the statements of this repository: a unique
  constraint, a foreign key, a value out of the range of its column.
\<close>

datatype sqlstate =
    UniqueViolation string
  | ForeignKeyViolation string
  | NumericValueOutOfRange

text \<open>
  What becomes of the statement sent in the \<open>n\<close>-th interaction: it is executed and
  answered, it never reaches the server (a refused connection, a cancelled context), or
  it is executed but its answer is lost.
\<close>

datatype outcome = Served | Refused error | Lost error

text \<open>
  A statement runs on the pool or within a transaction, whose start fixes the value of
  \<open>now()\<close>. A transaction begins on the storage's own pool or on the caller's connection.
\<close>

datatype execer = Pool | InTx instant
datatype tx_beginner = StorageDb | CallerTx nat

record ('d, 'v) env =
  env_outcome :: "nat \<Rightarrow> outcome"
  env_pg_now :: "nat \<Rightarrow> instant"
  env_rank :: "nat \<Rightarrow> nat \<Rightarrow> uuid \<Rightarrow> nat"
  env_pg_text :: "sqlstate \<Rightarrow> string"
  env_begin_func :: "tx_beginner \<Rightarrow> (execer \<Rightarrow> ('d, uuid) io) \<Rightarrow> ('d, uuid) io"
  env_scan_uint :: "int \<Rightarrow> error + uint"
  env_wait_group :: "('d, 'v events) io \<Rightarrow> ('d, 'v events) io \<Rightarrow> ('d, 'v events \<times> 'v events) io"
  env_go_now :: "nat \<Rightarrow> instant"
  env_new_v7 :: "nat \<Rightarrow> uuid"
  env_new_sha1 :: "uuid \<Rightarrow> bytes \<Rightarrow> uuid"
  env_uuid_string :: "uuid \<Rightarrow> string"
  env_json_marshal :: "'v \<Rightarrow> error + bytes"
  env_json_unmarshal :: "gotype \<Rightarrow> bytes option \<Rightarrow> error + 'v"

text \<open>
  What a statement sees beside the tables: the value of \<open>now()\<close> and, for each scan of its
  plan, the order in which the rows happen to be read. SQL leaves that order open where
  no \<open>ORDER BY\<close> fixes it, so it is an arbitrary ranking of the rows by their id.
\<close>

record snap =
  q_now :: instant
  q_rank :: "nat \<Rightarrow> uuid \<Rightarrow> nat"

type_synonym ('d, 'a) stmt = "snap \<Rightarrow> 'd \<Rightarrow> sqlstate + 'a \<times> 'd"

definition snap_at :: "('d, 'v) env \<Rightarrow> execer \<Rightarrow> nat \<Rightarrow> snap" where
  "snap_at env ex n =
     \<lparr>q_now = (case ex of Pool \<Rightarrow> env_pg_now env n | InTx t \<Rightarrow> t), q_rank = env_rank env n\<rparr>"

definition exec :: "('d, 'v) env \<Rightarrow> execer \<Rightarrow> ('d, 'a) stmt \<Rightarrow> ('d, 'a) io" where
  "exec env ex sql w =
     (let n = ticks w; w' = w\<lparr>ticks := Suc n\<rparr>; answer = sql (snap_at env ex n) (store w)
      in case env_outcome env n of
           Refused e \<Rightarrow> (Inl e, w')
         | Lost e \<Rightarrow> (Inl e, case answer of Inl _ \<Rightarrow> w' | Inr (_, d) \<Rightarrow> w'\<lparr>store := d\<rparr>)
         | Served \<Rightarrow>
             (case answer of
                Inl c \<Rightarrow> (Inl (ErrorString (env_pg_text env c)), w')
              | Inr (x, d) \<Rightarrow> (Inr x, w'\<lparr>store := d\<rparr>)))"

text \<open>\<open>uuid.Must(uuid.NewV7())\<close> and \<open>time.Now()\<close>.\<close>

definition NewV7 :: "('d, 'v) env \<Rightarrow> ('d, uuid) io" where
  "NewV7 env w = (Inr (env_new_v7 env (ticks w)), w\<lparr>ticks := Suc (ticks w)\<rparr>)"

definition time_Now :: "('d, 'v) env \<Rightarrow> ('d, instant) io" where
  "time_Now env w = (Inr (env_go_now env (ticks w)), w)"

text \<open>The default encoder (\<open>json_encoder.go\<close>).\<close>

definition JsonEncoder :: "('d, 'v) env \<Rightarrow> 'v encoder" where
  "JsonEncoder env = \<lparr>enc_Encode = env_json_marshal env, enc_Decode = env_json_unmarshal env\<rparr>"

lemma exec_ok:
  "exec env ex sql w = (Inr x, w') \<longleftrightarrow>
     (\<exists>d. env_outcome env (ticks w) = Served \<and> sql (snap_at env ex (ticks w)) (store w) = Inr (x, d) \<and>
          w' = w\<lparr>ticks := Suc (ticks w), store := d\<rparr>)"
  by (auto simp: exec_def Let_def split: outcome.splits sum.splits)

text \<open>An error leaves the store as it was, or as the statement left it when the answer was lost.\<close>

lemma exec_err:
  "exec env ex sql w = (Inl e, w') \<Longrightarrow>
     ticks w' = Suc (ticks w) \<and>
     (store w' = store w \<or> (\<exists>x. sql (snap_at env ex (ticks w)) (store w) = Inr (x, store w')))"
  by (auto simp: exec_def Let_def split: outcome.splits sum.splits)

lemma NewV7_simps [simp]: "NewV7 env w = (Inr (env_new_v7 env (ticks w)), w\<lparr>ticks := Suc (ticks w)\<rparr>)"
  by (simp add: NewV7_def)

lemma time_Now_simps [simp]: "time_Now env w = (Inr (env_go_now env (ticks w)), w)"
  by (simp add: time_Now_def)

subsection \<open>Transactions\<close>

text \<open>
  The documentation of \<open>pgx.BeginFunc\<close>: it begins a transaction, calls the function once
  with it, commits when the function returns nil and rolls back otherwise. So either the
  store is unchanged and an error is returned, or the function ran to success on the
  store, its effect is the whole effect, and its result (or, when the acknowledgement of
  the commit is lost, an error) is returned. The function's result stands for the variable
  that its closure assigns.
\<close>

definition begin_func_law :: "('d, 'v) env \<Rightarrow> bool" where
  "begin_func_law env \<longleftrightarrow>
     (\<forall>txer body w r w1. env_begin_func env txer body w = (r, w1) \<longrightarrow>
        ((\<exists>e. r = Inl e) \<and> store w1 = store w \<and> ticks w \<le> ticks w1) \<or>
        (\<exists>t w0 u w2. store w0 = store w \<and> ticks w \<le> ticks w0 \<and> body (InTx t) w0 = (Inr u, w2) \<and>
           store w1 = store w2 \<and> ticks w2 \<le> ticks w1 \<and> (r = Inr u \<or> (\<exists>e. r = Inl e))))"

lemma begin_func_cases:
  assumes "begin_func_law env" and "env_begin_func env txer body w = (r, w1)"
  obtains (unchanged) e where "r = Inl e" "store w1 = store w" "ticks w \<le> ticks w1"
  | (committed) t w0 u w2 where "store w0 = store w" "ticks w \<le> ticks w0"
      "body (InTx t) w0 = (Inr u, w2)" "store w1 = store w2" "ticks w2 \<le> ticks w1"
      "r = Inr u \<or> (\<exists>e. r = Inl e)"
  using assms unfolding begin_func_law_def by blast

text \<open>A transaction that returns nil ran its function to success on the store.\<close>

lemma begin_func_ok:
  assumes "begin_func_law env" and "env_begin_func env txer body w = (Inr u, w1)"
  obtains t w0 w2 where "store w0 = store w" "ticks w \<le> ticks w0"
      "body (InTx t) w0 = (Inr u, w2)" "store w1 = store w2" "ticks w2 \<le> ticks w1"
  using assms by (elim begin_func_cases) auto

text \<open>A transaction whose function can only fail changes nothing.\<close>

lemma begin_func_fails:
  assumes "begin_func_law env" and "env_begin_func env txer body w = (r, w1)"
    and "\<And>t w0. store w0 = store w \<Longrightarrow> \<exists>e w2. body (InTx t) w0 = (Inl e, w2)"
  shows "(\<exists>e. r = Inl e) \<and> store w1 = store w"
  using assms(1,2)
proof (cases rule: begin_func_cases)
  case (committed t w0 u w2)
  then show ?thesis using assms(3) [of w0 t] by auto
qed auto

subsection \<open>Wait groups\<close>

text \<open>
  The documentation of \<open>errgroup\<close> (\<open>golang.org/x/sync\<close>), for a group of two functions of
  one statement each: both run once and to their end, in either order, and \<open>Wait\<close>, after both,
  returns nil when both returned nil and otherwise an error that one of them returned.
  What the cancelled context does to the slower function is part of \<open>env_outcome\<close>. The results
  stand for the variables that the closures assign.
\<close>

definition wait_answer :: "error + 'a \<Rightarrow> error + 'b \<Rightarrow> error + 'a \<times> 'b \<Rightarrow> bool" where
  "wait_answer rf rg r \<longleftrightarrow>
     (\<forall>x y. rf = Inr x \<longrightarrow> rg = Inr y \<longrightarrow> r = Inr (x, y)) \<and>
     ((\<exists>e. rf = Inl e) \<or> (\<exists>e. rg = Inl e) \<longrightarrow> (\<exists>e. r = Inl e \<and> (rf = Inl e \<or> rg = Inl e)))"

definition wait_group_law :: "('d, 'v) env \<Rightarrow> bool" where
  "wait_group_law env \<longleftrightarrow>
     (\<forall>f g w r w'. env_wait_group env f g w = (r, w') \<longrightarrow>
        (\<exists>w0 rf wf w1 rg wg. wait_answer rf rg r \<and> store w0 = store w \<and>
           (f w0 = (rf, wf) \<and> store w1 = store wf \<and> g w1 = (rg, wg) \<and> store w' = store wg \<or>
            g w0 = (rg, wg) \<and> store w1 = store wg \<and> f w1 = (rf, wf) \<and> store w' = store wf)))"

section \<open>Lifting relations between stores\<close>

text \<open>
  A relation between the store before and the store after. Where it is reflexive and
  transitive, it holds across a whole operation as soon as every statement keeps it:
  invariants and monotonicity properties are proved once per statement and lifted.
\<close>

definition keeps :: "('d \<Rightarrow> 'd \<Rightarrow> bool) \<Rightarrow> ('d, 'a) io \<Rightarrow> bool" where
  "keeps R m \<longleftrightarrow> (\<forall>w. R (store w) (store (snd (m w))))"

definition stmt_keeps :: "('d \<Rightarrow> 'd \<Rightarrow> bool) \<Rightarrow> ('d, 'a) stmt \<Rightarrow> bool" where
  "stmt_keeps R sql \<longleftrightarrow> (\<forall>q d x d'. sql q d = Inr (x, d') \<longrightarrow> R d d')"

lemma keepsD: "keeps R m \<Longrightarrow> m w = (r, w') \<Longrightarrow> R (store w) (store w')"
  unfolding keeps_def by (metis snd_conv)

text \<open>
  Other processes act on the store between two calls of a function: in front of a call the
  world is changed by \<open>others\<close>. It is any function of the world, whose ticks are new at every
  call, so it stands for any sequence of interventions; \<open>interferes\<close> bounds what they do.
\<close>

definition amid :: "('d world \<Rightarrow> 'd world) \<Rightarrow> ('d, 'a) io \<Rightarrow> ('d, 'a) io" where
  "amid others m w = m (others w)"

definition interferes :: "('d \<Rightarrow> 'd \<Rightarrow> bool) \<Rightarrow> ('d world \<Rightarrow> 'd world) \<Rightarrow> bool" where
  "interferes R others \<longleftrightarrow> (\<forall>w. R (store w) (store (others w)))"

lemma interferes_mono: "interferes R others \<Longrightarrow> (\<And>d d'. R d d' \<Longrightarrow> Q d d') \<Longrightarrow> interferes Q others"
  by (simp add: interferes_def)

lemma amid_id [simp]: "amid id m = m" "amid (\<lambda>w. w) m = m"
  by (simp_all add: amid_def fun_eq_iff)

locale step_relation =
  fixes R :: "'d \<Rightarrow> 'd \<Rightarrow> bool"
  assumes R_refl: "R d d"
    and R_trans: "R d1 d2 \<Longrightarrow> R d2 d3 \<Longrightarrow> R d1 d3"
begin

lemma keeps_ret [keeps_intros]: "keeps R (ret x)"
  and keeps_throw [keeps_intros]: "keeps R (throw e)"
  and keeps_liftE [keeps_intros]: "keeps R (liftE r)"
  and keeps_NewV7 [keeps_intros]: "keeps R (NewV7 env)"
  and keeps_time_Now [keeps_intros]: "keeps R (time_Now env)"
  by (simp_all add: keeps_def R_refl)

lemma keeps_If [keeps_intros]: "keeps R m \<Longrightarrow> keeps R n \<Longrightarrow> keeps R (if b then m else n)"
  by simp

text \<open>Only the results that a function can return matter for what follows it.\<close>

lemma keeps_bindE_results:
  assumes "keeps R m" and "\<And>x w w'. m w = (Inr x, w') \<Longrightarrow> keeps R (k x)"
  shows "keeps R (bindE m k)"
  unfolding keeps_def
proof
  fix w
  show "R (store w) (store (snd (bindE m k w)))"
  proof (cases "m w")
    case (Pair r w')
    then have R1: "R (store w) (store w')" using assms(1) by (rule keepsD [rotated])
    show ?thesis
    proof (cases r)
      case (Inr x)
      have "R (store w') (store (snd (k x w')))"
        using assms(2) Pair Inr by (simp add: keeps_def)
      with R1 Pair Inr show ?thesis by (auto simp: bindE_def intro: R_trans)
    qed (use R1 Pair in \<open>simp add: bindE_def\<close>)
  qed
qed

lemma keeps_bindE [keeps_intros]: "keeps R m \<Longrightarrow> (\<And>x. keeps R (k x)) \<Longrightarrow> keeps R (bindE m k)"
  by (rule keeps_bindE_results)

lemma keeps_wrapE [keeps_intros]: "keeps R m \<Longrightarrow> keeps R (wrapE p m)"
  by (simp add: keeps_def)

lemma keeps_tryE_results:
  assumes "keeps R m" and "\<And>e. keeps R (onErr e)" and "\<And>x w w'. m w = (Inr x, w') \<Longrightarrow> keeps R (onOk x)"
  shows "keeps R (tryE m onErr onOk)"
  unfolding keeps_def
proof
  fix w
  obtain r w' where m: "m w = (r, w')" by fastforce
  with assms(1) have R1: "R (store w) (store w')" by (rule keepsD)
  have "R (store w') (store (snd (onErr e w')))" for e
    using assms(2) by (simp add: keeps_def)
  moreover have "R (store w') (store (snd (onOk x w')))" if "r = Inr x" for x
    using assms(3) [OF m [unfolded that]] by (simp add: keeps_def)
  ultimately show "R (store w) (store (snd (tryE m onErr onOk w)))"
    using R1 m by (cases r) (auto simp: tryE_def intro: R_trans)
qed

lemma keeps_tryE [keeps_intros]:
  "keeps R m \<Longrightarrow> (\<And>e. keeps R (onErr e)) \<Longrightarrow> (\<And>x. keeps R (onOk x)) \<Longrightarrow> keeps R (tryE m onErr onOk)"
  by (rule keeps_tryE_results)

text \<open>A call after what others did.\<close>

lemma keeps_amid: "keeps R m \<Longrightarrow> interferes R others \<Longrightarrow> keeps R (amid others m)"
  unfolding keeps_def interferes_def amid_def using R_trans by blast

lemma interferes_id [simp]: "interferes R id" "interferes R (\<lambda>w. w)"
  by (simp_all add: interferes_def R_refl)

lemma keeps_in_turn:
  assumes "keeps R f" and "keeps R g" and "store w0 = store w" and "f w0 = (rf, w1a)"
    and "store w1 = store w1a" and "g w1 = (rg, w2a)"
  shows "R (store w) (store w2a)"
  using R_trans [OF keepsD [OF assms(1,4)]] keepsD [OF assms(2,6)] assms(3,5) by simp

lemma keeps_wait_group [keeps_intros]:
  assumes law: "wait_group_law env" and fg: "keeps R f" "keeps R g"
  shows "keeps R (env_wait_group env f g)"
  unfolding keeps_def
proof
  fix w
  obtain r w' where run: "env_wait_group env f g w = (r, w')" by fastforce
  with law obtain w0 rf wf w1 rg wg where "store w0 = store w"
    and "f w0 = (rf, wf) \<and> store w1 = store wf \<and> g w1 = (rg, wg) \<and> store w' = store wg \<or>
      g w0 = (rg, wg) \<and> store w1 = store wg \<and> f w1 = (rf, wf) \<and> store w' = store wf"
    unfolding wait_group_law_def by blast
  then have "R (store w) (store w')"
    using keeps_in_turn [OF fg] keeps_in_turn [OF fg(2,1)] by (elim disjE conjE) simp_all
  with run show "R (store w) (store (snd (env_wait_group env f g w)))" by simp
qed

lemma keeps_exec [keeps_intros]: "stmt_keeps R sql \<Longrightarrow> keeps R (exec env ex sql)"
  unfolding keeps_def stmt_keeps_def
proof
  fix w
  assume R: "\<forall>q d x d'. sql q d = Inr (x, d') \<longrightarrow> R d d'"
  show "R (store w) (store (snd (exec env ex sql w)))"
  proof (cases "exec env ex sql w")
    case (Pair r w')
    with R have "R (store w) (store w')"
      by (cases r) (auto simp: exec_ok R_refl dest!: exec_err)
    with Pair show ?thesis by simp
  qed
qed

text \<open>The rule for transactions: all of the function's effect, or none of it.\<close>

lemma keeps_begin_func [keeps_intros]:
  assumes law: "begin_func_law env" and body: "\<And>ex. keeps R (body ex)"
  shows "keeps R (env_begin_func env txer body)"
  unfolding keeps_def
proof
  fix w
  obtain r w1 where run: "env_begin_func env txer body w = (r, w1)" by fastforce
  from law run have "R (store w) (store w1)"
  proof (cases rule: begin_func_cases)
    case (committed t w0 u w2)
    with body [of "InTx t"] have "R (store w0) (store w2)" by (auto dest: keepsD)
    with committed show ?thesis by simp
  qed (simp add: R_refl)
  with run show "R (store w) (store (snd (env_begin_func env txer body w)))" by simp
qed

end

end
