(* ===== verification/Schema.thy ===== *)
theory Schema
  imports Effects
begin

text \<open>
  The tables of \<open>migrations/init_floww.up.sql\<close> with the constraints, defaults and
  triggers that the engine's statements meet, the Go structs the rows are scanned into
  (\<open>workflow_worker.go\<close>, \<open>activity_worker.go\<close>) and the integrity invariant of the
  database.
\<close>

section \<open>Rows\<close>

datatype workflow_status = WorkflowRunning | WorkflowAborted | WorkflowCompleted | WorkflowFailed
datatype task_status = TaskPending | TaskRunning | TaskCompleted | TaskFailed
datatype activity_status = ActivityPending | ActivityRunning | ActivityCompleted | ActivityFailed

record workflow_row =
  w_id :: uuid
  w_idempotency_key :: uuid
  w_name :: string
  w_status :: workflow_status
  w_input :: "bytes option"
  w_output :: "bytes option"
  w_priority :: int
  w_attempts :: int
  w_max_attempts :: int
  w_stuck_timeout_millis :: int
  w_completed_at :: "instant option"
  w_error_message :: "string option"
  w_created_at :: instant
  w_updated_at :: instant

record task_row =
  t_id :: uuid
  t_workflow_id :: uuid
  t_name :: string
  t_status :: task_status
  t_priority :: int
  t_stuck_timeout_millis :: int
  t_scheduled_at :: instant
  t_run_at :: "instant option"
  t_stuck_at :: "instant option"
  t_completed_at :: "instant option"
  t_created_at :: instant
  t_updated_at :: instant

record activity_row =
  a_id :: uuid
  a_idempotency_key :: uuid
  a_workflow_id :: uuid
  a_name :: string
  a_status :: activity_status
  a_input :: "bytes option"
  a_output :: "bytes option"
  a_priority :: int
  a_attempts :: int
  a_max_attempts :: int
  a_stuck_timeout_millis :: int
  a_scheduled_at :: instant
  a_run_at :: "instant option"
  a_stuck_at :: "instant option"
  a_completed_at :: "instant option"
  a_error_message :: "string option"
  a_created_at :: instant
  a_updated_at :: instant

record signal_row =
  s_id :: uuid
  s_idempotency_key :: uuid
  s_workflow_id :: uuid
  s_name :: string
  s_input :: "bytes option"
  s_created_at :: instant

record db =
  workflows :: "workflow_row list"
  tasks :: "task_row list"
  activities :: "activity_row list"
  signals :: "signal_row list"

definition empty_db :: db where
  "empty_db = \<lparr>workflows = [], tasks = [], activities = [], signals = []\<rparr>"

text \<open>
  The trigger \<open>floww_set_updated_at\<close>: a row that an UPDATE changes gets a new
  \<open>updated_at\<close>. The three tables that have the trigger have one copy each.
\<close>

definition w_set_updated_at :: "instant \<Rightarrow> (workflow_row \<Rightarrow> workflow_row) \<Rightarrow> workflow_row \<Rightarrow> workflow_row" where
  "w_set_updated_at n f old = (let new = f old in if new \<noteq> old then new\<lparr>w_updated_at := n\<rparr> else new)"

definition t_set_updated_at :: "instant \<Rightarrow> (task_row \<Rightarrow> task_row) \<Rightarrow> task_row \<Rightarrow> task_row" where
  "t_set_updated_at n f old = (let new = f old in if new \<noteq> old then new\<lparr>t_updated_at := n\<rparr> else new)"

definition a_set_updated_at :: "instant \<Rightarrow> (activity_row \<Rightarrow> activity_row) \<Rightarrow> activity_row \<Rightarrow> activity_row" where
  "a_set_updated_at n f old = (let new = f old in if new \<noteq> old then new\<lparr>a_updated_at := n\<rparr> else new)"

lemma w_set_updated_at_simps [simp]:
  "w_id (w_set_updated_at n f r) = w_id (f r)"
  "w_idempotency_key (w_set_updated_at n f r) = w_idempotency_key (f r)"
  "w_name (w_set_updated_at n f r) = w_name (f r)"
  "w_status (w_set_updated_at n f r) = w_status (f r)"
  "w_input (w_set_updated_at n f r) = w_input (f r)"
  "w_priority (w_set_updated_at n f r) = w_priority (f r)"
  "w_attempts (w_set_updated_at n f r) = w_attempts (f r)"
  "w_max_attempts (w_set_updated_at n f r) = w_max_attempts (f r)"
  "w_stuck_timeout_millis (w_set_updated_at n f r) = w_stuck_timeout_millis (f r)"
  "w_completed_at (w_set_updated_at n f r) = w_completed_at (f r)"
  "w_error_message (w_set_updated_at n f r) = w_error_message (f r)"
  "w_created_at (w_set_updated_at n f r) = w_created_at (f r)"
  by (simp_all add: w_set_updated_at_def Let_def)

lemma t_set_updated_at_simps [simp]:
  "t_id (t_set_updated_at n f r) = t_id (f r)"
  "t_workflow_id (t_set_updated_at n f r) = t_workflow_id (f r)"
  "t_name (t_set_updated_at n f r) = t_name (f r)"
  "t_status (t_set_updated_at n f r) = t_status (f r)"
  "t_priority (t_set_updated_at n f r) = t_priority (f r)"
  "t_stuck_timeout_millis (t_set_updated_at n f r) = t_stuck_timeout_millis (f r)"
  "t_scheduled_at (t_set_updated_at n f r) = t_scheduled_at (f r)"
  "t_run_at (t_set_updated_at n f r) = t_run_at (f r)"
  "t_stuck_at (t_set_updated_at n f r) = t_stuck_at (f r)"
  "t_completed_at (t_set_updated_at n f r) = t_completed_at (f r)"
  "t_created_at (t_set_updated_at n f r) = t_created_at (f r)"
  by (simp_all add: t_set_updated_at_def Let_def)

lemma a_set_updated_at_simps [simp]:
  "a_id (a_set_updated_at n f r) = a_id (f r)"
  "a_idempotency_key (a_set_updated_at n f r) = a_idempotency_key (f r)"
  "a_workflow_id (a_set_updated_at n f r) = a_workflow_id (f r)"
  "a_name (a_set_updated_at n f r) = a_name (f r)"
  "a_status (a_set_updated_at n f r) = a_status (f r)"
  "a_input (a_set_updated_at n f r) = a_input (f r)"
  "a_output (a_set_updated_at n f r) = a_output (f r)"
  "a_priority (a_set_updated_at n f r) = a_priority (f r)"
  "a_attempts (a_set_updated_at n f r) = a_attempts (f r)"
  "a_max_attempts (a_set_updated_at n f r) = a_max_attempts (f r)"
  "a_stuck_timeout_millis (a_set_updated_at n f r) = a_stuck_timeout_millis (f r)"
  "a_scheduled_at (a_set_updated_at n f r) = a_scheduled_at (f r)"
  "a_run_at (a_set_updated_at n f r) = a_run_at (f r)"
  "a_stuck_at (a_set_updated_at n f r) = a_stuck_at (f r)"
  "a_completed_at (a_set_updated_at n f r) = a_completed_at (f r)"
  "a_error_message (a_set_updated_at n f r) = a_error_message (f r)"
  "a_created_at (a_set_updated_at n f r) = a_created_at (f r)"
  by (simp_all add: a_set_updated_at_def Let_def)

section \<open>Integrity\<close>

definition wf_ids :: "db \<Rightarrow> uuid set" where
  "wf_ids d = w_id ` set (workflows d)"

definition find_workflow :: "db \<Rightarrow> uuid \<Rightarrow> workflow_row option" where
  "find_workflow d i = find (\<lambda>w. w_id w = i) (workflows d)"

definition find_activity :: "db \<Rightarrow> uuid \<Rightarrow> activity_row option" where
  "find_activity d i = find (\<lambda>a. a_id a = i) (activities d)"

definition find_task :: "db \<Rightarrow> uuid \<Rightarrow> task_row option" where
  "find_task d i = find (\<lambda>t. t_id t = i) (tasks d)"

text \<open>The keys and foreign keys of the four tables.\<close>

definition keys_ok :: "db \<Rightarrow> bool" where
  "keys_ok d \<longleftrightarrow>
     distinct (map w_id (workflows d)) \<and> distinct (map w_idempotency_key (workflows d)) \<and>
     distinct (map t_id (tasks d)) \<and>
     distinct (map a_id (activities d)) \<and> distinct (map a_idempotency_key (activities d)) \<and>
     distinct (map s_id (signals d)) \<and> distinct (map s_idempotency_key (signals d))"

definition refs_ok :: "db \<Rightarrow> bool" where
  "refs_ok d \<longleftrightarrow>
     t_workflow_id ` set (tasks d) \<subseteq> wf_ids d \<and>
     a_workflow_id ` set (activities d) \<subseteq> wf_ids d \<and>
     s_workflow_id ` set (signals d) \<subseteq> wf_ids d"

text \<open>
  What a row's columns say of each other: the ranges of the \<open>int\<close> columns, and the
  timestamps that go with a status.
\<close>

definition workflow_ok :: "workflow_row \<Rightarrow> bool" where
  "workflow_ok w \<longleftrightarrow>
     in_int4 (w_priority w) \<and> 1 \<le> w_attempts w \<and> w_attempts w \<le> max_int4 \<and>
     0 \<le> w_max_attempts w \<and> w_max_attempts w \<le> max_int4 \<and>
     (w_status w = WorkflowCompleted \<or> w_status w = WorkflowFailed \<longrightarrow> w_completed_at w \<noteq> None) \<and>
     (w_status w = WorkflowRunning \<longrightarrow> w_completed_at w = None) \<and>
     w_status w \<noteq> WorkflowAborted"

definition task_ok :: "task_row \<Rightarrow> bool" where
  "task_ok t \<longleftrightarrow>
     in_int4 (t_priority t) \<and>
     (t_status t = TaskRunning \<longrightarrow> t_run_at t \<noteq> None \<and> t_stuck_at t \<noteq> None) \<and>
     (t_status t = TaskCompleted \<or> t_status t = TaskFailed \<longrightarrow> t_completed_at t \<noteq> None)"

definition activity_ok :: "activity_row \<Rightarrow> bool" where
  "activity_ok a \<longleftrightarrow>
     in_int4 (a_priority a) \<and> 0 \<le> a_attempts a \<and> a_attempts a \<le> max_int4 \<and>
     0 \<le> a_max_attempts a \<and> a_max_attempts a \<le> max_int4 \<and>
     (a_status a = ActivityRunning \<longrightarrow> a_run_at a \<noteq> None \<and> a_stuck_at a \<noteq> None) \<and>
     (a_status a = ActivityCompleted \<longrightarrow> a_completed_at a \<noteq> None \<and> a_error_message a = None) \<and>
     (a_status a = ActivityFailed \<longrightarrow> a_completed_at a \<noteq> None \<and> a_error_message a \<noteq> None)"

definition valid_db :: "db \<Rightarrow> bool" where
  "valid_db d \<longleftrightarrow>
     keys_ok d \<and> refs_ok d \<and>
     list_all workflow_ok (workflows d) \<and> list_all task_ok (tasks d) \<and>
     list_all activity_ok (activities d)"

lemma valid_empty_db: "valid_db empty_db"
  by (simp add: valid_db_def empty_db_def keys_ok_def refs_ok_def)

lemma valid_dbD:
  assumes "valid_db d"
  shows "keys_ok d" "refs_ok d" "list_all workflow_ok (workflows d)"
    "list_all task_ok (tasks d)" "list_all activity_ok (activities d)"
  using assms by (simp_all add: valid_db_def)

lemma find_workflow_Some:
  "find_workflow d i = Some w \<Longrightarrow> w \<in> set (workflows d) \<and> w_id w = i"
  by (auto simp: find_workflow_def dest: find_SomeD)

lemma find_workflow_None: "find_workflow d i = None \<longleftrightarrow> i \<notin> wf_ids d"
  by (auto simp: find_workflow_def find_None_iff wf_ids_def)

lemma find_workflow_mem:
  "keys_ok d \<Longrightarrow> w \<in> set (workflows d) \<Longrightarrow> find_workflow d (w_id w) = Some w"
  by (simp add: find_workflow_def keys_ok_def find_unique)

lemma find_activity_Some:
  "find_activity d i = Some a \<Longrightarrow> a \<in> set (activities d) \<and> a_id a = i"
  by (auto simp: find_activity_def dest: find_SomeD)

lemma find_activity_mem:
  "keys_ok d \<Longrightarrow> a \<in> set (activities d) \<Longrightarrow> find_activity d (a_id a) = Some a"
  by (simp add: find_activity_def keys_ok_def find_unique)

lemma find_task_Some: "find_task d i = Some t \<Longrightarrow> t \<in> set (tasks d) \<and> t_id t = i"
  by (auto simp: find_task_def dest: find_SomeD)

lemma find_task_mem: "keys_ok d \<Longrightarrow> t \<in> set (tasks d) \<Longrightarrow> find_task d (t_id t) = Some t"
  by (simp add: find_task_def keys_ok_def find_unique)

section \<open>The structs that rows are scanned into\<close>

record workflow_record =
  wr_ID :: uuid
  wr_IdempotencyKey :: uuid
  wr_Name :: string
  wr_Status :: workflow_status
  wr_Input :: "bytes option"
  wr_Output :: "bytes option"
  wr_Priority :: int
  wr_Attempts :: uint
  wr_MaxAttempts :: uint
  wr_StuckTimeoutMillis :: uint
  wr_CompletedAt :: "instant option"
  wr_ErrorMessage :: "string option"
  wr_CreatedAt :: instant
  wr_UpdatedAt :: instant

record workflow_task_record =
  tr_ID :: uuid
  tr_Workflow :: workflow_record
  tr_Status :: task_status
  tr_ScheduledAt :: instant
  tr_RunAt :: "instant option"
  tr_StuckAt :: "instant option"
  tr_CompletedAt :: "instant option"
  tr_CreatedAt :: instant
  tr_UpdatedAt :: instant

record activity_record =
  ar_ID :: uuid
  ar_IdempotencyKey :: uuid
  ar_WorkflowID :: uuid
  ar_Name :: string
  ar_Input :: "bytes option"
  ar_Output :: "bytes option"
  ar_Status :: activity_status
  ar_Priority :: int
  ar_Attempts :: uint
  ar_MaxAttempts :: uint
  ar_StuckTimeoutMillis :: uint
  ar_ScheduledAt :: instant
  ar_RunAt :: "instant option"
  ar_StuckAt :: "instant option"
  ar_CompletedAt :: "instant option"
  ar_ErrorMessage :: "string option"
  ar_CreatedAt :: instant
  ar_UpdatedAt :: instant

text \<open>
  The driver reads a signed column into a Go \<open>uint\<close>: a value in the range of both is
  kept. What it does with a negative value is not used.
\<close>

definition scan_uint_law :: "('d, 'v) env \<Rightarrow> bool" where
  "scan_uint_law env \<longleftrightarrow> (\<forall>n. 0 \<le> n \<longrightarrow> n \<le> max_int8 \<longrightarrow> env_scan_uint env n = Inr (word_of_int n))"

lemma uint_of_column: "0 \<le> n \<Longrightarrow> n \<le> max_int8 \<Longrightarrow> uint (word_of_int n :: uint) = n"
  by (simp add: uint_word_of_int max_int8_def)

lemma uint_le_of_columns:
  assumes "0 \<le> m" "m \<le> max_int8" "0 \<le> n" "n \<le> max_int8"
  shows "(word_of_int m :: uint) \<le> word_of_int n \<longleftrightarrow> m \<le> n"
  using assms by (simp add: word_le_def uint_of_column)

end
