(* ===== verification/Sql_Workflows.thy ===== *)
theory Sql_Workflows
  imports Schema
begin

text \<open>
  The statements on \<open>floww_workflows\<close> that \<open>storage/postgres/workflows.go\<close> and
  \<open>workflow_tasks.go\<close> send, one definition each, and that they keep the integrity of the
  database. A statement maps the snapshot it sees and the tables to an error of the
  service or to its answer and the new tables.
\<close>

section \<open>Integrity under updates\<close>

text \<open>
  An UPDATE that keeps the keys and the row conditions keeps the database valid. One
  lemma per table serves every statement on it.
\<close>

lemma list_all_update_where:
  assumes "list_all P rows" and "\<And>r. r \<in> set rows \<Longrightarrow> P r \<Longrightarrow> p r \<Longrightarrow> P (f r)"
  shows "list_all P (update_where p f rows)"
  using assms by (auto simp: list_all_iff)

lemma wf_ids_eq_set: "wf_ids d = set (map w_id (workflows d))"
  by (simp add: wf_ids_def)

lemma wf_ids_workflows_update [simp]:
  "(\<And>r. w_id (f r) = w_id r) \<Longrightarrow> wf_ids (d\<lparr>workflows := update_where p f (workflows d)\<rparr>) = wf_ids d"
  by (simp add: wf_ids_eq_set map_update_where_same del: set_map)

lemma wf_ids_other_tables [simp]:
  "wf_ids (d\<lparr>tasks := ts\<rparr>) = wf_ids d"
  "wf_ids (d\<lparr>activities := as\<rparr>) = wf_ids d"
  "wf_ids (d\<lparr>signals := ss\<rparr>) = wf_ids d"
  by (simp_all add: wf_ids_def)

lemma valid_update_workflows:
  assumes "valid_db d"
    and keys: "\<And>r. w_id (f r) = w_id r" "\<And>r. w_idempotency_key (f r) = w_idempotency_key r"
    and rows: "\<And>r. workflow_ok r \<Longrightarrow> p r \<Longrightarrow> workflow_ok (f r)"
  shows "valid_db (d\<lparr>workflows := update_where p f (workflows d)\<rparr>)"
  using assms(1)
  by (auto simp: valid_db_def keys_ok_def refs_ok_def map_update_where_same keys
      intro!: list_all_update_where rows)

lemma workflow_ok_touch [simp]: "workflow_ok (w_set_updated_at n f r) = workflow_ok (f r)"
  by (simp add: workflow_ok_def)

section \<open>Insert\<close>

definition new_workflow :: "instant \<Rightarrow> uuid \<Rightarrow> uuid \<Rightarrow> string \<Rightarrow> bytes option \<Rightarrow> int \<Rightarrow> int \<Rightarrow> int \<Rightarrow> workflow_row" where
  "new_workflow now i key name input priority max_attempts millis =
     \<lparr>w_id = i, w_idempotency_key = key, w_name = name, w_status = WorkflowRunning,
      w_input = input, w_output = None, w_priority = priority, w_attempts = 1,
      w_max_attempts = max_attempts, w_stuck_timeout_millis = millis, w_completed_at = None,
      w_error_message = None, w_created_at = now, w_updated_at = now\<rparr>"

text \<open>
  \<open>INSERT .. ON CONFLICT (idempotency_key) DO UPDATE SET id = floww_workflows.id
  RETURNING id\<close>. The conflict target is looked up before the row is inserted; another
  unique constraint raises an error.
\<close>

definition sql_insert_workflow ::
    "uuid \<Rightarrow> uuid \<Rightarrow> string \<Rightarrow> bytes option \<Rightarrow> int \<Rightarrow> int \<Rightarrow> int \<Rightarrow> (db, uuid) stmt" where
  "sql_insert_workflow i key name input priority max_attempts millis q d =
     (if \<not> in_int4 priority \<or> \<not> in_int4 max_attempts then Inl NumericValueOutOfRange
      else case find (\<lambda>w. w_idempotency_key w = key) (workflows d) of
        Some w \<Rightarrow>
          Inr (w_id w, d\<lparr>workflows := update_where (\<lambda>r. w_idempotency_key r = key)
            (w_set_updated_at (q_now q) (\<lambda>r. r\<lparr>w_id := w_id r\<rparr>)) (workflows d)\<rparr>)
      | None \<Rightarrow>
          if i \<in> wf_ids d then Inl (UniqueViolation ''floww_workflows_pkey'')
          else Inr (i, d\<lparr>workflows := workflows d @
            [new_workflow (q_now q) i key name input priority max_attempts millis]\<rparr>))"

section \<open>Updates\<close>

definition sql_complete_workflow :: "uuid \<Rightarrow> (db, nat) stmt" where
  "sql_complete_workflow i q d =
     Inr (count_where (\<lambda>w. w_id w = i) (workflows d),
       d\<lparr>workflows := update_where (\<lambda>w. w_id w = i)
         (w_set_updated_at (q_now q) (\<lambda>w. w\<lparr>w_status := WorkflowCompleted,
            w_completed_at := Some (q_now q), w_error_message := None\<rparr>)) (workflows d)\<rparr>)"

definition sql_fail_workflow :: "uuid \<Rightarrow> string \<Rightarrow> (db, nat) stmt" where
  "sql_fail_workflow i msg q d =
     Inr (count_where (\<lambda>w. w_id w = i) (workflows d),
       d\<lparr>workflows := update_where (\<lambda>w. w_id w = i)
         (w_set_updated_at (q_now q) (\<lambda>w. w\<lparr>w_status := WorkflowFailed,
            w_error_message := Some msg, w_completed_at := Some (q_now q)\<rparr>)) (workflows d)\<rparr>)"

definition sql_clear_workflow_error :: "uuid \<Rightarrow> (db, nat) stmt" where
  "sql_clear_workflow_error i q d =
     Inr (count_where (\<lambda>w. w_id w = i) (workflows d),
       d\<lparr>workflows := update_where (\<lambda>w. w_id w = i)
         (w_set_updated_at (q_now q) (\<lambda>w. w\<lparr>w_error_message := None\<rparr>)) (workflows d)\<rparr>)"

text \<open>\<open>attempts + 1\<close> overflows the \<open>int\<close> column at its largest value.\<close>

definition sql_increment_workflow_attempts :: "uuid \<Rightarrow> string \<Rightarrow> (db, nat) stmt" where
  "sql_increment_workflow_attempts i msg q d =
     (if \<exists>w \<in> set (workflows d). w_id w = i \<and> \<not> in_int4 (w_attempts w + 1)
      then Inl NumericValueOutOfRange
      else Inr (count_where (\<lambda>w. w_id w = i) (workflows d),
        d\<lparr>workflows := update_where (\<lambda>w. w_id w = i)
          (w_set_updated_at (q_now q) (\<lambda>w. w\<lparr>w_attempts := w_attempts w + 1,
             w_error_message := Some msg\<rparr>)) (workflows d)\<rparr>))"

section \<open>Delete\<close>

text \<open>
  \<open>DELETE .. WHERE id IN (SELECT id .. WHERE status = $1 AND created_at < $2 LIMIT $3)\<close>:
  without an \<open>ORDER BY\<close> any rows that satisfy the condition may be the ones within the
  limit. Tasks, activities and signals of a deleted workflow go with it (\<open>ON DELETE
  CASCADE\<close>). A limit beyond \<open>bigint\<close> is refused.
\<close>

definition doomed :: "workflow_status \<Rightarrow> instant \<Rightarrow> nat \<Rightarrow> snap \<Rightarrow> db \<Rightarrow> uuid list" where
  "doomed status cutoff n q d =
     map w_id (take n (sort_key (\<lambda>w. q_rank q 0 (w_id w))
       (filter (\<lambda>w. w_status w = status \<and> w_created_at w < cutoff) (workflows d))))"

definition delete_cascade :: "uuid list \<Rightarrow> db \<Rightarrow> db" where
  "delete_cascade ids d =
     \<lparr>workflows = filter (\<lambda>w. w_id w \<notin> set ids) (workflows d),
      tasks = filter (\<lambda>t. t_workflow_id t \<notin> set ids) (tasks d),
      activities = filter (\<lambda>a. a_workflow_id a \<notin> set ids) (activities d),
      signals = filter (\<lambda>s. s_workflow_id s \<notin> set ids) (signals d)\<rparr>"

definition sql_delete_workflows :: "workflow_status \<Rightarrow> instant \<Rightarrow> nat \<Rightarrow> (db, nat) stmt" where
  "sql_delete_workflows status cutoff n q d =
     (if max_int8 < int n then Inl NumericValueOutOfRange
      else let ids = doomed status cutoff n q d
           in Inr (count_where (\<lambda>w. w_id w \<in> set ids) (workflows d), delete_cascade ids d))"

lemmas sql_workflow_defs [stmt_defs] =
  sql_insert_workflow_def sql_complete_workflow_def sql_fail_workflow_def
  sql_clear_workflow_error_def sql_increment_workflow_attempts_def sql_delete_workflows_def

section \<open>Integrity\<close>

lemma workflow_noop_update:
  "update_where p (w_set_updated_at n (\<lambda>r. r)) rows = rows"
  by (auto simp: update_where_def w_set_updated_at_def Let_def intro: map_idI)

text \<open>What an insert does, by cases on the idempotency key.\<close>

lemma sql_insert_workflow_ok:
  assumes "sql_insert_workflow i key name input priority maxa millis q d = Inr (u, d')"
  obtains (existing) w where "w \<in> set (workflows d)" "w_idempotency_key w = key" "u = w_id w" "d' = d"
  | (inserted) "\<forall>w \<in> set (workflows d). w_idempotency_key w \<noteq> key" "i \<notin> wf_ids d" "u = i"
      "in_int4 priority" "in_int4 maxa"
      "d' = d\<lparr>workflows := workflows d @ [new_workflow (q_now q) i key name input priority maxa millis]\<rparr>"
proof (cases "find (\<lambda>w. w_idempotency_key w = key) (workflows d)")
  case None
  then have "\<forall>w \<in> set (workflows d). w_idempotency_key w \<noteq> key" by (auto simp: find_None_iff)
  moreover have "i \<notin> wf_ids d \<and> u = i \<and> in_int4 priority \<and> in_int4 maxa \<and>
      d' = d\<lparr>workflows := workflows d @ [new_workflow (q_now q) i key name input priority maxa millis]\<rparr>"
    using assms None by (auto simp: sql_insert_workflow_def split: if_splits)
  ultimately show ?thesis by (intro inserted) auto
next
  case (Some w)
  with assms have "u = w_id w" "d' = d"
    by (auto simp: sql_insert_workflow_def workflow_noop_update split: if_splits)
  moreover have "w \<in> set (workflows d)" "w_idempotency_key w = key"
    using find_SomeD [OF Some] by simp_all
  ultimately show ?thesis by (intro existing) auto
qed

lemma sql_insert_workflow_valid:
  assumes "valid_db d" and "0 \<le> maxa"
    and "sql_insert_workflow i key name input priority maxa millis q d = Inr (u, d')"
  shows "valid_db d'"
  using assms(3)
proof (cases rule: sql_insert_workflow_ok)
  case existing
  with assms(1) show ?thesis by simp
next
  case inserted
  with assms(1,2) show ?thesis
    by (auto simp: valid_db_def keys_ok_def refs_ok_def wf_ids_def workflow_ok_def new_workflow_def
        in_int4_def max_int4_def)
qed

lemma sql_complete_workflow_valid:
  "valid_db d \<Longrightarrow> sql_complete_workflow i q d = Inr (n, d') \<Longrightarrow> valid_db d'"
  by (auto simp: sql_complete_workflow_def workflow_ok_def intro!: valid_update_workflows)

lemma sql_fail_workflow_valid:
  "valid_db d \<Longrightarrow> sql_fail_workflow i msg q d = Inr (n, d') \<Longrightarrow> valid_db d'"
  by (auto simp: sql_fail_workflow_def workflow_ok_def intro!: valid_update_workflows)

lemma sql_clear_workflow_error_valid:
  "valid_db d \<Longrightarrow> sql_clear_workflow_error i q d = Inr (n, d') \<Longrightarrow> valid_db d'"
  by (auto simp: sql_clear_workflow_error_def workflow_ok_def intro!: valid_update_workflows)

lemma sql_increment_workflow_attempts_valid:
  assumes v: "valid_db d" and run: "sql_increment_workflow_attempts i msg q d = Inr (n, d')"
  shows "valid_db d'"
proof -
  let ?f = "w_set_updated_at (q_now q) (\<lambda>w. w\<lparr>w_attempts := w_attempts w + 1, w_error_message := Some msg\<rparr>)"
  from run have fits: "\<forall>w \<in> set (workflows d). w_id w = i \<longrightarrow> in_int4 (w_attempts w + 1)"
    and d': "d' = d\<lparr>workflows := update_where (\<lambda>w. w_id w = i) ?f (workflows d)\<rparr>"
    by (auto simp: sql_increment_workflow_attempts_def split: if_splits)
  have "list_all workflow_ok (update_where (\<lambda>w. w_id w = i) ?f (workflows d))"
    using valid_dbD(3) [OF v] by (rule list_all_update_where) (use fits in \<open>auto simp: workflow_ok_def in_int4_def\<close>)
  with v show ?thesis
    by (auto simp: d' valid_db_def keys_ok_def refs_ok_def map_update_where_same)
qed

lemma delete_cascade_valid: "valid_db d \<Longrightarrow> valid_db (delete_cascade ids d)"
  by (auto simp: valid_db_def keys_ok_def refs_ok_def delete_cascade_def wf_ids_def distinct_map_filter
      list_all_iff)

lemma sql_delete_workflows_valid:
  "valid_db d \<Longrightarrow> sql_delete_workflows status cutoff n q d = Inr (k, d') \<Longrightarrow> valid_db d'"
  by (auto simp: sql_delete_workflows_def Let_def delete_cascade_valid split: if_splits)

end
