(* ===== verification/Claiming.thy ===== *)
theory Claiming
  imports Schema "HOL-Library.Multiset"
begin

text \<open>
  The selection that both fetch queries share (\<open>_fetchWorkflowTasksSQL\<close> and
  \<open>_fetchActivitiesSQL\<close> with their \<open>WithNames\<close> variants): the pending branch and the stuck
  branch are ordered and limited on their own, then united, ordered and limited again.
  The lemmas show that the early limits lose nothing: the result is a best batch of all
  the eligible rows.
\<close>

section \<open>Ordering and limiting\<close>

text \<open>A candidate carries the columns that \<open>pre_candidates\<close> selects.\<close>

type_synonym candidate = "uuid \<times> int \<times> instant"

text \<open>\<open>ORDER BY priority DESC, scheduled_at\<close>.\<close>

definition order_key :: "candidate \<Rightarrow> int \<times> instant" where
  "order_key c = (- fst (snd c), snd (snd c))"

text \<open>
  \<open>ORDER BY .. LIMIT n\<close> over the rows in the order the \<open>k\<close>-th scan of the plan reads them;
  rows with equal keys stay in that (arbitrary) order.
\<close>

definition order_by_limit :: "snap \<Rightarrow> nat \<Rightarrow> nat \<Rightarrow> candidate list \<Rightarrow> candidate list" where
  "order_by_limit q k n cs = take n (sort_key order_key (sort_key (\<lambda>c. q_rank q k (fst c)) cs))"

definition pre_candidates :: "snap \<Rightarrow> nat \<Rightarrow> candidate list \<Rightarrow> candidate list \<Rightarrow> candidate list" where
  "pre_candidates q n pending stuck = order_by_limit q 0 n pending @ order_by_limit q 1 n stuck"

definition candidates :: "snap \<Rightarrow> nat \<Rightarrow> candidate list \<Rightarrow> candidate list \<Rightarrow> candidate list" where
  "candidates q n pending stuck = order_by_limit q 2 n (pre_candidates q n pending stuck)"

lemma set_order_by_limit: "set (order_by_limit q k n cs) \<subseteq> set cs"
  unfolding order_by_limit_def by (metis set_sort set_take_subset)

lemma length_order_by_limit [simp]: "length (order_by_limit q k n cs) = min n (length cs)"
  by (simp add: order_by_limit_def)

lemma mset_map_sort_key: "mset (map f (sort_key g xs)) = mset (map f xs)"
  by simp

lemma distinct_order_by_limit:
  "distinct (map fst cs) \<Longrightarrow> distinct (map fst (order_by_limit q k n cs))"
proof -
  assume "distinct (map fst cs)"
  moreover have "mset (map fst (sort_key order_key (sort_key (\<lambda>c. q_rank q k (fst c)) cs))) = mset (map fst cs)"
    by simp
  ultimately have "distinct (map fst (sort_key order_key (sort_key (\<lambda>c. q_rank q k (fst c)) cs)))"
    by (metis mset_eq_imp_distinct_iff)
  then show ?thesis by (simp add: order_by_limit_def flip: take_map)
qed

lemma order_by_limit_all: "length cs \<le> n \<Longrightarrow> set (order_by_limit q k n cs) = set cs"
  by (simp add: order_by_limit_def)

section \<open>The first \<open>n\<close> of a sorted list\<close>

lemma sorted_take_le:
  fixes ks :: "'k::linorder list"
  assumes "sorted ks" and "n \<le> length (filter (\<lambda>x. x \<le> b) ks)" and "x \<in> set (take n ks)"
  shows "x \<le> b"
  using assms
proof (induction ks arbitrary: n)
  case (Cons y ys)
  show ?case
  proof (cases "y \<le> b")
    case True
    with Cons show ?thesis by (cases n) auto
  next
    case False
    with Cons.prems(1) have "filter (\<lambda>x. x \<le> b) (y # ys) = []"
      by (auto simp: filter_empty_conv)
    with Cons.prems(2,3) show ?thesis by simp
  qed
qed simp

text \<open>A row that a limit leaves out is outranked by every row of a full batch.\<close>

lemma order_by_limit_best:
  assumes c: "c \<in> set (order_by_limit q k n cs)" and e: "e \<in> set cs" "e \<notin> set (order_by_limit q k n cs)"
  shows "order_key c \<le> order_key e"
proof -
  let ?s = "sort_key order_key (sort_key (\<lambda>c. q_rank q k (fst c)) cs)"
  have "e \<in> set ?s" using e(1) by simp
  then have "e \<in> set (take n ?s) \<or> e \<in> set (drop n ?s)"
    by (metis append_take_drop_id set_append Un_iff)
  with e(2) have e': "e \<in> set (drop n ?s)" by (simp add: order_by_limit_def)
  have "sorted (map order_key (take n ?s @ drop n ?s))" by simp
  then have "\<forall>x \<in> set (take n ?s). \<forall>y \<in> set (drop n ?s). order_key x \<le> order_key y"
    unfolding map_append sorted_append by simp
  with c e' show ?thesis by (simp add: order_by_limit_def)
qed

lemma order_by_limit_full: "e \<in> set cs \<Longrightarrow> e \<notin> set (order_by_limit q k n cs) \<Longrightarrow> length (order_by_limit q k n cs) = n"
  using order_by_limit_all [of cs n q k] by (cases "length cs \<le> n") auto

lemma keys_order_by_limit: "map order_key (order_by_limit q k n cs) = take n (sort (map order_key cs))"
proof -
  have "sort (map order_key cs) = map order_key (sort_key order_key (sort_key (\<lambda>c. q_rank q k (fst c)) cs))"
    by (rule properties_for_sort) simp_all
  then show ?thesis by (simp add: order_by_limit_def take_map)
qed

lemma take_insort_large:
  fixes ks :: "'k::linorder list"
  assumes "sorted ks" and "n \<le> length (filter (\<lambda>x. x \<le> d) ks)"
  shows "take n (insort d ks) = take n ks"
  using assms
proof (induction ks arbitrary: n)
  case (Cons y ys)
  show ?case
  proof (cases "d \<le> y")
    case True
    have len: "n \<le> length (y # ys)"
      using Cons.prems(2) length_filter_le [of "\<lambda>x. x \<le> d" "y # ys"] by simp
    have "x = d" if "x \<in> set (take n (y # ys))" for x
    proof (rule antisym)
      show "x \<le> d" using sorted_take_le [OF Cons.prems that] .
      have "x \<in> set (y # ys)" using that by (rule in_set_takeD)
      then show "d \<le> x" using Cons.prems(1) True by auto
    qed
    then have rep: "take n (y # ys) = replicate n d"
      using len by (intro replicate_eqI) auto
    show ?thesis
    proof (cases n)
      case (Suc m)
      then have "take m (y # ys) = take m (take n (y # ys))" by (simp only: take_take) simp
      also have "\<dots> = replicate m d" by (simp only: rep take_replicate) (simp add: Suc)
      finally show ?thesis using True rep Suc by simp
    qed simp
  next
    case False
    then show ?thesis using Cons by (cases n) (auto split: if_splits)
  qed
qed simp

lemma take_sort_add_large:
  fixes zs :: "'k::linorder list"
  assumes "\<And>d. d \<in> set ds \<Longrightarrow> n \<le> length (filter (\<lambda>x. x \<le> d) zs)"
  shows "take n (sort (ds @ zs)) = take n (sort zs)"
  using assms
proof (induction ds)
  case (Cons d ds)
  have "length (filter (\<lambda>x. x \<le> d) (sort (ds @ zs))) = length (filter (\<lambda>x. x \<le> d) (ds @ zs))"
    by (metis mset_filter mset_sort size_mset)
  moreover have "n \<le> length (filter (\<lambda>x. x \<le> d) zs)" using Cons.prems by simp
  ultimately have "n \<le> length (filter (\<lambda>x. x \<le> d) (sort (ds @ zs)))" by simp
  then have "take n (insort d (sort (ds @ zs))) = take n (sort (ds @ zs))"
    by (rule take_insort_large [OF sorted_sort])
  with Cons show ?case by simp
qed simp

text \<open>An early limit on one part loses nothing of the limited whole.\<close>

lemma take_sort_early_limit:
  fixes xs :: "'k::linorder list"
  shows "take n (sort (take n (sort xs) @ ys)) = take n (sort (xs @ ys))"
proof (cases "length xs \<le> n")
  case True
  then have "mset (take n (sort xs) @ ys) = mset (xs @ ys)" by simp
  then have "sort (take n (sort xs) @ ys) = sort (xs @ ys)"
    by (intro properties_for_sort) (simp_all add: mset_sort)
  then show ?thesis by simp
next
  case False
  let ?t = "take n (sort xs)" and ?d = "drop n (sort xs)"
  have "sorted (?t @ ?d)" by simp
  then have le: "\<forall>x \<in> set ?t. \<forall>y \<in> set ?d. x \<le> y" unfolding sorted_append by blast
  have large: "n \<le> length (filter (\<lambda>x. x \<le> d) (?t @ ys))" if "d \<in> set ?d" for d
  proof -
    have "filter (\<lambda>x. x \<le> d) ?t = ?t" using le that by (intro filter_True) blast
    then show ?thesis using False by simp
  qed
  have "mset (?d @ ?t @ ys) = mset (xs @ ys)"
    by (metis append_take_drop_id mset_append mset_sort union_commute union_assoc)
  then have "sort (?d @ ?t @ ys) = sort (xs @ ys)"
    by (intro properties_for_sort) (simp_all add: mset_sort)
  then show ?thesis using take_sort_add_large [OF large, of ?d] by simp
qed

section \<open>The batch\<close>

text \<open>
  The keys of the batch are the first \<open>n\<close> keys of all the eligible rows: the two early
  limits change nothing but the ties.
\<close>

lemma candidates_keys:
  "map order_key (candidates q n pending stuck) = take n (sort (map order_key (pending @ stuck)))"
proof -
  let ?p = "map order_key pending" and ?s = "map order_key stuck"
  have swap: "sort (as @ bs) = sort (bs @ as)" for as bs :: "(int \<times> instant) list"
    by (intro properties_for_sort) simp_all
  have "map order_key (candidates q n pending stuck) = take n (sort (take n (sort ?p) @ take n (sort ?s)))"
    by (simp add: candidates_def pre_candidates_def keys_order_by_limit)
  also have "\<dots> = take n (sort (?p @ take n (sort ?s)))" by (rule take_sort_early_limit)
  also have "\<dots> = take n (sort (take n (sort ?s) @ ?p))" by (simp only: swap)
  also have "\<dots> = take n (sort (?s @ ?p))" by (rule take_sort_early_limit)
  also have "\<dots> = take n (sort (?p @ ?s))" by (simp only: swap)
  finally show ?thesis by simp
qed

lemma set_candidates: "set (candidates q n pending stuck) \<subseteq> set pending \<union> set stuck"
proof -
  have "set (candidates q n pending stuck) \<subseteq> set (pre_candidates q n pending stuck)"
    unfolding candidates_def by (rule set_order_by_limit)
  also have "\<dots> \<subseteq> set pending \<union> set stuck"
    unfolding pre_candidates_def set_append by (intro Un_mono set_order_by_limit)
  finally show ?thesis .
qed

lemma length_candidates: "length (candidates q n pending stuck) = min n (length pending + length stuck)"
  using arg_cong [OF candidates_keys, of length q n pending stuck] by simp

lemma distinct_candidates:
  assumes "distinct (map fst (pending @ stuck))"
  shows "distinct (map fst (candidates q n pending stuck))"
proof -
  have "distinct (map fst (order_by_limit q 0 n pending))" "distinct (map fst (order_by_limit q 1 n stuck))"
    using assms by (simp_all add: distinct_order_by_limit)
  moreover have "fst ` set (order_by_limit q 0 n pending) \<inter> fst ` set (order_by_limit q 1 n stuck)
      \<subseteq> fst ` set pending \<inter> fst ` set stuck"
    by (intro Int_mono image_mono set_order_by_limit)
  then have "fst ` set (order_by_limit q 0 n pending) \<inter> fst ` set (order_by_limit q 1 n stuck) = {}"
    using assms by auto
  ultimately have "distinct (map fst (pre_candidates q n pending stuck))"
    by (simp add: pre_candidates_def)
  then show ?thesis unfolding candidates_def by (rule distinct_order_by_limit)
qed

text \<open>An eligible row that the batch leaves out is outranked by every row of the batch.\<close>

lemma candidates_best:
  assumes c: "c \<in> set (candidates q n pending stuck)"
    and e: "e \<in> set (pending @ stuck)" "e \<notin> set (candidates q n pending stuck)"
  shows "order_key c \<le> order_key e"
proof (cases "e \<in> set (pre_candidates q n pending stuck)")
  case True
  show ?thesis
    by (rule order_by_limit_best [OF c [unfolded candidates_def] True e(2) [unfolded candidates_def]])
next
  case False
  then obtain k cs where e': "e \<in> set cs" "e \<notin> set (order_by_limit q k n cs)"
    and sub: "mset (order_by_limit q k n cs) \<subseteq># mset (pre_candidates q n pending stuck)"
    using e(1) by (auto simp: pre_candidates_def)
  let ?keys = "map order_key (pre_candidates q n pending stuck)"
  have "\<forall>x \<in> set (order_by_limit q k n cs). order_key x \<le> order_key e"
    using e' order_by_limit_best by blast
  then have "filter (\<lambda>x. x \<le> order_key e) (map order_key (order_by_limit q k n cs)) = map order_key (order_by_limit q k n cs)"
    by (intro filter_True) auto
  moreover have "mset (map order_key (order_by_limit q k n cs)) \<subseteq># mset ?keys"
    using sub by (simp add: image_mset_subseteq_mono)
  then have "mset (filter (\<lambda>x. x \<le> order_key e) (map order_key (order_by_limit q k n cs)))
      \<subseteq># mset (filter (\<lambda>x. x \<le> order_key e) ?keys)"
    unfolding mset_filter by (rule multiset_filter_mono)
  then have "length (filter (\<lambda>x. x \<le> order_key e) (map order_key (order_by_limit q k n cs)))
      \<le> length (filter (\<lambda>x. x \<le> order_key e) ?keys)"
    by (metis size_mset size_mset_mono)
  ultimately have "n \<le> length (filter (\<lambda>x. x \<le> order_key e) ?keys)"
    using order_by_limit_full [OF e'] by simp
  then have "n \<le> length (filter (\<lambda>x. x \<le> order_key e) (sort ?keys))"
    by (metis mset_filter mset_sort size_mset)
  moreover have "order_key c \<in> set (take n (sort ?keys))"
    using c unfolding candidates_def by (metis image_eqI keys_order_by_limit list.set_map)
  ultimately show ?thesis by (rule sorted_take_le [OF sorted_sort])
qed

end
