(* ===== verification/Sql_Tasks.thy ===== *)
theory Sql_Tasks
  imports Sql_Workflows Claiming
begin

text \<open>
  The statements on \<open>floww_workflow_tasks\<close> that \<open>storage/postgres/workflow_tasks.go\<close>
  sends: the insert that copies its configuration from the workflow, the fetch that
  claims a batch, and the three updates of a task's status.
\<close>

lemma valid_update_tasks:
  assumes "valid_db d"
    and keys: "\<And>r. t_id (f r) = t_id r" "\<And>r. t_workflow_id (f r) = t_workflow_id r"
    and rows: "\<And>r. task_ok r \<Longrightarrow> p r \<Longrightarrow> task_ok (f r)"
  shows "valid_db (d\<lparr>tasks := update_where p f (tasks d)\<rparr>)"
  using assms(1)
  by (auto simp: valid_db_def keys_ok_def refs_ok_def map_update_where_same keys
      intro!: list_all_update_where rows)

lemma task_ok_touch [simp]: "task_ok (t_set_updated_at n f r) = task_ok (f r)"
  by (simp add: task_ok_def)

section \<open>Insert\<close>

definition new_task :: "instant \<Rightarrow> uuid \<Rightarrow> workflow_row \<Rightarrow> instant \<Rightarrow> task_row" where
  "new_task now i w scheduled =
     \<lparr>t_id = i, t_workflow_id = w_id w, t_name = w_name w, t_status = TaskPending,
      t_priority = w_priority w, t_stuck_timeout_millis = w_stuck_timeout_millis w,
      t_scheduled_at = scheduled, t_run_at = None, t_stuck_at = None, t_completed_at = None,
      t_created_at = now, t_updated_at = now\<rparr>"

text \<open>
  \<open>INSERT .. SELECT .. FROM floww_workflows WHERE w.id = $2 ON CONFLICT (id) DO NOTHING\<close>:
  no workflow, or a task with that id already, and nothing is inserted.
\<close>

definition sql_insert_workflow_task :: "uuid \<Rightarrow> uuid \<Rightarrow> instant \<Rightarrow> (db, nat) stmt" where
  "sql_insert_workflow_task i workflow_id scheduled q d =
     (case find_workflow d workflow_id of
        None \<Rightarrow> Inr (0, d)
      | Some w \<Rightarrow>
          if i \<in> t_id ` set (tasks d) then Inr (0, d)
          else Inr (1, d\<lparr>tasks := tasks d @ [new_task (q_now q) i w scheduled]\<rparr>))"

section \<open>Fetch\<close>

definition task_candidate :: "task_row \<Rightarrow> candidate" where
  "task_candidate t = (t_id t, t_priority t, t_scheduled_at t)"

definition task_pending :: "(string \<Rightarrow> bool) \<Rightarrow> instant \<Rightarrow> task_row \<Rightarrow> bool" where
  "task_pending named now t \<longleftrightarrow> named (t_name t) \<and> t_status t = TaskPending \<and> t_scheduled_at t \<le> now"

definition task_stuck :: "(string \<Rightarrow> bool) \<Rightarrow> instant \<Rightarrow> task_row \<Rightarrow> bool" where
  "task_stuck named now t \<longleftrightarrow> named (t_name t) \<and> t_status t = TaskRunning \<and>
     (case t_stuck_at t of None \<Rightarrow> False | Some s \<Rightarrow> s \<le> now)"

definition select_tasks :: "(string \<Rightarrow> bool) \<Rightarrow> nat \<Rightarrow> snap \<Rightarrow> db \<Rightarrow> uuid list" where
  "select_tasks named n q d = map fst (candidates q n
     (map task_candidate (filter (task_pending named (q_now q)) (tasks d)))
     (map task_candidate (filter (task_stuck named (q_now q)) (tasks d))))"

text \<open>A stuck timeout is in milliseconds, an instant in nanoseconds.\<close>

definition claim_task :: "instant \<Rightarrow> task_row \<Rightarrow> task_row" where
  "claim_task now = t_set_updated_at now (\<lambda>t. t\<lparr>t_status := TaskRunning, t_run_at := Some now,
     t_stuck_at := Some (now + t_stuck_timeout_millis t * 1000000)\<rparr>)"

definition claim_tasks :: "uuid list \<Rightarrow> snap \<Rightarrow> db \<Rightarrow> db" where
  "claim_tasks ids q d = d\<lparr>tasks := update_where (\<lambda>t. t_id t \<in> set ids) (claim_task (q_now q)) (tasks d)\<rparr>"

text \<open>
  The rows of \<open>updated_tasks\<close> joined with their workflows; the order of the join's rows is
  open.
\<close>

definition claimed_tasks :: "uuid list \<Rightarrow> snap \<Rightarrow> db \<Rightarrow> (task_row \<times> workflow_row) list" where
  "claimed_tasks ids q d =
     concat (map (\<lambda>t. case find_workflow d (t_workflow_id t) of None \<Rightarrow> [] | Some w \<Rightarrow> [(t, w)])
       (sort_key (\<lambda>t. q_rank q 3 (t_id t)) (filter (\<lambda>t. t_id t \<in> set ids) (tasks d))))"

definition fetch_tasks :: "(string \<Rightarrow> bool) \<Rightarrow> nat \<Rightarrow> (db, (task_row \<times> workflow_row) list) stmt" where
  "fetch_tasks named n q d =
     (if max_int8 < int n then Inl NumericValueOutOfRange
      else let ids = select_tasks named n q d; d' = claim_tasks ids q d
           in Inr (claimed_tasks ids q d', d'))"

text \<open>\<open>_fetchWorkflowTasksSQL\<close> and \<open>_fetchWorkflowTasksWithNamesSQL\<close>.\<close>

definition sql_fetch_workflow_tasks :: "nat \<Rightarrow> (db, (task_row \<times> workflow_row) list) stmt" where
  "sql_fetch_workflow_tasks = fetch_tasks (\<lambda>_. True)"

definition sql_fetch_workflow_tasks_with_names ::
    "string list \<Rightarrow> nat \<Rightarrow> (db, (task_row \<times> workflow_row) list) stmt" where
  "sql_fetch_workflow_tasks_with_names names = fetch_tasks (\<lambda>name. name \<in> set names)"

section \<open>Updates\<close>

definition sql_complete_workflow_task :: "uuid \<Rightarrow> (db, nat) stmt" where
  "sql_complete_workflow_task i q d =
     Inr (count_where (\<lambda>t. t_id t = i) (tasks d),
       d\<lparr>tasks := update_where (\<lambda>t. t_id t = i)
         (t_set_updated_at (q_now q) (\<lambda>t. t\<lparr>t_status := TaskCompleted,
            t_completed_at := Some (q_now q)\<rparr>)) (tasks d)\<rparr>)"

definition sql_reschedule_workflow_task :: "uuid \<Rightarrow> instant \<Rightarrow> (db, nat) stmt" where
  "sql_reschedule_workflow_task i scheduled q d =
     Inr (count_where (\<lambda>t. t_id t = i) (tasks d),
       d\<lparr>tasks := update_where (\<lambda>t. t_id t = i)
         (t_set_updated_at (q_now q) (\<lambda>t. t\<lparr>t_status := TaskPending,
            t_scheduled_at := scheduled\<rparr>)) (tasks d)\<rparr>)"

definition sql_fail_workflow_task :: "uuid \<Rightarrow> (db, nat) stmt" where
  "sql_fail_workflow_task i q d =
     Inr (count_where (\<lambda>t. t_id t = i) (tasks d),
       d\<lparr>tasks := update_where (\<lambda>t. t_id t = i)
         (t_set_updated_at (q_now q) (\<lambda>t. t\<lparr>t_status := TaskFailed,
            t_completed_at := Some (q_now q)\<rparr>)) (tasks d)\<rparr>)"

lemmas sql_task_defs [stmt_defs] =
  sql_insert_workflow_task_def sql_fetch_workflow_tasks_def sql_fetch_workflow_tasks_with_names_def
  fetch_tasks_def sql_complete_workflow_task_def sql_reschedule_workflow_task_def
  sql_fail_workflow_task_def

section \<open>What a fetch does\<close>

lemma claim_task_simps [simp]:
  "t_id (claim_task now t) = t_id t"
  "t_workflow_id (claim_task now t) = t_workflow_id t"
  "t_name (claim_task now t) = t_name t"
  "t_priority (claim_task now t) = t_priority t"
  "t_scheduled_at (claim_task now t) = t_scheduled_at t"
  "t_status (claim_task now t) = TaskRunning"
  "t_run_at (claim_task now t) = Some now"
  "t_stuck_at (claim_task now t) = Some (now + t_stuck_timeout_millis t * 1000000)"
  "t_stuck_timeout_millis (claim_task now t) = t_stuck_timeout_millis t"
  by (simp_all add: claim_task_def)

lemma claim_tasks_simps [simp]:
  "workflows (claim_tasks ids q d) = workflows d"
  "activities (claim_tasks ids q d) = activities d"
  "signals (claim_tasks ids q d) = signals d"
  "find_workflow (claim_tasks ids q d) i = find_workflow d i"
  "map t_id (tasks (claim_tasks ids q d)) = map t_id (tasks d)"
  by (simp_all add: claim_tasks_def find_workflow_def map_update_where_same)

text \<open>No row is in both branches, so the batch has no id twice.\<close>

lemma task_branches: "task_pending named now t \<Longrightarrow> \<not> task_stuck named now t"
  by (simp add: task_pending_def task_stuck_def)

lemma map_fst_task_candidate [simp]: "map fst (map task_candidate ts) = map t_id ts"
  by (simp add: task_candidate_def)

lemma select_tasks_distinct:
  assumes "keys_ok d"
  shows "distinct (select_tasks named n q d)"
proof -
  have "distinct (map t_id (filter (task_pending named (q_now q)) (tasks d) @ filter (task_stuck named (q_now q)) (tasks d)))"
    using assms by (intro distinct_branches) (auto simp: keys_ok_def task_branches)
  then have "distinct (map fst (map task_candidate (filter (task_pending named (q_now q)) (tasks d)) @
      map task_candidate (filter (task_stuck named (q_now q)) (tasks d))))"
    by (simp only: map_append map_fst_task_candidate)
  then show ?thesis unfolding select_tasks_def by (rule distinct_candidates)
qed

lemma select_tasks_length: "length (select_tasks named n q d) \<le> n"
  by (simp add: select_tasks_def length_candidates)

lemma select_tasks_eligible:
  assumes "i \<in> set (select_tasks named n q d)"
  shows "\<exists>t \<in> set (tasks d). t_id t = i \<and> (task_pending named (q_now q) t \<or> task_stuck named (q_now q) t)"
  using assms set_candidates unfolding select_tasks_def by (fastforce simp: task_candidate_def)

lemma claimed_tasks_eq:
  assumes "refs_ok d"
  shows "claimed_tasks ids q d =
    map (\<lambda>t. (t, the (find_workflow d (t_workflow_id t))))
      (sort_key (\<lambda>t. q_rank q 3 (t_id t)) (filter (\<lambda>t. t_id t \<in> set ids) (tasks d)))"
proof -
  have "(case find_workflow d (t_workflow_id t) of None \<Rightarrow> [] | Some w \<Rightarrow> [(t, w)]) =
      [(t, the (find_workflow d (t_workflow_id t)))]" if "t \<in> set (tasks d)" for t
  proof -
    have "find_workflow d (t_workflow_id t) \<noteq> None"
      using assms that by (auto simp: refs_ok_def find_workflow_None)
    then show ?thesis by auto
  qed
  then have "concat (map (\<lambda>t. case find_workflow d (t_workflow_id t) of None \<Rightarrow> [] | Some w \<Rightarrow> [(t, w)]) ts) =
      map (\<lambda>t. (t, the (find_workflow d (t_workflow_id t)))) ts" if "set ts \<subseteq> set (tasks d)" for ts
    using that by (induction ts) auto
  then show ?thesis
    unfolding claimed_tasks_def by (simp add: filter_is_subset)
qed

lemma refs_ok_claim_tasks [simp]: "refs_ok (claim_tasks ids q d) = refs_ok d"
proof -
  have "t_workflow_id ` set (tasks (claim_tasks ids q d)) = t_workflow_id ` set (tasks d)"
    unfolding set_map [symmetric] claim_tasks_def by (simp add: map_update_where_same del: set_map)
  moreover have "wf_ids (claim_tasks ids q d) = wf_ids d" by (simp add: claim_tasks_def)
  ultimately show ?thesis by (simp add: refs_ok_def)
qed

lemma fetch_tasks_ok:
  "fetch_tasks named n q d = Inr (rows, d') \<longleftrightarrow>
     int n \<le> max_int8 \<and> d' = claim_tasks (select_tasks named n q d) q d \<and>
     rows = claimed_tasks (select_tasks named n q d) q d'"
  by (auto simp: fetch_tasks_def Let_def)

text \<open>The rows a fetch returns: claimed rows of the selected ids, each with its workflow.\<close>

lemma fetch_tasks_rows:
  assumes v: "valid_db d" and run: "fetch_tasks named n q d = Inr (rows, d')" and r: "(t, w) \<in> set rows"
  shows "t_id t \<in> set (select_tasks named n q d)" "t \<in> set (tasks d')" "t_status t = TaskRunning"
    "t_stuck_at t = Some (q_now q + t_stuck_timeout_millis t * 1000000)"
    "find_workflow d (t_workflow_id t) = Some w"
proof -
  let ?ids = "select_tasks named n q d"
  from run have d': "d' = claim_tasks ?ids q d" and rows: "rows = claimed_tasks ?ids q d'"
    by (simp_all add: fetch_tasks_ok)
  have refs: "refs_ok d'" using v d' by (simp add: valid_db_def)
  from r have t: "t \<in> set (tasks d')" "t_id t \<in> set ?ids"
      and w: "w = the (find_workflow d' (t_workflow_id t))"
    by (auto simp: rows claimed_tasks_eq [OF refs])
  have "find_workflow d' (t_workflow_id t) \<noteq> None"
    using refs t(1) by (auto simp: refs_ok_def find_workflow_None)
  with w d' show "find_workflow d (t_workflow_id t) = Some w" by auto
  from t d' obtain t0 where "t = claim_task (q_now q) t0"
    by (auto simp: claim_tasks_def)
  then show "t_status t = TaskRunning" "t_stuck_at t = Some (q_now q + t_stuck_timeout_millis t * 1000000)"
    by simp_all
qed (use assms in \<open>auto simp: fetch_tasks_ok claimed_tasks_def split: option.splits\<close>)

lemma fetch_tasks_length:
  assumes v: "valid_db d" and run: "fetch_tasks named n q d = Inr (rows, d')"
  shows "length rows \<le> n"
proof -
  let ?ids = "select_tasks named n q d"
  from run have d': "d' = claim_tasks ?ids q d" and rows: "rows = claimed_tasks ?ids q d'"
    by (simp_all add: fetch_tasks_ok)
  have "refs_ok d'" "distinct (map t_id (tasks d'))"
    using v d' by (simp_all add: valid_db_def keys_ok_def)
  then have "length rows \<le> length ?ids"
    by (simp add: rows claimed_tasks_eq length_filter_ids_le)
  then show ?thesis using select_tasks_length [of named n q d] by simp
qed

section \<open>Integrity\<close>

lemma sql_insert_workflow_task_ok:
  assumes "sql_insert_workflow_task i wid at q d = Inr (k, d')"
  obtains (no_workflow) "wid \<notin> wf_ids d" "d' = d"
  | (duplicate) "i \<in> t_id ` set (tasks d)" "d' = d"
  | (inserted) w where "find_workflow d wid = Some w" "i \<notin> t_id ` set (tasks d)"
      "d' = d\<lparr>tasks := tasks d @ [new_task (q_now q) i w at]\<rparr>"
proof (cases "find_workflow d wid")
  case None
  with assms show ?thesis
    by (intro no_workflow) (simp_all add: sql_insert_workflow_task_def find_workflow_None [symmetric])
next
  case (Some w)
  show ?thesis
  proof (cases "i \<in> t_id ` set (tasks d)")
    case True
    with Some assms show ?thesis by (intro duplicate) (simp_all add: sql_insert_workflow_task_def)
  next
    case False
    with Some assms show ?thesis by (intro inserted) (auto simp: sql_insert_workflow_task_def)
  qed
qed

lemma sql_insert_workflow_task_valid:
  assumes v: "valid_db d" and run: "sql_insert_workflow_task i wid at q d = Inr (k, d')"
  shows "valid_db d'"
  using run
proof (cases rule: sql_insert_workflow_task_ok)
  case (inserted w)
  then have w: "w \<in> set (workflows d)" by (blast dest: find_workflow_Some)
  then have "in_int4 (w_priority w)" "w_id w \<in> wf_ids d"
    using valid_dbD(3) [OF v] by (simp_all add: list_all_iff workflow_ok_def wf_ids_def)
  with v inserted show ?thesis
    by (simp add: valid_db_def keys_ok_def refs_ok_def new_task_def task_ok_def)
qed (use v in simp_all)

lemma claim_tasks_valid: "valid_db d \<Longrightarrow> valid_db (claim_tasks ids q d)"
  unfolding claim_tasks_def by (rule valid_update_tasks) (auto simp: claim_task_def task_ok_def)

lemma fetch_tasks_valid: "valid_db d \<Longrightarrow> fetch_tasks named n q d = Inr (rows, d') \<Longrightarrow> valid_db d'"
  by (simp add: fetch_tasks_ok claim_tasks_valid)

lemma sql_complete_workflow_task_valid:
  "valid_db d \<Longrightarrow> sql_complete_workflow_task i q d = Inr (n, d') \<Longrightarrow> valid_db d'"
  by (auto simp: sql_complete_workflow_task_def task_ok_def intro!: valid_update_tasks)

lemma sql_reschedule_workflow_task_valid:
  "valid_db d \<Longrightarrow> sql_reschedule_workflow_task i at q d = Inr (n, d') \<Longrightarrow> valid_db d'"
  by (auto simp: sql_reschedule_workflow_task_def task_ok_def intro!: valid_update_tasks)

lemma sql_fail_workflow_task_valid:
  "valid_db d \<Longrightarrow> sql_fail_workflow_task i q d = Inr (n, d') \<Longrightarrow> valid_db d'"
  by (auto simp: sql_fail_workflow_task_def task_ok_def intro!: valid_update_tasks)

end
