(* ===== verification/Sql_Activities.thy ===== *)
theory Sql_Activities
  imports Sql_Tasks
begin

text \<open>
  The statements on \<open>floww_activities\<close> that \<open>storage/postgres/activities.go\<close> and the
  history query of \<open>workflows.go\<close> send, and the statements on \<open>floww_signals\<close> of
  \<open>signals.go\<close>.
\<close>

lemma valid_update_activities:
  assumes "valid_db d"
    and keys: "\<And>r. a_id (f r) = a_id r" "\<And>r. a_workflow_id (f r) = a_workflow_id r"
      "\<And>r. a_idempotency_key (f r) = a_idempotency_key r"
    and rows: "\<And>r. r \<in> set (activities d) \<Longrightarrow> activity_ok r \<Longrightarrow> p r \<Longrightarrow> activity_ok (f r)"
  shows "valid_db (d\<lparr>activities := update_where p f (activities d)\<rparr>)"
  using assms(1)
  by (auto simp: valid_db_def keys_ok_def refs_ok_def map_update_where_same keys
      intro!: list_all_update_where rows)

lemma activity_ok_touch [simp]: "activity_ok (a_set_updated_at n f r) = activity_ok (f r)"
  by (simp add: activity_ok_def)

section \<open>Insert\<close>

definition new_activity :: "instant \<Rightarrow> uuid \<Rightarrow> uuid \<Rightarrow> uuid \<Rightarrow> string \<Rightarrow> bytes option \<Rightarrow> int \<Rightarrow> int \<Rightarrow> int \<Rightarrow> instant \<Rightarrow> activity_row" where
  "new_activity now i key workflow_id name input priority max_attempts millis scheduled =
     \<lparr>a_id = i, a_idempotency_key = key, a_workflow_id = workflow_id, a_name = name,
      a_status = ActivityPending, a_input = input, a_output = None, a_priority = priority,
      a_attempts = 0, a_max_attempts = max_attempts, a_stuck_timeout_millis = millis,
      a_scheduled_at = scheduled, a_run_at = None, a_stuck_at = None, a_completed_at = None,
      a_error_message = None, a_created_at = now, a_updated_at = now\<rparr>"

text \<open>
  \<open>INSERT .. ON CONFLICT (idempotency_key) DO NOTHING\<close>. A row that is inserted must refer
  to a workflow.
\<close>

definition sql_insert_activity ::
    "uuid \<Rightarrow> uuid \<Rightarrow> uuid \<Rightarrow> string \<Rightarrow> bytes option \<Rightarrow> int \<Rightarrow> int \<Rightarrow> int \<Rightarrow> instant \<Rightarrow> (db, nat) stmt" where
  "sql_insert_activity i key workflow_id name input priority max_attempts millis scheduled q d =
     (if \<not> in_int4 priority \<or> \<not> in_int4 max_attempts then Inl NumericValueOutOfRange
      else if key \<in> a_idempotency_key ` set (activities d) then Inr (0, d)
      else if i \<in> a_id ` set (activities d) then Inl (UniqueViolation ''floww_activities_pkey'')
      else if workflow_id \<notin> wf_ids d then Inl (ForeignKeyViolation ''floww_activities_workflow_id_fkey'')
      else Inr (1, d\<lparr>activities := activities d @
        [new_activity (q_now q) i key workflow_id name input priority max_attempts millis scheduled]\<rparr>))"

section \<open>Fetch\<close>

definition activity_candidate :: "activity_row \<Rightarrow> candidate" where
  "activity_candidate a = (a_id a, a_priority a, a_scheduled_at a)"

definition activity_pending :: "(string \<Rightarrow> bool) \<Rightarrow> instant \<Rightarrow> activity_row \<Rightarrow> bool" where
  "activity_pending named now a \<longleftrightarrow> named (a_name a) \<and> a_status a = ActivityPending \<and> a_scheduled_at a \<le> now"

definition activity_stuck :: "(string \<Rightarrow> bool) \<Rightarrow> instant \<Rightarrow> activity_row \<Rightarrow> bool" where
  "activity_stuck named now a \<longleftrightarrow> named (a_name a) \<and> a_status a = ActivityRunning \<and>
     (case a_stuck_at a of None \<Rightarrow> False | Some s \<Rightarrow> s \<le> now)"

definition select_activities :: "(string \<Rightarrow> bool) \<Rightarrow> nat \<Rightarrow> snap \<Rightarrow> db \<Rightarrow> uuid list" where
  "select_activities named n q d = map fst (candidates q n
     (map activity_candidate (filter (activity_pending named (q_now q)) (activities d)))
     (map activity_candidate (filter (activity_stuck named (q_now q)) (activities d))))"

definition claim_activity :: "instant \<Rightarrow> activity_row \<Rightarrow> activity_row" where
  "claim_activity now = a_set_updated_at now (\<lambda>a. a\<lparr>a_status := ActivityRunning,
     a_attempts := a_attempts a + 1, a_run_at := Some now,
     a_stuck_at := Some (now + a_stuck_timeout_millis a * 1000000)\<rparr>)"

definition claim_activities :: "uuid list \<Rightarrow> (db, activity_row list) stmt" where
  "claim_activities ids q d =
     (if \<exists>a \<in> set (activities d). a_id a \<in> set ids \<and> \<not> in_int4 (a_attempts a + 1)
      then Inl NumericValueOutOfRange
      else let d' = d\<lparr>activities := update_where (\<lambda>a. a_id a \<in> set ids) (claim_activity (q_now q)) (activities d)\<rparr>
           in Inr (sort_key (\<lambda>a. q_rank q 3 (a_id a)) (filter (\<lambda>a. a_id a \<in> set ids) (activities d')), d'))"

definition fetch_activities :: "(string \<Rightarrow> bool) \<Rightarrow> nat \<Rightarrow> (db, activity_row list) stmt" where
  "fetch_activities named n q d =
     (if max_int8 < int n then Inl NumericValueOutOfRange
      else claim_activities (select_activities named n q d) q d)"

text \<open>\<open>_fetchActivitiesSQL\<close> and \<open>_fetchActivitiesWithNamesSQL\<close>.\<close>

definition sql_fetch_activities :: "nat \<Rightarrow> (db, activity_row list) stmt" where
  "sql_fetch_activities = fetch_activities (\<lambda>_. True)"

definition sql_fetch_activities_with_names :: "string list \<Rightarrow> nat \<Rightarrow> (db, activity_row list) stmt" where
  "sql_fetch_activities_with_names names = fetch_activities (\<lambda>name. name \<in> set names)"

section \<open>Updates\<close>

definition sql_complete_activity :: "uuid \<Rightarrow> bytes option \<Rightarrow> (db, nat) stmt" where
  "sql_complete_activity i output q d =
     Inr (count_where (\<lambda>a. a_id a = i) (activities d),
       d\<lparr>activities := update_where (\<lambda>a. a_id a = i)
         (a_set_updated_at (q_now q) (\<lambda>a. a\<lparr>a_status := ActivityCompleted, a_output := output,
            a_completed_at := Some (q_now q), a_error_message := None\<rparr>)) (activities d)\<rparr>)"

definition sql_reschedule_activity :: "uuid \<Rightarrow> instant \<Rightarrow> string \<Rightarrow> (db, nat) stmt" where
  "sql_reschedule_activity i scheduled msg q d =
     Inr (count_where (\<lambda>a. a_id a = i) (activities d),
       d\<lparr>activities := update_where (\<lambda>a. a_id a = i)
         (a_set_updated_at (q_now q) (\<lambda>a. a\<lparr>a_status := ActivityPending,
            a_scheduled_at := scheduled, a_error_message := Some msg\<rparr>)) (activities d)\<rparr>)"

definition sql_fail_activity :: "uuid \<Rightarrow> string \<Rightarrow> (db, nat) stmt" where
  "sql_fail_activity i msg q d =
     Inr (count_where (\<lambda>a. a_id a = i) (activities d),
       d\<lparr>activities := update_where (\<lambda>a. a_id a = i)
         (a_set_updated_at (q_now q) (\<lambda>a. a\<lparr>a_status := ActivityFailed,
            a_error_message := Some msg, a_completed_at := Some (q_now q)\<rparr>)) (activities d)\<rparr>)"

text \<open>
  \<open>SELECT idempotency_key, output .. WHERE workflow_id = $1 AND status = 'completed'
  ORDER BY id\<close>; ids are compared as unsigned 128-bit numbers.
\<close>

definition sql_list_history :: "uuid \<Rightarrow> (db, (uuid \<times> bytes option) list) stmt" where
  "sql_list_history workflow_id q d =
     Inr (map (\<lambda>a. (a_idempotency_key a, a_output a))
       (sort_key a_id (filter (\<lambda>a. a_workflow_id a = workflow_id \<and> a_status a = ActivityCompleted) (activities d))), d)"

section \<open>Signals\<close>

definition new_signal :: "instant \<Rightarrow> uuid \<Rightarrow> uuid \<Rightarrow> uuid \<Rightarrow> string \<Rightarrow> bytes option \<Rightarrow> signal_row" where
  "new_signal now i key workflow_id name input =
     \<lparr>s_id = i, s_idempotency_key = key, s_workflow_id = workflow_id, s_name = name,
      s_input = input, s_created_at = now\<rparr>"

text \<open>A plain INSERT: a second signal with the same idempotency key is an error.\<close>

definition sql_insert_signal :: "uuid \<Rightarrow> uuid \<Rightarrow> uuid \<Rightarrow> string \<Rightarrow> bytes option \<Rightarrow> (db, nat) stmt" where
  "sql_insert_signal i key workflow_id name input q d =
     (if i \<in> s_id ` set (signals d) then Inl (UniqueViolation ''floww_signals_pkey'')
      else if key \<in> s_idempotency_key ` set (signals d)
      then Inl (UniqueViolation ''chk__floww_signals__unique_idempotency_key'')
      else if workflow_id \<notin> wf_ids d then Inl (ForeignKeyViolation ''floww_signals_workflow_id_fkey'')
      else Inr (1, d\<lparr>signals := signals d @ [new_signal (q_now q) i key workflow_id name input]\<rparr>))"

definition sql_list_signals :: "uuid \<Rightarrow> (db, (uuid \<times> bytes option) list) stmt" where
  "sql_list_signals workflow_id q d =
     Inr (map (\<lambda>s. (s_idempotency_key s, s_input s))
       (sort_key s_id (filter (\<lambda>s. s_workflow_id s = workflow_id) (signals d))), d)"

lemmas sql_activity_defs [stmt_defs] =
  sql_insert_activity_def sql_fetch_activities_def sql_fetch_activities_with_names_def
  fetch_activities_def claim_activities_def sql_complete_activity_def sql_reschedule_activity_def
  sql_fail_activity_def sql_list_history_def sql_insert_signal_def sql_list_signals_def

section \<open>What a fetch does\<close>

lemma claim_activity_simps [simp]:
  "a_id (claim_activity now a) = a_id a"
  "a_idempotency_key (claim_activity now a) = a_idempotency_key a"
  "a_workflow_id (claim_activity now a) = a_workflow_id a"
  "a_name (claim_activity now a) = a_name a"
  "a_priority (claim_activity now a) = a_priority a"
  "a_scheduled_at (claim_activity now a) = a_scheduled_at a"
  "a_status (claim_activity now a) = ActivityRunning"
  "a_attempts (claim_activity now a) = a_attempts a + 1"
  "a_max_attempts (claim_activity now a) = a_max_attempts a"
  "a_stuck_timeout_millis (claim_activity now a) = a_stuck_timeout_millis a"
  "a_input (claim_activity now a) = a_input a"
  "a_stuck_at (claim_activity now a) = Some (now + a_stuck_timeout_millis a * 1000000)"
  by (simp_all add: claim_activity_def)

lemma activity_branches: "activity_pending named now a \<Longrightarrow> \<not> activity_stuck named now a"
  by (simp add: activity_pending_def activity_stuck_def)

lemma map_fst_activity_candidate [simp]: "map fst (map activity_candidate as) = map a_id as"
  by (simp add: activity_candidate_def)

lemma select_activities_distinct:
  assumes "keys_ok d"
  shows "distinct (select_activities named n q d)"
proof -
  have "distinct (map a_id (filter (activity_pending named (q_now q)) (activities d) @
      filter (activity_stuck named (q_now q)) (activities d)))"
    using assms by (intro distinct_branches) (auto simp: keys_ok_def activity_branches)
  then have "distinct (map fst (map activity_candidate (filter (activity_pending named (q_now q)) (activities d)) @
      map activity_candidate (filter (activity_stuck named (q_now q)) (activities d))))"
    by (simp only: map_append map_fst_activity_candidate)
  then show ?thesis unfolding select_activities_def by (rule distinct_candidates)
qed

lemma select_activities_length: "length (select_activities named n q d) \<le> n"
  by (simp add: select_activities_def length_candidates)

lemma select_activities_eligible:
  assumes "i \<in> set (select_activities named n q d)"
  shows "\<exists>a \<in> set (activities d). a_id a = i \<and>
    (activity_pending named (q_now q) a \<or> activity_stuck named (q_now q) a)"
  using assms set_candidates unfolding select_activities_def by (fastforce simp: activity_candidate_def)

lemma claim_activities_ok:
  "claim_activities ids q d = Inr (rows, d') \<longleftrightarrow>
     (\<forall>a \<in> set (activities d). a_id a \<in> set ids \<longrightarrow> in_int4 (a_attempts a + 1)) \<and>
     d' = d\<lparr>activities := update_where (\<lambda>a. a_id a \<in> set ids) (claim_activity (q_now q)) (activities d)\<rparr> \<and>
     rows = sort_key (\<lambda>a. q_rank q 3 (a_id a)) (filter (\<lambda>a. a_id a \<in> set ids) (activities d'))"
  by (auto simp: claim_activities_def Let_def)

lemma fetch_activities_ok:
  "fetch_activities named n q d = Inr (rows, d') \<longleftrightarrow>
     int n \<le> max_int8 \<and> claim_activities (select_activities named n q d) q d = Inr (rows, d')"
  by (auto simp: fetch_activities_def)

lemma fetch_activities_length:
  assumes v: "valid_db d" and run: "fetch_activities named n q d = Inr (rows, d')"
  shows "length rows \<le> n"
proof -
  let ?ids = "select_activities named n q d"
  from run have claim: "claim_activities ?ids q d = Inr (rows, d')" by (simp add: fetch_activities_ok)
  then have "distinct (map a_id (activities d'))"
    using v by (auto simp: claim_activities_ok valid_db_def keys_ok_def map_update_where_same)
  then have "length rows \<le> length ?ids"
    using claim by (simp add: claim_activities_ok length_filter_ids_le)
  then show ?thesis using select_activities_length [of named n q d] by simp
qed

section \<open>Integrity\<close>

lemma sql_insert_activity_ok:
  assumes "sql_insert_activity i key wid name input prio maxa millis at q d = Inr (k, d')"
  obtains (duplicate) "key \<in> a_idempotency_key ` set (activities d)" "d' = d"
  | (inserted) "key \<notin> a_idempotency_key ` set (activities d)" "i \<notin> a_id ` set (activities d)"
      "wid \<in> wf_ids d" "in_int4 prio" "in_int4 maxa"
      "d' = d\<lparr>activities := activities d @ [new_activity (q_now q) i key wid name input prio maxa millis at]\<rparr>"
proof (cases "key \<in> a_idempotency_key ` set (activities d)")
  case True
  with assms show ?thesis by (intro duplicate) (simp_all add: sql_insert_activity_def split: if_splits)
next
  case False
  with assms have "i \<notin> a_id ` set (activities d) \<and> wid \<in> wf_ids d \<and> in_int4 prio \<and> in_int4 maxa \<and>
      d' = d\<lparr>activities := activities d @ [new_activity (q_now q) i key wid name input prio maxa millis at]\<rparr>"
    by (simp add: sql_insert_activity_def split: if_splits)
  with False show ?thesis by (intro inserted) simp_all
qed

lemma sql_insert_activity_valid:
  assumes v: "valid_db d" and maxa: "0 \<le> maxa"
    and run: "sql_insert_activity i key wid name input prio maxa millis at q d = Inr (k, d')"
  shows "valid_db d'"
  using run
proof (cases rule: sql_insert_activity_ok)
  case inserted
  with v maxa show ?thesis
    by (simp add: valid_db_def keys_ok_def refs_ok_def new_activity_def activity_ok_def
        in_int4_def max_int4_def)
qed (use v in simp)

lemma claim_activities_valid:
  assumes v: "valid_db d" and run: "claim_activities ids q d = Inr (rows, d')"
  shows "valid_db d'"
proof -
  from run have fits: "\<forall>a \<in> set (activities d). a_id a \<in> set ids \<longrightarrow> in_int4 (a_attempts a + 1)"
    and d': "d' = d\<lparr>activities := update_where (\<lambda>a. a_id a \<in> set ids) (claim_activity (q_now q)) (activities d)\<rparr>"
    by (simp_all add: claim_activities_ok)
  show ?thesis
    unfolding d' using v
    by (rule valid_update_activities)
      (use fits in \<open>auto simp: claim_activity_def activity_ok_def in_int4_def\<close>)
qed

lemma fetch_activities_valid: "valid_db d \<Longrightarrow> fetch_activities named n q d = Inr (rows, d') \<Longrightarrow> valid_db d'"
  by (auto simp: fetch_activities_ok intro: claim_activities_valid)

lemma sql_complete_activity_valid:
  "valid_db d \<Longrightarrow> sql_complete_activity i output q d = Inr (n, d') \<Longrightarrow> valid_db d'"
  by (auto simp: sql_complete_activity_def activity_ok_def intro!: valid_update_activities)

lemma sql_reschedule_activity_valid:
  "valid_db d \<Longrightarrow> sql_reschedule_activity i at msg q d = Inr (n, d') \<Longrightarrow> valid_db d'"
  by (auto simp: sql_reschedule_activity_def activity_ok_def intro!: valid_update_activities)

lemma sql_fail_activity_valid:
  "valid_db d \<Longrightarrow> sql_fail_activity i msg q d = Inr (n, d') \<Longrightarrow> valid_db d'"
  by (auto simp: sql_fail_activity_def activity_ok_def intro!: valid_update_activities)

lemma sql_insert_signal_ok:
  "sql_insert_signal i key wid name input q d = Inr (k, d') \<longleftrightarrow>
     k = 1 \<and> i \<notin> s_id ` set (signals d) \<and> key \<notin> s_idempotency_key ` set (signals d) \<and> wid \<in> wf_ids d \<and>
     d' = d\<lparr>signals := signals d @ [new_signal (q_now q) i key wid name input]\<rparr>"
  by (auto simp: sql_insert_signal_def)

lemma sql_insert_signal_valid:
  "valid_db d \<Longrightarrow> sql_insert_signal i key wid name input q d = Inr (k, d') \<Longrightarrow> valid_db d'"
  by (simp add: sql_insert_signal_ok valid_db_def keys_ok_def refs_ok_def new_signal_def)

lemma list_history_same: "sql_list_history wid q d = Inr (r, d') \<Longrightarrow> d' = d"
  and list_signals_same: "sql_list_signals wid q d = Inr (r, d') \<Longrightarrow> d' = d"
  by (simp_all add: sql_list_history_def sql_list_signals_def)

end
