(* ===== verification/Options.thy ===== *)
theory Options
  imports Effects
begin

text \<open>
  Names, idempotency keys and options: the option structs of \<open>activity.go\<close>,
  \<open>workflow.go\<close> and \<open>signal.go\<close> with their defaults, getters and functional options, the
  keys derived from a name and a workflow id, and the worker configuration of
  \<open>worker_config.go\<close>. A Go option is a function on the option struct.
\<close>

definition apply_opts :: "('o \<Rightarrow> 'o) list \<Rightarrow> 'o \<Rightarrow> 'o" where
  "apply_opts opts options = foldl (\<lambda>o' opt. opt o') options opts"

lemma apply_opts_simps [simp]:
  "apply_opts [] o' = o'"
  "apply_opts (opt # opts) o' = apply_opts opts (opt o')"
  "apply_opts (opts @ [opt]) o' = opt (apply_opts opts o')"
  by (simp_all add: apply_opts_def)

section \<open>Workflows, activities and signals\<close>

text \<open>
  The type parameters of the Go generics decide what a payload is decoded into; they are
  kept as fields.
\<close>

record workflow =
  wf_Name :: string
  wf_In :: gotype

record activity =
  act_Name :: string
  act_In :: gotype
  act_Out :: gotype

record signal =
  sig_Name :: string
  sig_In :: gotype

definition NewWorkflow :: "string \<Rightarrow> gotype \<Rightarrow> workflow" where
  "NewWorkflow name i = \<lparr>wf_Name = name, wf_In = i\<rparr>"

definition NewActivity :: "string \<Rightarrow> gotype \<Rightarrow> gotype \<Rightarrow> activity" where
  "NewActivity name i o' = \<lparr>act_Name = name, act_In = i, act_Out = o'\<rparr>"

definition NewSignal :: "string \<Rightarrow> gotype \<Rightarrow> signal" where
  "NewSignal name i = \<lparr>sig_Name = name, sig_In = i\<rparr>"

definition activity_IdempotencyKeyByString :: "('d, 'v) env \<Rightarrow> activity \<Rightarrow> uuid \<Rightarrow> string \<Rightarrow> uuid" where
  "activity_IdempotencyKeyByString env a workflowID str = env_new_sha1 env workflowID (act_Name a @ str)"

definition activity_IdempotencyKey :: "('d, 'v) env \<Rightarrow> activity \<Rightarrow> uuid \<Rightarrow> uuid" where
  "activity_IdempotencyKey env a workflowID = activity_IdempotencyKeyByString env a workflowID ''''"

definition signal_IdempotencyKeyByString :: "('d, 'v) env \<Rightarrow> signal \<Rightarrow> uuid \<Rightarrow> string \<Rightarrow> uuid" where
  "signal_IdempotencyKeyByString env s workflowID str = env_new_sha1 env workflowID (sig_Name s @ str)"

definition signal_IdempotencyKey :: "('d, 'v) env \<Rightarrow> signal \<Rightarrow> uuid \<Rightarrow> uuid" where
  "signal_IdempotencyKey env s workflowID = signal_IdempotencyKeyByString env s workflowID ''''"

section \<open>Activity options\<close>

record activity_options =
  ao_idempotencyKey :: uuid
  ao_priority :: "64 word"
  ao_maxAttempts :: uint
  ao_stuckTimeout :: duration
  ao_scheduledAt :: instant

definition defaultActivityOptionsFor :: "('d, 'v) env \<Rightarrow> uuid \<Rightarrow> ('d, activity_options) io" where
  "defaultActivityOptionsFor env idempotencyKey =
     bindE (time_Now env) (\<lambda>now. ret
       \<lparr>ao_idempotencyKey = idempotencyKey, ao_priority = 0, ao_maxAttempts = 1,
        ao_stuckTimeout = Minute * 5, ao_scheduledAt = now\<rparr>)"

definition ao_Priority :: "activity_options \<Rightarrow> 64 word" where
  "ao_Priority o' = ao_priority o'"

definition ao_MaxAttempts :: "activity_options \<Rightarrow> uint" where
  "ao_MaxAttempts o' = ao_maxAttempts o'"

definition ao_StuckTimeoutMillis :: "activity_options \<Rightarrow> 64 word" where
  "ao_StuckTimeoutMillis o' = int64_div (ao_stuckTimeout o') Millisecond"

definition ao_ScheduledAt :: "activity_options \<Rightarrow> instant" where
  "ao_ScheduledAt o' = ao_scheduledAt o'"

type_synonym activity_option = "activity_options \<Rightarrow> activity_options"

definition WithActivityIdempotencyKey :: "uuid \<Rightarrow> activity_option" where
  "WithActivityIdempotencyKey key o' = o'\<lparr>ao_idempotencyKey := key\<rparr>"

definition WithActivityPriority :: "64 word \<Rightarrow> activity_option" where
  "WithActivityPriority priority o' = o'\<lparr>ao_priority := priority\<rparr>"

definition WithActivityMaxAttempts :: "uint \<Rightarrow> activity_option" where
  "WithActivityMaxAttempts n o' = o'\<lparr>ao_maxAttempts := n\<rparr>"

definition WithActivityStuckTimeout :: "duration \<Rightarrow> activity_option" where
  "WithActivityStuckTimeout t o' = o'\<lparr>ao_stuckTimeout := t\<rparr>"

definition WithActivityScheduledAt :: "instant \<Rightarrow> activity_option" where
  "WithActivityScheduledAt t o' = o'\<lparr>ao_scheduledAt := t\<rparr>"

section \<open>Workflow options\<close>

record workflow_options =
  wo_priority :: "64 word"
  wo_maxAttempts :: uint
  wo_stuckTimeout :: duration
  wo_scheduledAt :: instant

definition defaultWorkflowOptions :: "('d, 'v) env \<Rightarrow> ('d, workflow_options) io" where
  "defaultWorkflowOptions env =
     bindE (time_Now env) (\<lambda>now. ret
       \<lparr>wo_priority = 0, wo_maxAttempts = 1, wo_stuckTimeout = Minute * 5, wo_scheduledAt = now\<rparr>)"

definition wo_Priority :: "workflow_options \<Rightarrow> 64 word" where
  "wo_Priority o' = wo_priority o'"

definition wo_MaxAttempts :: "workflow_options \<Rightarrow> uint" where
  "wo_MaxAttempts o' = wo_maxAttempts o'"

definition wo_StuckTimeoutMillis :: "workflow_options \<Rightarrow> 64 word" where
  "wo_StuckTimeoutMillis o' = int64_div (wo_stuckTimeout o') Millisecond"

definition wo_ScheduledAt :: "workflow_options \<Rightarrow> instant" where
  "wo_ScheduledAt o' = wo_scheduledAt o'"

type_synonym workflow_option = "workflow_options \<Rightarrow> workflow_options"

definition WithWorkflowPriority :: "64 word \<Rightarrow> workflow_option" where
  "WithWorkflowPriority priority o' = o'\<lparr>wo_priority := priority\<rparr>"

definition WithWorkflowMaxAttempts :: "uint \<Rightarrow> workflow_option" where
  "WithWorkflowMaxAttempts n o' = o'\<lparr>wo_maxAttempts := n\<rparr>"

definition WithWorkflowStuckTimeout :: "duration \<Rightarrow> workflow_option" where
  "WithWorkflowStuckTimeout t o' = o'\<lparr>wo_stuckTimeout := t\<rparr>"

definition WithWorkflowScheduledAt :: "instant \<Rightarrow> workflow_option" where
  "WithWorkflowScheduledAt t o' = o'\<lparr>wo_scheduledAt := t\<rparr>"

section \<open>Signal options\<close>

record signal_options =
  so_idempotencyKey :: uuid

definition defaultSignalOptionsFor :: "uuid \<Rightarrow> signal_options" where
  "defaultSignalOptionsFor idempotencyKey = \<lparr>so_idempotencyKey = idempotencyKey\<rparr>"

type_synonym signal_option = "signal_options \<Rightarrow> signal_options"

definition WithSignalIdempotencyKey :: "uuid \<Rightarrow> signal_option" where
  "WithSignalIdempotencyKey key o' = o'\<lparr>so_idempotencyKey := key\<rparr>"

lemmas option_defs =
  ao_Priority_def ao_MaxAttempts_def ao_StuckTimeoutMillis_def ao_ScheduledAt_def
  WithActivityIdempotencyKey_def WithActivityPriority_def WithActivityMaxAttempts_def
  WithActivityStuckTimeout_def WithActivityScheduledAt_def
  wo_Priority_def wo_MaxAttempts_def wo_StuckTimeoutMillis_def wo_ScheduledAt_def
  WithWorkflowPriority_def WithWorkflowMaxAttempts_def WithWorkflowStuckTimeout_def
  WithWorkflowScheduledAt_def defaultSignalOptionsFor_def WithSignalIdempotencyKey_def

section \<open>Worker configuration\<close>

record poll_config =
  BatchSize :: uint
  Concurrency :: "64 word"
  PollInterval :: duration

record processing_config =
  ProcDbTimeout :: duration
  DefaultBackoff :: duration

record cleanup_config =
  CleanDbTimeout :: duration
  RetentionInterval :: duration
  CleanupBatchSize :: uint

record worker_config =
  Poll :: poll_config
  Processing :: processing_config
  ColdCleanup :: cleanup_config
  DeadCleanup :: cleanup_config

type_synonym backoff_calculator = "uint \<Rightarrow> duration"

definition DefaultWorkflowWorkerConfig :: worker_config where
  "DefaultWorkflowWorkerConfig =
     \<lparr>Poll = \<lparr>BatchSize = 10, Concurrency = 10, PollInterval = Second\<rparr>,
      Processing = \<lparr>ProcDbTimeout = Second * 10, DefaultBackoff = Second * 30\<rparr>,
      ColdCleanup = \<lparr>CleanDbTimeout = Second * 30, RetentionInterval = Hour * 24 * 7, CleanupBatchSize = 10000\<rparr>,
      DeadCleanup = \<lparr>CleanDbTimeout = Second * 30, RetentionInterval = Hour * 24 * 90, CleanupBatchSize = 10000\<rparr>\<rparr>"

definition DefaultActivityWorkerConfig :: worker_config where
  "DefaultActivityWorkerConfig =
     \<lparr>Poll = \<lparr>BatchSize = 10, Concurrency = 10, PollInterval = Second\<rparr>,
      Processing = \<lparr>ProcDbTimeout = Second * 10, DefaultBackoff = Second * 30\<rparr>,
      ColdCleanup = \<lparr>CleanDbTimeout = Second * 30, RetentionInterval = Hour * 24 * 7, CleanupBatchSize = 10000\<rparr>,
      DeadCleanup = \<lparr>CleanDbTimeout = Second * 30, RetentionInterval = Hour * 24 * 90, CleanupBatchSize = 10000\<rparr>\<rparr>"

section \<open>Lemmas\<close>

text \<open>Only the concatenation of the name and the discriminator reaches the hash.\<close>

lemma activity_key_concat:
  "act_Name a @ s = act_Name b @ t \<Longrightarrow>
     activity_IdempotencyKeyByString env a i s = activity_IdempotencyKeyByString env b i t"
  by (simp add: activity_IdempotencyKeyByString_def)

lemma sint_Millisecond: "sint Millisecond = 1000000"
  by (simp add: Millisecond_def)

lemma sdiv_million_bounds:
  fixes n :: int
  assumes "- (2 ^ 63) \<le> n" "n < 2 ^ 63"
  shows "- (2 ^ 63) \<le> n sdiv 1000000" "n sdiv 1000000 < 2 ^ 63"
proof -
  have "\<bar>n\<bar> div 1000000 \<le> \<bar>n\<bar>" "0 \<le> \<bar>n\<bar> div 1000000" using zdiv_mono2 [of "\<bar>n\<bar>" 1 1000000] by (simp_all add: pos_imp_zdiv_nonneg_iff)
  then show "- (2 ^ 63) \<le> n sdiv 1000000" "n sdiv 1000000 < 2 ^ 63"
    using assms by (auto simp: signed_divide_int_def sgn_if)
qed

text \<open>The conversion to milliseconds does not overflow.\<close>

lemma sint_int64_div_Millisecond: "sint (int64_div d Millisecond) = sint d sdiv 1000000"
proof -
  have "- (2 ^ 63) \<le> sint d" "sint d < 2 ^ 63"
    using sint_greater_eq [of d] sint_less [of d] by simp_all
  then have "- (2 ^ 63) \<le> sint d sdiv 1000000" "sint d sdiv 1000000 < 2 ^ 63"
    by (rule sdiv_million_bounds)+
  then show ?thesis
    by (simp add: int64_div_def sint_Millisecond signed_of_int signed_take_bit_int_eq_self)
qed

end
