(* ===== verification/Pg_Storage.thy ===== *)
theory Pg_Storage
  imports Sql_Activities Options Events
begin

text \<open>
  The methods of \<open>storage/postgres\<close>: how each composes its statements, its transaction
  and its error wrapping. The unexported methods take the executor (pool or
  transaction) they run on, as in the code.
\<close>

record 'v pg_storage =
  pg_encoder :: "'v encoder"

type_synonym 'v storage_option = "'v pg_storage \<Rightarrow> 'v pg_storage"

text \<open>\<open>NewStorage\<close> starts from the JSON encoder and applies the options.\<close>

definition NewStorage :: "('d, 'v) env \<Rightarrow> 'v storage_option list \<Rightarrow> 'v pg_storage" where
  "NewStorage env opts = apply_opts opts \<lparr>pg_encoder = JsonEncoder env\<rparr>"

definition WithStorageQueueEncoder :: "'v encoder \<Rightarrow> 'v storage_option" where
  "WithStorageQueueEncoder e s = s\<lparr>pg_encoder := e\<rparr>"

definition pg_Decoder :: "'v pg_storage \<Rightarrow> 'v decoder" where
  "pg_Decoder s = enc_Decode (pg_encoder s)"

section \<open>Shared pieces\<close>

text \<open>A nil payload is stored as NULL, any other payload is encoded.\<close>

definition encode_nullable :: "'v pg_storage \<Rightarrow> string \<Rightarrow> 'v option \<Rightarrow> error + bytes option" where
  "encode_nullable s label v = (case v of
      None \<Rightarrow> Inr None
    | Some x \<Rightarrow> (case enc_Encode (pg_encoder s) x of Inl e \<Rightarrow> Inl (Errorf label e) | Inr b \<Rightarrow> Inr (Some b)))"

definition quoted_id :: "('d, 'v) env \<Rightarrow> string \<Rightarrow> uuid \<Rightarrow> string \<Rightarrow> string" where
  "quoted_id env prefix i suffix =
     prefix @ '' with id '' @ [CHR 0x27] @ env_uuid_string env i @ [CHR 0x27] @ suffix"

text \<open>Execute a statement and demand that it affected a row.\<close>

definition exec_affecting :: "('d, 'v) env \<Rightarrow> execer \<Rightarrow> string \<Rightarrow> ('d, nat) stmt \<Rightarrow> string \<Rightarrow> ('d, unit) io" where
  "exec_affecting env ex label sql missing =
     bindE (wrapE label (exec env ex sql))
       (\<lambda>n. if n = 0 then throw (ErrorString missing) else ret ())"

text \<open>Scanning stops at the first row that does not fit.\<close>

fun scan_all :: "string \<Rightarrow> ('r \<Rightarrow> error + 's) \<Rightarrow> 'r list \<Rightarrow> error + 's list" where
  "scan_all label scan [] = Inr []"
| "scan_all label scan (r # rs) =
     (case scan r of
        Inl e \<Rightarrow> Inl (Errorf label e)
      | Inr x \<Rightarrow> (case scan_all label scan rs of Inl e \<Rightarrow> Inl e | Inr xs \<Rightarrow> Inr (x # xs)))"

lemma scan_all_mem:
  "scan_all label scan rs = Inr xs \<Longrightarrow> x \<in> set xs \<Longrightarrow> \<exists>r \<in> set rs. scan r = Inr x"
  by (induction rs arbitrary: xs) (auto split: sum.splits)

definition bindS :: "error + 'a \<Rightarrow> ('a \<Rightarrow> error + 'b) \<Rightarrow> error + 'b" where
  "bindS r k = (case r of Inl e \<Rightarrow> Inl e | Inr x \<Rightarrow> k x)"

text \<open>The rows that the events are made of, and the loops that collect them by key.\<close>

record history_event_record =
  her_IdempotencyKey :: uuid
  her_Output :: "bytes option"

definition ToHistoryEvent :: "history_event_record \<Rightarrow> 'v decoder \<Rightarrow> 'v event" where
  "ToHistoryEvent e decoder = NewEvent (her_IdempotencyKey e) (her_Output e) decoder"

definition history_events :: "'v decoder \<Rightarrow> (uuid \<times> bytes option) list \<Rightarrow> 'v events" where
  "history_events decoder rows = foldl (\<lambda>events (key, output).
     let historyEvent = \<lparr>her_IdempotencyKey = key, her_Output = output\<rparr>
     in events(her_IdempotencyKey historyEvent \<mapsto> ToHistoryEvent historyEvent decoder)) Map.empty rows"

record signal_event_record =
  ser_IdempotencyKey :: uuid
  ser_Input :: "bytes option"

definition ToSignalEvent :: "signal_event_record \<Rightarrow> 'v decoder \<Rightarrow> 'v event" where
  "ToSignalEvent e decoder = NewEvent (ser_IdempotencyKey e) (ser_Input e) decoder"

definition signal_events :: "'v decoder \<Rightarrow> (uuid \<times> bytes option) list \<Rightarrow> 'v events" where
  "signal_events decoder rows = foldl (\<lambda>events (key, input).
     let signalEvent = \<lparr>ser_IdempotencyKey = key, ser_Input = input\<rparr>
     in events(ser_IdempotencyKey signalEvent \<mapsto> ToSignalEvent signalEvent decoder)) Map.empty rows"

lemma collected_events [simp]:
  "history_events decoder rows = events_of_rows decoder rows" "signal_events decoder rows = events_of_rows decoder rows"
  by (simp_all add: history_events_def signal_events_def events_of_rows_def ToHistoryEvent_def ToSignalEvent_def)

section \<open>Workflow tasks\<close>

definition insertWorkflowTask :: "(db, 'v) env \<Rightarrow> execer \<Rightarrow> uuid \<Rightarrow> uuid \<Rightarrow> instant \<Rightarrow> (db, unit) io" where
  "insertWorkflowTask env ex taskID workflowID scheduledAt =
     bindE (wrapE ''exec workflow task inserting query''
         (exec env ex (sql_insert_workflow_task taskID workflowID scheduledAt)))
       (\<lambda>_. ret ())"

definition scan_workflow :: "('d, 'v) env \<Rightarrow> workflow_row \<Rightarrow> error + workflow_record" where
  "scan_workflow env w =
     bindS (env_scan_uint env (w_attempts w)) (\<lambda>attempts.
     bindS (env_scan_uint env (w_max_attempts w)) (\<lambda>maxAttempts.
     bindS (env_scan_uint env (w_stuck_timeout_millis w)) (\<lambda>stuck. Inr
       \<lparr>wr_ID = w_id w, wr_IdempotencyKey = w_idempotency_key w, wr_Name = w_name w,
        wr_Status = w_status w, wr_Input = w_input w, wr_Output = w_output w,
        wr_Priority = w_priority w, wr_Attempts = attempts, wr_MaxAttempts = maxAttempts,
        wr_StuckTimeoutMillis = stuck, wr_CompletedAt = w_completed_at w,
        wr_ErrorMessage = w_error_message w, wr_CreatedAt = w_created_at w,
        wr_UpdatedAt = w_updated_at w\<rparr>)))"

definition scan_workflow_task :: "('d, 'v) env \<Rightarrow> task_row \<times> workflow_row \<Rightarrow> error + workflow_task_record" where
  "scan_workflow_task env r =
     bindS (scan_workflow env (snd r)) (\<lambda>w. Inr
       \<lparr>tr_ID = t_id (fst r), tr_Workflow = w, tr_Status = t_status (fst r),
        tr_ScheduledAt = t_scheduled_at (fst r), tr_RunAt = t_run_at (fst r),
        tr_StuckAt = t_stuck_at (fst r), tr_CompletedAt = t_completed_at (fst r),
        tr_CreatedAt = t_created_at (fst r), tr_UpdatedAt = t_updated_at (fst r)\<rparr>)"

definition ListActiveWorkflowTasks ::
    "(db, 'v) env \<Rightarrow> string list \<Rightarrow> uint \<Rightarrow> (db, workflow_task_record list) io" where
  "ListActiveWorkflowTasks env names batchSize =
     bindE (wrapE ''query workflow tasks'' (exec env Pool
         (if names \<noteq> [] then sql_fetch_workflow_tasks_with_names names (unat batchSize)
          else sql_fetch_workflow_tasks (unat batchSize))))
       (\<lambda>rows. liftE (scan_all ''scan workflow task'' (scan_workflow_task env) rows))"

definition completeWorkflowTask :: "(db, 'v) env \<Rightarrow> execer \<Rightarrow> uuid \<Rightarrow> (db, unit) io" where
  "completeWorkflowTask env ex i =
     exec_affecting env ex ''exec workflow task completing query'' (sql_complete_workflow_task i)
       (quoted_id env ''workflow task'' i '' was not marked as completed'')"

definition clearWorkflowError :: "(db, 'v) env \<Rightarrow> execer \<Rightarrow> uuid \<Rightarrow> (db, unit) io" where
  "clearWorkflowError env ex i =
     exec_affecting env ex ''exec workflow error clearing query'' (sql_clear_workflow_error i)
       (quoted_id env ''workflow'' i '' was not found'')"

definition CompleteWorkflowTask :: "(db, 'v) env \<Rightarrow> uuid \<Rightarrow> uuid \<Rightarrow> (db, unit) io" where
  "CompleteWorkflowTask env workflowTaskID workflowID =
     bindE (wrapE ''exec transaction'' (env_begin_func env StorageDb (\<lambda>tx.
         bindE (wrapE ''complete workflow task'' (completeWorkflowTask env tx workflowTaskID)) (\<lambda>_.
         bindE (wrapE ''clear workflow error'' (clearWorkflowError env tx workflowID)) (\<lambda>_.
         ret uuid_Nil)))))
       (\<lambda>_. ret ())"

definition reScheduleWorkflowTask :: "(db, 'v) env \<Rightarrow> execer \<Rightarrow> uuid \<Rightarrow> instant \<Rightarrow> (db, unit) io" where
  "reScheduleWorkflowTask env ex i scheduledAt =
     exec_affecting env ex ''exec workflow task rescheduling query'' (sql_reschedule_workflow_task i scheduledAt)
       (quoted_id env ''workflow task'' i '' was not rescheduled'')"

definition incrementWorkflowAttempts :: "(db, 'v) env \<Rightarrow> execer \<Rightarrow> uuid \<Rightarrow> string \<Rightarrow> (db, unit) io" where
  "incrementWorkflowAttempts env ex i errorMessage =
     exec_affecting env ex ''exec workflow attempts incrementing query''
       (sql_increment_workflow_attempts i errorMessage)
       (quoted_id env ''workflow'' i '' was not found'')"

definition ReScheduleWorkflowTask ::
    "(db, 'v) env \<Rightarrow> uuid \<Rightarrow> uuid \<Rightarrow> instant \<Rightarrow> string \<Rightarrow> (db, unit) io" where
  "ReScheduleWorkflowTask env workflowTaskID workflowID scheduledAt errorMessage =
     bindE (wrapE ''exec transaction'' (env_begin_func env StorageDb (\<lambda>tx.
         bindE (wrapE ''reschedule workflow task'' (reScheduleWorkflowTask env tx workflowTaskID scheduledAt)) (\<lambda>_.
         bindE (wrapE ''increment workflow attempts'' (incrementWorkflowAttempts env tx workflowID errorMessage)) (\<lambda>_.
         ret uuid_Nil)))))
       (\<lambda>_. ret ())"

definition failWorkflowTask :: "(db, 'v) env \<Rightarrow> execer \<Rightarrow> uuid \<Rightarrow> (db, unit) io" where
  "failWorkflowTask env ex i =
     exec_affecting env ex ''exec workflow task failing query'' (sql_fail_workflow_task i)
       (quoted_id env ''workflow task'' i '' was not marked as failed'')"

text \<open>\<open>failWorkflow\<close> is in \<open>workflows.go\<close>; both failure transactions use it.\<close>

definition failWorkflow :: "(db, 'v) env \<Rightarrow> execer \<Rightarrow> uuid \<Rightarrow> string \<Rightarrow> (db, unit) io" where
  "failWorkflow env ex i errorMessage =
     exec_affecting env ex ''exec workflow failing query'' (sql_fail_workflow i errorMessage)
       (quoted_id env ''workflow'' i '' was not marked as failed'')"

definition FailWorkflowTask :: "(db, 'v) env \<Rightarrow> uuid \<Rightarrow> uuid \<Rightarrow> string \<Rightarrow> (db, unit) io" where
  "FailWorkflowTask env workflowTaskID workflowID errorMessage =
     bindE (wrapE ''exec transaction'' (env_begin_func env StorageDb (\<lambda>tx.
         bindE (wrapE ''fail workflow task'' (failWorkflowTask env tx workflowTaskID)) (\<lambda>_.
         bindE (wrapE ''fail workflow'' (failWorkflow env tx workflowID errorMessage)) (\<lambda>_.
         ret uuid_Nil)))))
       (\<lambda>_. ret ())"

section \<open>Workflows\<close>

definition insertWorkflow ::
    "(db, 'v) env \<Rightarrow> 'v pg_storage \<Rightarrow> execer \<Rightarrow> string \<Rightarrow> uuid \<Rightarrow> uuid \<Rightarrow> 'v option \<Rightarrow>
     64 word \<Rightarrow> uint \<Rightarrow> 64 word \<Rightarrow> (db, uuid) io" where
  "insertWorkflow env s ex name i idempotencyKey input priority maxAttempts stuckTimeoutMillis =
     bindE (liftE (encode_nullable s ''encode input'' input)) (\<lambda>inputBytes.
       wrapE ''exec workflow inserting query'' (exec env ex
         (sql_insert_workflow i idempotencyKey name inputBytes (sint priority)
            (uint maxAttempts) (sint stuckTimeoutMillis))))"

definition InsertWorkflow ::
    "(db, 'v) env \<Rightarrow> 'v pg_storage \<Rightarrow> tx_beginner \<Rightarrow> string \<Rightarrow> uuid \<Rightarrow> uuid \<Rightarrow> 'v option \<Rightarrow>
     workflow_options \<Rightarrow> (db, uuid) io" where
  "InsertWorkflow env s txer name i idempotencyKey input options =
     wrapE ''exec transaction'' (env_begin_func env txer (\<lambda>tx.
       bindE (wrapE ''insert workflow'' (insertWorkflow env s tx name i idempotencyKey input
           (wo_Priority options) (wo_MaxAttempts options) (wo_StuckTimeoutMillis options)))
         (\<lambda>upsertedID.
       bindE (NewV7 env) (\<lambda>taskID.
       bindE (wrapE ''insert workflow task'' (insertWorkflowTask env tx taskID i (wo_ScheduledAt options))) (\<lambda>_.
       ret upsertedID)))))"

definition ListHistoryEventsForWorkflow ::
    "(db, 'v) env \<Rightarrow> 'v pg_storage \<Rightarrow> uuid \<Rightarrow> (db, 'v events) io" where
  "ListHistoryEventsForWorkflow env s i =
     bindE (wrapE ''query workflow history events'' (exec env Pool (sql_list_history i)))
       (\<lambda>rows. ret (history_events (pg_Decoder s) rows))"

definition CompleteWorkflow :: "(db, 'v) env \<Rightarrow> uuid \<Rightarrow> (db, unit) io" where
  "CompleteWorkflow env i =
     exec_affecting env Pool ''exec workflow completing query'' (sql_complete_workflow i)
       (quoted_id env ''workflow'' i '' was not marked as completed'')"

definition deleteWorkflows :: "(db, 'v) env \<Rightarrow> workflow_status \<Rightarrow> instant \<Rightarrow> uint \<Rightarrow> (db, uint) io" where
  "deleteWorkflows env status cutoffDate limit =
     bindE (wrapE ''exec workflows deleting query'' (exec env Pool
         (sql_delete_workflows status cutoffDate (unat limit))))
       (\<lambda>n. ret (word_of_nat n))"

definition DeleteColdWorkflows :: "(db, 'v) env \<Rightarrow> instant \<Rightarrow> uint \<Rightarrow> (db, uint) io" where
  "DeleteColdWorkflows env cutoffDate limit = deleteWorkflows env WorkflowCompleted cutoffDate limit"

definition DeleteDeadWorkflows :: "(db, 'v) env \<Rightarrow> instant \<Rightarrow> uint \<Rightarrow> (db, uint) io" where
  "DeleteDeadWorkflows env cutoffDate limit = deleteWorkflows env WorkflowFailed cutoffDate limit"

section \<open>Activities\<close>

definition InsertActivity ::
    "(db, 'v) env \<Rightarrow> 'v pg_storage \<Rightarrow> string \<Rightarrow> uuid \<Rightarrow> uuid \<Rightarrow> uuid \<Rightarrow> 'v option \<Rightarrow>
     activity_options \<Rightarrow> (db, unit) io" where
  "InsertActivity env s name activityID activityIdempotencyKey workflowID input options =
     bindE (liftE (encode_nullable s ''encode input'' input)) (\<lambda>inputBytes.
     bindE (wrapE ''exec activity inserting query'' (exec env Pool
         (sql_insert_activity activityID activityIdempotencyKey workflowID name inputBytes
            (sint (ao_Priority options)) (uint (ao_MaxAttempts options))
            (sint (ao_StuckTimeoutMillis options)) (ao_ScheduledAt options))))
       (\<lambda>_. ret ()))"

definition scan_activity :: "('d, 'v) env \<Rightarrow> activity_row \<Rightarrow> error + activity_record" where
  "scan_activity env a =
     bindS (env_scan_uint env (a_attempts a)) (\<lambda>attempts.
     bindS (env_scan_uint env (a_max_attempts a)) (\<lambda>maxAttempts.
     bindS (env_scan_uint env (a_stuck_timeout_millis a)) (\<lambda>stuck. Inr
       \<lparr>ar_ID = a_id a, ar_IdempotencyKey = a_idempotency_key a, ar_WorkflowID = a_workflow_id a,
        ar_Name = a_name a, ar_Input = a_input a, ar_Output = a_output a, ar_Status = a_status a,
        ar_Priority = a_priority a, ar_Attempts = attempts, ar_MaxAttempts = maxAttempts,
        ar_StuckTimeoutMillis = stuck, ar_ScheduledAt = a_scheduled_at a, ar_RunAt = a_run_at a,
        ar_StuckAt = a_stuck_at a, ar_CompletedAt = a_completed_at a,
        ar_ErrorMessage = a_error_message a, ar_CreatedAt = a_created_at a,
        ar_UpdatedAt = a_updated_at a\<rparr>)))"

definition ListActiveActivities :: "(db, 'v) env \<Rightarrow> string list \<Rightarrow> uint \<Rightarrow> (db, activity_record list) io" where
  "ListActiveActivities env names batchSize =
     bindE (wrapE ''query activities'' (exec env Pool
         (if names \<noteq> [] then sql_fetch_activities_with_names names (unat batchSize)
          else sql_fetch_activities (unat batchSize))))
       (\<lambda>rows. liftE (scan_all ''scan activity'' (scan_activity env) rows))"

definition completeActivity ::
    "(db, 'v) env \<Rightarrow> 'v pg_storage \<Rightarrow> execer \<Rightarrow> uuid \<Rightarrow> 'v option \<Rightarrow> (db, unit) io" where
  "completeActivity env s ex i output =
     bindE (liftE (encode_nullable s ''encode output'' output)) (\<lambda>outputBytes.
       exec_affecting env ex ''exec activity completing query'' (sql_complete_activity i outputBytes)
         (quoted_id env ''activity'' i '' was not marked as completed''))"

definition CompleteActivity ::
    "(db, 'v) env \<Rightarrow> 'v pg_storage \<Rightarrow> uuid \<Rightarrow> uuid \<Rightarrow> 'v option \<Rightarrow> (db, unit) io" where
  "CompleteActivity env s activityID workflowID output =
     bindE (wrapE ''exec transaction'' (env_begin_func env StorageDb (\<lambda>tx.
         bindE (wrapE ''complete activity'' (completeActivity env s tx activityID output)) (\<lambda>_.
         bindE (NewV7 env) (\<lambda>taskID.
         bindE (time_Now env) (\<lambda>taskSchedule.
         bindE (wrapE ''insert workflow task'' (insertWorkflowTask env tx taskID workflowID taskSchedule)) (\<lambda>_.
         ret uuid_Nil)))))))
       (\<lambda>_. ret ())"

definition ReScheduleActivity :: "(db, 'v) env \<Rightarrow> uuid \<Rightarrow> instant \<Rightarrow> string \<Rightarrow> (db, unit) io" where
  "ReScheduleActivity env i scheduledAt errorMessage =
     exec_affecting env Pool ''exec activity rescheduling query''
       (sql_reschedule_activity i scheduledAt errorMessage)
       (quoted_id env ''activity'' i '' was not rescheduled'')"

definition failActivity :: "(db, 'v) env \<Rightarrow> execer \<Rightarrow> uuid \<Rightarrow> string \<Rightarrow> (db, unit) io" where
  "failActivity env ex i errorMessage =
     exec_affecting env ex ''exec activity failing query'' (sql_fail_activity i errorMessage)
       (quoted_id env ''activity'' i '' was not marked as failed'')"

definition FailActivity :: "(db, 'v) env \<Rightarrow> uuid \<Rightarrow> uuid \<Rightarrow> string \<Rightarrow> (db, unit) io" where
  "FailActivity env activityID workflowID errorMessage =
     bindE (wrapE ''exec transaction'' (env_begin_func env StorageDb (\<lambda>tx.
         bindE (wrapE ''fail activity'' (failActivity env tx activityID errorMessage)) (\<lambda>_.
         bindE (wrapE ''fail workflow'' (failWorkflow env tx workflowID errorMessage)) (\<lambda>_.
         ret uuid_Nil)))))
       (\<lambda>_. ret ())"

section \<open>Signals\<close>

definition insertSignal ::
    "(db, 'v) env \<Rightarrow> 'v pg_storage \<Rightarrow> execer \<Rightarrow> uuid \<Rightarrow> uuid \<Rightarrow> uuid \<Rightarrow> string \<Rightarrow> 'v option \<Rightarrow> (db, unit) io" where
  "insertSignal env s ex workflowID signalID signalIdempotencyKey signalName signalInput =
     bindE (liftE (encode_nullable s ''encode input'' signalInput)) (\<lambda>inputBytes.
     bindE (wrapE ''exec signal inserting query'' (exec env ex
         (sql_insert_signal signalID signalIdempotencyKey workflowID signalName inputBytes)))
       (\<lambda>_. ret ()))"

definition InsertSignal ::
    "(db, 'v) env \<Rightarrow> 'v pg_storage \<Rightarrow> tx_beginner \<Rightarrow> uuid \<Rightarrow> uuid \<Rightarrow> uuid \<Rightarrow> string \<Rightarrow> 'v option \<Rightarrow> (db, unit) io" where
  "InsertSignal env s txer workflowID signalID signalIdempotencyKey signalName signalInput =
     bindE (wrapE ''exec transaction'' (env_begin_func env txer (\<lambda>tx.
         bindE (wrapE ''insert signal''
           (insertSignal env s tx workflowID signalID signalIdempotencyKey signalName signalInput)) (\<lambda>_.
         bindE (NewV7 env) (\<lambda>taskID.
         bindE (time_Now env) (\<lambda>now.
         bindE (wrapE ''insert workflow task'' (insertWorkflowTask env tx taskID workflowID now)) (\<lambda>_.
         ret uuid_Nil)))))))
       (\<lambda>_. ret ())"

definition ListWorkflowSignals :: "(db, 'v) env \<Rightarrow> 'v pg_storage \<Rightarrow> uuid \<Rightarrow> (db, 'v events) io" where
  "ListWorkflowSignals env s workflowID =
     bindE (wrapE ''query workflow signal events'' (exec env Pool (sql_list_signals workflowID)))
       (\<lambda>rows. ret (signal_events (pg_Decoder s) rows))"

end
