(* ===== verification/Pg_Laws.thy ===== *)
theory Pg_Laws
  imports Pg_Storage
begin

text \<open>
  What the storage methods keep. The locale \<open>pg_frame\<close> asks of a relation between database
  states that the statements keep it which neither add an activity nor make anything known to a
  workflow, \<open>pg_quiet\<close> adds the insertion of activities, \<open>pg_steer\<close> instead the failure of activities
  and the signals, \<open>pg_call\<close> also their completion, \<open>pg_step\<close> all of them, so every statement of the engine
  (\<open>pg_step_delete\<close>: the cleanup statement too), and they conclude the same of the methods,
  transactions and error paths included. Interpretations are the integrity of the database, the
  permanence of signals and of the identity of activities, and the finality of workflows.
\<close>

locale pg_frame = step_relation R for R :: "db \<Rightarrow> db \<Rightarrow> bool" +
  assumes insert_workflow: "0 \<le> maxa \<Longrightarrow> stmt_keeps R (sql_insert_workflow i k nm inp p maxa ms)"
    and complete_workflow: "stmt_keeps R (sql_complete_workflow i)"
    and fail_workflow: "stmt_keeps R (sql_fail_workflow i msg)"
    and clear_error: "stmt_keeps R (sql_clear_workflow_error i)"
    and increment: "stmt_keeps R (sql_increment_workflow_attempts i msg)"
    and insert_task: "stmt_keeps R (sql_insert_workflow_task i wid at)"
    and fetch_tasks: "stmt_keeps R (fetch_tasks named n)"
    and complete_task: "stmt_keeps R (sql_complete_workflow_task i)"
    and reschedule_task: "stmt_keeps R (sql_reschedule_workflow_task i at)"
    and fail_task: "stmt_keeps R (sql_fail_workflow_task i)"
    and claim_activities: "stmt_keeps R (claim_activities ids)"
    and reschedule_activity: "stmt_keeps R (sql_reschedule_activity i at msg)"
begin

lemma keeps_exec_affecting [keeps_intros]:
  "stmt_keeps R sql \<Longrightarrow> keeps R (exec_affecting env ex label sql missing)"
  unfolding exec_affecting_def by (intro keeps_intros)

lemma fetch_activities: "stmt_keeps R (fetch_activities named n)"
  using claim_activities by (auto simp: stmt_keeps_def fetch_activities_ok)

lemma reads: "stmt_keeps R (sql_list_history wid)" "stmt_keeps R (sql_list_signals wid)"
  by (auto simp: stmt_keeps_def R_refl dest!: list_history_same list_signals_same)

lemmas quiet_stmts =
  insert_workflow complete_workflow fail_workflow clear_error increment insert_task fetch_tasks
  complete_task reschedule_task fail_task fetch_activities reschedule_activity reads

lemma keeps_insertWorkflowTask [keeps_intros]: "keeps R (insertWorkflowTask env ex i wid at)"
  unfolding insertWorkflowTask_def by (intro keeps_intros quiet_stmts)

lemma keeps_failWorkflow [keeps_intros]: "keeps R (failWorkflow env ex i msg)"
  unfolding failWorkflow_def by (intro keeps_intros quiet_stmts)

lemma keeps_ListActiveWorkflowTasks: "keeps R (ListActiveWorkflowTasks env names n)"
  unfolding ListActiveWorkflowTasks_def sql_fetch_workflow_tasks_def sql_fetch_workflow_tasks_with_names_def
  by (cases "names \<noteq> []") (simp_all, (intro keeps_intros quiet_stmts)+)

lemma keeps_CompleteWorkflowTask: "begin_func_law env \<Longrightarrow> keeps R (CompleteWorkflowTask env i wid)"
  unfolding CompleteWorkflowTask_def completeWorkflowTask_def clearWorkflowError_def
  by (intro keeps_intros quiet_stmts)

lemma keeps_ReScheduleWorkflowTask: "begin_func_law env \<Longrightarrow> keeps R (ReScheduleWorkflowTask env i wid at msg)"
  unfolding ReScheduleWorkflowTask_def reScheduleWorkflowTask_def incrementWorkflowAttempts_def
  by (intro keeps_intros quiet_stmts)

lemma keeps_FailWorkflowTask: "begin_func_law env \<Longrightarrow> keeps R (FailWorkflowTask env i wid msg)"
  unfolding FailWorkflowTask_def failWorkflowTask_def by (intro keeps_intros quiet_stmts)

lemma keeps_InsertWorkflow:
  "begin_func_law env \<Longrightarrow> keeps R (InsertWorkflow env s txer name i key input options)"
  unfolding InsertWorkflow_def insertWorkflow_def by (intro keeps_intros quiet_stmts) (simp_all only: uint_ge_0)

lemma keeps_ListHistory: "keeps R (ListHistoryEventsForWorkflow env s i)"
  unfolding ListHistoryEventsForWorkflow_def by (intro keeps_intros quiet_stmts)

lemma keeps_CompleteWorkflow: "keeps R (CompleteWorkflow env i)"
  unfolding CompleteWorkflow_def by (intro keeps_intros quiet_stmts)

lemma keeps_InsertActivity_if:
  assumes "\<And>inp p maxa ms at. 0 \<le> maxa \<Longrightarrow> encode_nullable s ''encode input'' input = Inr inp \<Longrightarrow>
      stmt_keeps R (sql_insert_activity i key wid name inp p maxa ms at)"
  shows "keeps R (InsertActivity env s name i key wid input options)"
  unfolding InsertActivity_def
proof (rule keeps_bindE_results)
  fix x w w'
  assume "liftE (encode_nullable s ''encode input'' input) w = (Inr x, w')"
  then show "keeps R (bindE (wrapE ''exec activity inserting query'' (exec env Pool
      (sql_insert_activity i key wid name x (sint (ao_Priority options)) (uint (ao_MaxAttempts options))
        (sint (ao_StuckTimeoutMillis options)) (ao_ScheduledAt options)))) (\<lambda>_. ret ()))"
    by (intro keeps_intros assms) simp_all
qed (intro keeps_intros)

lemma keeps_ListActiveActivities: "keeps R (ListActiveActivities env names n)"
  unfolding ListActiveActivities_def sql_fetch_activities_def sql_fetch_activities_with_names_def
  by (cases "names \<noteq> []") (simp_all, (intro keeps_intros quiet_stmts)+)

lemma keeps_ReScheduleActivity: "keeps R (ReScheduleActivity env i at msg)"
  unfolding ReScheduleActivity_def by (intro keeps_intros quiet_stmts)

lemma keeps_ListWorkflowSignals: "keeps R (ListWorkflowSignals env s wid)"
  unfolding ListWorkflowSignals_def by (intro keeps_intros quiet_stmts)

lemmas keeps_frame_methods =
  keeps_ListActiveWorkflowTasks keeps_CompleteWorkflowTask keeps_ReScheduleWorkflowTask
  keeps_FailWorkflowTask keeps_InsertWorkflow keeps_ListHistory keeps_CompleteWorkflow
  keeps_ListActiveActivities keeps_ReScheduleActivity keeps_ListWorkflowSignals

text \<open>Each of the other methods keeps \<open>R\<close> when its own statement does.\<close>

lemma keeps_CompleteActivity_if:
  assumes "\<And>out. encode_nullable s ''encode output'' output = Inr out \<Longrightarrow> stmt_keeps R (sql_complete_activity i out)"
    and "begin_func_law env"
  shows "keeps R (CompleteActivity env s i wid output)"
proof -
  have "keeps R (completeActivity env s ex i output)" for ex
    unfolding completeActivity_def
    by (rule keeps_bindE_results, intro keeps_intros, rule keeps_exec_affecting, rule assms(1), simp)
  then show ?thesis unfolding CompleteActivity_def by (intro keeps_intros assms(2))
qed

lemma keeps_FailActivity_if:
  assumes "\<And>i msg. stmt_keeps R (sql_fail_activity i msg)" and "begin_func_law env"
  shows "keeps R (FailActivity env i wid msg)"
  unfolding FailActivity_def failActivity_def by (intro keeps_intros assms)

lemma keeps_InsertSignal_if:
  assumes "\<And>i k wid nm inp. stmt_keeps R (sql_insert_signal i k wid nm inp)" and "begin_func_law env"
  shows "keeps R (InsertSignal env s txer wid i key name input)"
  unfolding InsertSignal_def insertSignal_def by (intro keeps_intros assms)

end

locale pg_quiet = pg_frame +
  assumes insert_activity: "0 \<le> maxa \<Longrightarrow> stmt_keeps R (sql_insert_activity i k wid nm inp p maxa ms at)"
begin

lemmas keeps_InsertActivity = keeps_InsertActivity_if [OF insert_activity]

lemmas keeps_quiet_methods = keeps_frame_methods keeps_InsertActivity

end

locale pg_steer = pg_frame +
  assumes fail_activity: "stmt_keeps R (sql_fail_activity i msg)"
    and insert_signal: "stmt_keeps R (sql_insert_signal i k wid nm inp)"
begin

lemmas keeps_FailActivity = keeps_FailActivity_if [OF fail_activity]
  and keeps_InsertSignal = keeps_InsertSignal_if [OF insert_signal]

lemmas keeps_steer_methods = keeps_frame_methods keeps_FailActivity keeps_InsertSignal

end

locale pg_call = pg_steer +
  assumes complete_activity: "stmt_keeps R (sql_complete_activity i out)"
begin

lemmas keeps_CompleteActivity = keeps_CompleteActivity_if [OF complete_activity]

lemmas keeps_call_methods = keeps_steer_methods keeps_CompleteActivity

end

locale pg_step = pg_quiet R + pg_call R for R :: "db \<Rightarrow> db \<Rightarrow> bool"
begin

lemmas keeps_methods = keeps_call_methods keeps_InsertActivity

end

locale pg_step_delete = pg_step +
  assumes delete_workflows: "stmt_keeps R (sql_delete_workflows status cutoff n)"
begin

lemma keeps_deleteWorkflows: "keeps R (deleteWorkflows env status cutoff limit)"
  unfolding deleteWorkflows_def by (intro keeps_intros delete_workflows)

end

section \<open>Integrity\<close>

definition valid_kept :: "db \<Rightarrow> db \<Rightarrow> bool" where
  "valid_kept d d' \<longleftrightarrow> (valid_db d \<longrightarrow> valid_db d')"

lemmas stmt_valid =
  sql_insert_workflow_valid sql_complete_workflow_valid sql_fail_workflow_valid
  sql_clear_workflow_error_valid sql_increment_workflow_attempts_valid sql_insert_workflow_task_valid
  fetch_tasks_valid sql_complete_workflow_task_valid sql_reschedule_workflow_task_valid
  sql_fail_workflow_task_valid sql_insert_activity_valid claim_activities_valid
  sql_complete_activity_valid sql_reschedule_activity_valid sql_fail_activity_valid
  sql_insert_signal_valid sql_delete_workflows_valid

interpretation valid: pg_step_delete valid_kept
  by unfold_locales (auto simp: stmt_keeps_def valid_kept_def intro: stmt_valid)

section \<open>Permanence\<close>

text \<open>Signal rows are neither changed nor removed.\<close>

definition signals_kept :: "db \<Rightarrow> db \<Rightarrow> bool" where
  "signals_kept d d' \<longleftrightarrow> set (signals d) \<subseteq> set (signals d')"

lemma stmt_signals:
  "sql_insert_workflow i k nm inp p maxa ms q d = Inr (u, d') \<Longrightarrow> signals d' = signals d"
  "sql_insert_workflow_task i wid at q d = Inr (n, d') \<Longrightarrow> signals d' = signals d"
  "fetch_tasks named lim q d = Inr (rows, d') \<Longrightarrow> signals d' = signals d"
  "sql_insert_activity i k wid nm inp p maxa ms at q d = Inr (n, d') \<Longrightarrow> signals d' = signals d"
  "claim_activities ids q d = Inr (acts, d') \<Longrightarrow> signals d' = signals d"
  "sql_complete_workflow i q d = Inr (n, d') \<Longrightarrow> signals d' = signals d"
  "sql_fail_workflow i msg q d = Inr (n, d') \<Longrightarrow> signals d' = signals d"
  "sql_clear_workflow_error i q d = Inr (n, d') \<Longrightarrow> signals d' = signals d"
  "sql_increment_workflow_attempts i msg q d = Inr (n, d') \<Longrightarrow> signals d' = signals d"
  "sql_complete_workflow_task i q d = Inr (n, d') \<Longrightarrow> signals d' = signals d"
  "sql_reschedule_workflow_task i at q d = Inr (n, d') \<Longrightarrow> signals d' = signals d"
  "sql_fail_workflow_task i q d = Inr (n, d') \<Longrightarrow> signals d' = signals d"
  "sql_complete_activity i out q d = Inr (n, d') \<Longrightarrow> signals d' = signals d"
  "sql_reschedule_activity i at msg q d = Inr (n, d') \<Longrightarrow> signals d' = signals d"
  "sql_fail_activity i msg q d = Inr (n, d') \<Longrightarrow> signals d' = signals d"
  by (auto simp: stmt_defs Let_def split: if_splits option.splits)

interpretation signals: pg_step signals_kept
  by unfold_locales (auto simp: stmt_keeps_def signals_kept_def sql_insert_signal_ok dest!: stmt_signals)

text \<open>
  An activity keeps its id, its key, its workflow, its name and its input, and its count of
  attempts never decreases.
\<close>

definition activity_kept :: "activity_row \<Rightarrow> activity_row \<Rightarrow> bool" where
  "activity_kept a b \<longleftrightarrow>
     a_id b = a_id a \<and> a_idempotency_key b = a_idempotency_key a \<and> a_workflow_id b = a_workflow_id a \<and>
     a_name b = a_name a \<and> a_input b = a_input a \<and> a_max_attempts b = a_max_attempts a \<and>
     a_attempts a \<le> a_attempts b"

definition activities_kept :: "db \<Rightarrow> db \<Rightarrow> bool" where
  "activities_kept d d' \<longleftrightarrow> (\<forall>a \<in> set (activities d). \<exists>b \<in> set (activities d'). activity_kept a b)"

lemma activity_kept_refl [simp]: "activity_kept a a"
  by (simp add: activity_kept_def)

lemma activity_kept_trans: "activity_kept a b \<Longrightarrow> activity_kept b c \<Longrightarrow> activity_kept a c"
  by (simp add: activity_kept_def)

lemma activities_kept_update:
  assumes "\<And>a. activity_kept a (f a)"
  shows "activities_kept d (d\<lparr>activities := update_where p f (activities d)\<rparr>)"
  unfolding activities_kept_def
proof
  fix a
  assume a: "a \<in> set (activities d)"
  show "\<exists>b \<in> set (activities (d\<lparr>activities := update_where p f (activities d)\<rparr>)). activity_kept a b"
    by (rule bexI [of _ "if p a then f a else a"]) (use a assms in auto)
qed

lemma activities_kept_superset: "set (activities d) \<subseteq> set (activities d') \<Longrightarrow> activities_kept d d'"
  unfolding activities_kept_def using activity_kept_refl by blast

lemma stmt_activities:
  "sql_insert_workflow i k nm inp p maxa ms q d = Inr (u, d') \<Longrightarrow> activities d' = activities d"
  "sql_insert_workflow_task i wid at q d = Inr (n, d') \<Longrightarrow> activities d' = activities d"
  "fetch_tasks named lim q d = Inr (rows, d') \<Longrightarrow> activities d' = activities d"
  "sql_complete_workflow i q d = Inr (n, d') \<Longrightarrow> activities d' = activities d"
  "sql_fail_workflow i msg q d = Inr (n, d') \<Longrightarrow> activities d' = activities d"
  "sql_clear_workflow_error i q d = Inr (n, d') \<Longrightarrow> activities d' = activities d"
  "sql_increment_workflow_attempts i msg q d = Inr (n, d') \<Longrightarrow> activities d' = activities d"
  "sql_complete_workflow_task i q d = Inr (n, d') \<Longrightarrow> activities d' = activities d"
  "sql_reschedule_workflow_task i at q d = Inr (n, d') \<Longrightarrow> activities d' = activities d"
  "sql_fail_workflow_task i q d = Inr (n, d') \<Longrightarrow> activities d' = activities d"
  "sql_insert_signal i k wid nm inp q d = Inr (n, d') \<Longrightarrow> activities d' = activities d"
  by (auto simp: stmt_defs Let_def split: if_splits option.splits)

interpretation acts: pg_step activities_kept
proof unfold_locales
  fix d1 d2 d3
  assume "activities_kept d1 d2" "activities_kept d2 d3"
  then show "activities_kept d1 d3" unfolding activities_kept_def by (meson activity_kept_trans)
qed (auto simp: stmt_keeps_def sql_complete_activity_def sql_reschedule_activity_def sql_fail_activity_def
    claim_activities_ok activity_kept_def intro: activities_kept_superset elim!: sql_insert_activity_ok
    dest!: stmt_activities intro!: activities_kept_update)

end
