(* ===== verification/Storage.thy ===== *)
theory Storage
  imports Pg_Laws
begin

text \<open>
  The interface \<open>Storage\<close> of \<open>storage.go\<close>, a record of its methods, and the PostgreSQL
  storage as a value of it. The workflow context, the workflows and the workers are
  written against the interface, for any type of store. A storage that other processes use too is
  one value more, \<open>interleaved\<close>: in front of each of its calls they change the store.
\<close>

record ('d, 'v) storage =
  st_InsertWorkflow :: "tx_beginner \<Rightarrow> string \<Rightarrow> uuid \<Rightarrow> uuid \<Rightarrow> 'v option \<Rightarrow> workflow_options \<Rightarrow> ('d, uuid) io"
  st_ListHistoryEventsForWorkflow :: "uuid \<Rightarrow> ('d, 'v events) io"
  st_CompleteWorkflow :: "uuid \<Rightarrow> ('d, unit) io"
  st_DeleteColdWorkflows :: "instant \<Rightarrow> uint \<Rightarrow> ('d, uint) io"
  st_DeleteDeadWorkflows :: "instant \<Rightarrow> uint \<Rightarrow> ('d, uint) io"
  st_InsertActivity :: "string \<Rightarrow> uuid \<Rightarrow> uuid \<Rightarrow> uuid \<Rightarrow> 'v option \<Rightarrow> activity_options \<Rightarrow> ('d, unit) io"
  st_ListActiveActivities :: "string list \<Rightarrow> uint \<Rightarrow> ('d, activity_record list) io"
  st_CompleteActivity :: "uuid \<Rightarrow> uuid \<Rightarrow> 'v option \<Rightarrow> ('d, unit) io"
  st_ReScheduleActivity :: "uuid \<Rightarrow> instant \<Rightarrow> string \<Rightarrow> ('d, unit) io"
  st_FailActivity :: "uuid \<Rightarrow> uuid \<Rightarrow> string \<Rightarrow> ('d, unit) io"
  st_ListActiveWorkflowTasks :: "string list \<Rightarrow> uint \<Rightarrow> ('d, workflow_task_record list) io"
  st_CompleteWorkflowTask :: "uuid \<Rightarrow> uuid \<Rightarrow> ('d, unit) io"
  st_ReScheduleWorkflowTask :: "uuid \<Rightarrow> uuid \<Rightarrow> instant \<Rightarrow> string \<Rightarrow> ('d, unit) io"
  st_FailWorkflowTask :: "uuid \<Rightarrow> uuid \<Rightarrow> string \<Rightarrow> ('d, unit) io"
  st_InsertSignal :: "tx_beginner \<Rightarrow> uuid \<Rightarrow> uuid \<Rightarrow> uuid \<Rightarrow> string \<Rightarrow> 'v option \<Rightarrow> ('d, unit) io"
  st_ListWorkflowSignals :: "uuid \<Rightarrow> ('d, 'v events) io"
  st_Decoder :: "'v decoder"

definition postgres :: "(db, 'v) env \<Rightarrow> 'v pg_storage \<Rightarrow> (db, 'v) storage" where
  "postgres env s =
     \<lparr>st_InsertWorkflow = InsertWorkflow env s,
      st_ListHistoryEventsForWorkflow = ListHistoryEventsForWorkflow env s,
      st_CompleteWorkflow = CompleteWorkflow env,
      st_DeleteColdWorkflows = DeleteColdWorkflows env,
      st_DeleteDeadWorkflows = DeleteDeadWorkflows env,
      st_InsertActivity = InsertActivity env s,
      st_ListActiveActivities = ListActiveActivities env,
      st_CompleteActivity = CompleteActivity env s,
      st_ReScheduleActivity = ReScheduleActivity env,
      st_FailActivity = FailActivity env,
      st_ListActiveWorkflowTasks = ListActiveWorkflowTasks env,
      st_CompleteWorkflowTask = CompleteWorkflowTask env,
      st_ReScheduleWorkflowTask = ReScheduleWorkflowTask env,
      st_FailWorkflowTask = FailWorkflowTask env,
      st_InsertSignal = InsertSignal env s,
      st_ListWorkflowSignals = ListWorkflowSignals env s,
      st_Decoder = pg_Decoder s\<rparr>"

lemma postgres_simps [simp]:
  "st_InsertWorkflow (postgres env s) = InsertWorkflow env s"
  "st_ListHistoryEventsForWorkflow (postgres env s) = ListHistoryEventsForWorkflow env s"
  "st_CompleteWorkflow (postgres env s) = CompleteWorkflow env"
  "st_DeleteColdWorkflows (postgres env s) = DeleteColdWorkflows env"
  "st_DeleteDeadWorkflows (postgres env s) = DeleteDeadWorkflows env"
  "st_InsertActivity (postgres env s) = InsertActivity env s"
  "st_ListActiveActivities (postgres env s) = ListActiveActivities env"
  "st_CompleteActivity (postgres env s) = CompleteActivity env s"
  "st_ReScheduleActivity (postgres env s) = ReScheduleActivity env"
  "st_FailActivity (postgres env s) = FailActivity env"
  "st_ListActiveWorkflowTasks (postgres env s) = ListActiveWorkflowTasks env"
  "st_CompleteWorkflowTask (postgres env s) = CompleteWorkflowTask env"
  "st_ReScheduleWorkflowTask (postgres env s) = ReScheduleWorkflowTask env"
  "st_FailWorkflowTask (postgres env s) = FailWorkflowTask env"
  "st_InsertSignal (postgres env s) = InsertSignal env s"
  "st_ListWorkflowSignals (postgres env s) = ListWorkflowSignals env s"
  "st_Decoder (postgres env s) = pg_Decoder s"
  by (simp_all add: postgres_def)

section \<open>A storage among other processes\<close>

text \<open>
  The storage as a process sees it that shares the database: in front of each call, others have
  acted on the store.
\<close>

definition interleaved :: "('d world \<Rightarrow> 'd world) \<Rightarrow> ('d, 'v) storage \<Rightarrow> ('d, 'v) storage" where
  "interleaved others st =
     \<lparr>st_InsertWorkflow = (\<lambda>txer name i key v o'. amid others (st_InsertWorkflow st txer name i key v o')),
      st_ListHistoryEventsForWorkflow = (\<lambda>i. amid others (st_ListHistoryEventsForWorkflow st i)),
      st_CompleteWorkflow = (\<lambda>i. amid others (st_CompleteWorkflow st i)),
      st_DeleteColdWorkflows = (\<lambda>cutoff n. amid others (st_DeleteColdWorkflows st cutoff n)),
      st_DeleteDeadWorkflows = (\<lambda>cutoff n. amid others (st_DeleteDeadWorkflows st cutoff n)),
      st_InsertActivity = (\<lambda>name i key wid v o'. amid others (st_InsertActivity st name i key wid v o')),
      st_ListActiveActivities = (\<lambda>names n. amid others (st_ListActiveActivities st names n)),
      st_CompleteActivity = (\<lambda>i wid v. amid others (st_CompleteActivity st i wid v)),
      st_ReScheduleActivity = (\<lambda>i at msg. amid others (st_ReScheduleActivity st i at msg)),
      st_FailActivity = (\<lambda>i wid msg. amid others (st_FailActivity st i wid msg)),
      st_ListActiveWorkflowTasks = (\<lambda>names n. amid others (st_ListActiveWorkflowTasks st names n)),
      st_CompleteWorkflowTask = (\<lambda>i wid. amid others (st_CompleteWorkflowTask st i wid)),
      st_ReScheduleWorkflowTask = (\<lambda>i wid at msg. amid others (st_ReScheduleWorkflowTask st i wid at msg)),
      st_FailWorkflowTask = (\<lambda>i wid msg. amid others (st_FailWorkflowTask st i wid msg)),
      st_InsertSignal = (\<lambda>txer wid i key name v. amid others (st_InsertSignal st txer wid i key name v)),
      st_ListWorkflowSignals = (\<lambda>wid. amid others (st_ListWorkflowSignals st wid)),
      st_Decoder = st_Decoder st\<rparr>"

lemma interleaved_simps [simp]:
  "st_InsertWorkflow (interleaved others st) txer name i key v o' = amid others (st_InsertWorkflow st txer name i key v o')"
  "st_ListHistoryEventsForWorkflow (interleaved others st) i = amid others (st_ListHistoryEventsForWorkflow st i)"
  "st_CompleteWorkflow (interleaved others st) i = amid others (st_CompleteWorkflow st i)"
  "st_DeleteColdWorkflows (interleaved others st) cutoff n = amid others (st_DeleteColdWorkflows st cutoff n)"
  "st_DeleteDeadWorkflows (interleaved others st) cutoff n = amid others (st_DeleteDeadWorkflows st cutoff n)"
  "st_InsertActivity (interleaved others st) name i key wid v ao = amid others (st_InsertActivity st name i key wid v ao)"
  "st_ListActiveActivities (interleaved others st) names n = amid others (st_ListActiveActivities st names n)"
  "st_CompleteActivity (interleaved others st) i wid v = amid others (st_CompleteActivity st i wid v)"
  "st_ReScheduleActivity (interleaved others st) i at msg = amid others (st_ReScheduleActivity st i at msg)"
  "st_FailActivity (interleaved others st) i wid msg = amid others (st_FailActivity st i wid msg)"
  "st_ListActiveWorkflowTasks (interleaved others st) names n = amid others (st_ListActiveWorkflowTasks st names n)"
  "st_CompleteWorkflowTask (interleaved others st) i wid = amid others (st_CompleteWorkflowTask st i wid)"
  "st_ReScheduleWorkflowTask (interleaved others st) i wid at msg = amid others (st_ReScheduleWorkflowTask st i wid at msg)"
  "st_FailWorkflowTask (interleaved others st) i wid msg = amid others (st_FailWorkflowTask st i wid msg)"
  "st_InsertSignal (interleaved others st) txer wid i key name v = amid others (st_InsertSignal st txer wid i key name v)"
  "st_ListWorkflowSignals (interleaved others st) wid = amid others (st_ListWorkflowSignals st wid)"
  "st_Decoder (interleaved others st) = st_Decoder st"
  by (simp_all add: interleaved_def)

lemma interleaved_id [simp]: "interleaved id st = st"
  by (simp add: interleaved_def)

section \<open>A relation that every method keeps\<close>

text \<open>
  The contract that the engine's code needs of a storage to keep a relation \<open>R\<close> between
  stores: every method it calls outside the cleanup keeps \<open>R\<close>. The completion of an activity, which
  only the activity worker calls, and the insertion of one, which only the workflow context
  calls, are contracts of their own.
\<close>

definition frame_keeps :: "('d \<Rightarrow> 'd \<Rightarrow> bool) \<Rightarrow> ('d, 'v) storage \<Rightarrow> bool" where
  "frame_keeps R st \<longleftrightarrow>
     (\<forall>txer name i key v o'. keeps R (st_InsertWorkflow st txer name i key v o')) \<and>
     (\<forall>i. keeps R (st_ListHistoryEventsForWorkflow st i)) \<and>
     (\<forall>i. keeps R (st_CompleteWorkflow st i)) \<and>
     (\<forall>names n. keeps R (st_ListActiveActivities st names n)) \<and>
     (\<forall>i at msg. keeps R (st_ReScheduleActivity st i at msg)) \<and>
     (\<forall>i wid msg. keeps R (st_FailActivity st i wid msg)) \<and>
     (\<forall>names n. keeps R (st_ListActiveWorkflowTasks st names n)) \<and>
     (\<forall>i wid. keeps R (st_CompleteWorkflowTask st i wid)) \<and>
     (\<forall>i wid at msg. keeps R (st_ReScheduleWorkflowTask st i wid at msg)) \<and>
     (\<forall>i wid msg. keeps R (st_FailWorkflowTask st i wid msg)) \<and>
     (\<forall>txer wid i key name v. keeps R (st_InsertSignal st txer wid i key name v)) \<and>
     (\<forall>wid. keeps R (st_ListWorkflowSignals st wid))"

locale kept_frame = step_relation R for R :: "'d \<Rightarrow> 'd \<Rightarrow> bool" +
  fixes mk :: "'e \<Rightarrow> ('d, 'v) storage" and lawful :: "'e \<Rightarrow> bool"
  assumes frame: "lawful e \<Longrightarrow> frame_keeps R (mk e)"
begin

lemma keeps_storage [keeps_intros]:
  assumes "lawful e"
  shows
    "keeps R (st_InsertWorkflow (mk e) txer name i key v o')"
    "keeps R (st_ListHistoryEventsForWorkflow (mk e) i)"
    "keeps R (st_CompleteWorkflow (mk e) i)"
    "keeps R (st_ListActiveActivities (mk e) names n)"
    "keeps R (st_ReScheduleActivity (mk e) i at msg)"
    "keeps R (st_FailActivity (mk e) i wid msg)"
    "keeps R (st_ListActiveWorkflowTasks (mk e) names n)"
    "keeps R (st_CompleteWorkflowTask (mk e) i wid)"
    "keeps R (st_ReScheduleWorkflowTask (mk e) i wid at msg)"
    "keeps R (st_FailWorkflowTask (mk e) i wid msg)"
    "keeps R (st_InsertSignal (mk e) txer wid i key name v)"
    "keeps R (st_ListWorkflowSignals (mk e) wid)"
  using frame [OF assms] by (simp_all add: frame_keeps_def)

end

locale kept_calls = kept_frame +
  assumes complete: "lawful e \<Longrightarrow> keeps R (st_CompleteActivity (mk e) i wid v)"

locale kept_storage = kept_calls +
  assumes insert: "lawful e \<Longrightarrow> keeps R (st_InsertActivity (mk e) name i key wid v o')"

text \<open>
  A lawful PostgreSQL storage: its driver satisfies the law of transactions, and the other
  processes keep the relation.
\<close>

definition pg_mk :: "(db world \<Rightarrow> db world) \<times> (db, 'v) env \<times> 'v pg_storage \<Rightarrow> (db, 'v) storage" where
  "pg_mk e = interleaved (fst e) (postgres (fst (snd e)) (snd (snd e)))"

definition pg_lawful ::
    "(db \<Rightarrow> db \<Rightarrow> bool) \<Rightarrow> (db world \<Rightarrow> db world) \<times> (db, 'v) env \<times> 'v pg_storage \<Rightarrow> bool" where
  "pg_lawful R e \<longleftrightarrow> interferes R (fst e) \<and> begin_func_law (fst (snd e))"

lemma pg_mk_simps [simp]:
  "pg_mk (others, env, s) = interleaved others (postgres env s)"
  "pg_lawful R (others, env, s) \<longleftrightarrow> interferes R others \<and> begin_func_law env"
  by (simp_all add: pg_mk_def pg_lawful_def)

context pg_steer
begin

lemma pg_kept_frame: "kept_frame R pg_mk (pg_lawful R)"
  by unfold_locales (auto simp: pg_mk_def pg_lawful_def frame_keeps_def intro!: keeps_amid keeps_steer_methods)

end

context pg_call
begin

lemma pg_kept_calls: "kept_calls R pg_mk (pg_lawful R)"
  by (rule kept_calls.intro [OF pg_kept_frame], unfold_locales)
    (simp add: pg_mk_def pg_lawful_def keeps_amid keeps_CompleteActivity)

end

context pg_step
begin

lemma pg_kept_storage: "kept_storage R pg_mk (pg_lawful R)"
  by (rule kept_storage.intro [OF pg_kept_calls], unfold_locales)
    (simp add: pg_mk_def pg_lawful_def keeps_amid keeps_InsertActivity)

end

sublocale pg_step \<subseteq> pgst: kept_storage R pg_mk "pg_lawful R"
  by (rule pg_kept_storage)

end
