(* ===== verification/Transactions.thy ===== *)
theory Transactions
  imports Storage
begin

text \<open>
  The vocabulary in which the storage methods are specified: a row of a table changed and
  nothing else, a task that resumes a workflow, and a transaction that happens as a whole
  or not at all; with the lemmas that bring each statement of the engine to that form.
\<close>

section \<open>All or nothing\<close>

text \<open>
  A call that answers had its effect; a call that reports an error had no effect, or had
  it and its acknowledgement was lost.
\<close>

definition all_or_nothing :: "('d \<Rightarrow> 'd \<Rightarrow> bool) \<Rightarrow> 'd \<Rightarrow> error + 'a \<Rightarrow> 'd \<Rightarrow> bool" where
  "all_or_nothing effect d r d' \<longleftrightarrow>
     (case r of Inr _ \<Rightarrow> effect d d' | Inl _ \<Rightarrow> d' = d \<or> effect d d')"

lemma all_or_nothing_mono:
  "all_or_nothing P d r d' \<Longrightarrow> P d d' \<longrightarrow> Q d d' \<Longrightarrow> all_or_nothing Q d r d'"
  by (auto simp: all_or_nothing_def split: sum.splits)

lemma begin_func_all_or_nothing:
  assumes "begin_func_law env" and "env_begin_func env txer body w = (r, w1)"
    and "\<And>t w0 u w2. store w0 = store w \<Longrightarrow> ticks w \<le> ticks w0 \<Longrightarrow> body (InTx t) w0 = (Inr u, w2) \<Longrightarrow> P (store w0) (store w2)"
  shows "all_or_nothing P (store w) r (store w1)"
  using assms(1,2)
proof (cases rule: begin_func_cases)
  case (committed t w0 u w2)
  with assms(3) have "P (store w) (store w1)" by metis
  then show ?thesis by (auto simp: all_or_nothing_def split: sum.split)
qed (simp add: all_or_nothing_def)

lemma wrapE_all_or_nothing:
  assumes "wrapE p m w = (r, w1)" and "\<And>r1. m w = (r1, w1) \<Longrightarrow> all_or_nothing P (store w) r1 (store w1)"
  shows "all_or_nothing P (store w) r (store w1)"
proof (cases "m w")
  case (Pair r1 w')
  with assms(1) have "w' = w1" "(\<exists>x. r1 = Inr x) = (\<exists>x. r = Inr x)"
    by (auto simp: wrapE_def split: sum.splits)
  with assms(2) [of r1] Pair show ?thesis by (auto simp: all_or_nothing_def split: sum.splits)
qed

text \<open>The shape of every transaction of the engine that answers with nil.\<close>

lemma tx_all_or_nothing:
  assumes "begin_func_law env"
    and "bindE (wrapE p (env_begin_func env txer body)) (\<lambda>_. ret ()) w = (r, w1)"
    and "\<And>t w0 u w2. store w0 = store w \<Longrightarrow> ticks w \<le> ticks w0 \<Longrightarrow> body (InTx t) w0 = (Inr u, w2) \<Longrightarrow> P (store w0) (store w2)"
  shows "all_or_nothing P (store w) r (store w1)"
proof -
  obtain r1 where wr: "wrapE p (env_begin_func env txer body) w = (r1, w1)"
      and ok: "(\<exists>x. r1 = Inr x) = (\<exists>x. r = Inr x)"
    using assms(2) by (auto simp: bindE_def split: prod.splits sum.splits)
  from wr have "all_or_nothing P (store w) r1 (store w1)"
    by (rule wrapE_all_or_nothing) (rule begin_func_all_or_nothing [OF assms(1)], assumption, rule assms(3))
  with ok show ?thesis by (auto simp: all_or_nothing_def split: sum.splits)
qed

text \<open>A single statement is atomic as well.\<close>

lemma exec_all_or_nothing:
  assumes "exec env ex sql w = (r, w1)"
    and "\<And>q x d. sql q (store w) = Inr (x, d) \<Longrightarrow> P (store w) d"
  shows "all_or_nothing P (store w) r (store w1)"
  using assms by (cases r) (auto simp: exec_ok all_or_nothing_def dest!: exec_err)

lemma exec_affecting_ok:
  "exec_affecting env ex label sql missing w = (Inr u, w') \<longleftrightarrow>
     (\<exists>n d. n \<noteq> 0 \<and> env_outcome env (ticks w) = Served \<and>
        sql (snap_at env ex (ticks w)) (store w) = Inr (n, d) \<and> w' = w\<lparr>ticks := Suc (ticks w), store := d\<rparr>)"
  by (auto simp: exec_affecting_def bindE_ok exec_ok split: if_splits)

lemma exec_affecting_all_or_nothing:
  assumes run: "exec_affecting env ex label sql missing w = (r, w1)"
    and none: "\<And>q d. sql q (store w) = Inr (0, d) \<Longrightarrow> d = store w"
    and some: "\<And>q n d. n \<noteq> 0 \<Longrightarrow> sql q (store w) = Inr (n, d) \<Longrightarrow> P (store w) d"
  shows "all_or_nothing P (store w) r (store w1)"
proof (cases r)
  case (Inl e)
  have "store w1 = store w \<or> (\<exists>n q. sql q (store w) = Inr (n, store w1))"
    using run unfolding Inl exec_affecting_def bindE_err wrapE_err
    by (auto simp: exec_ok split: if_splits dest!: exec_err)
  then show ?thesis
  proof (elim disjE exE)
    fix n q
    assume "sql q (store w) = Inr (n, store w1)"
    then show ?thesis using none some [of n] Inl by (cases "n = 0") (auto simp: all_or_nothing_def)
  qed (simp add: Inl all_or_nothing_def)
qed (use run some in \<open>auto simp: exec_affecting_ok all_or_nothing_def\<close>)

section \<open>One row changed\<close>

definition row_changed :: "('d \<Rightarrow> uuid \<Rightarrow> 'r option) \<Rightarrow> uuid \<Rightarrow> ('r \<Rightarrow> 'r \<Rightarrow> bool) \<Rightarrow> 'd \<Rightarrow> 'd \<Rightarrow> bool" where
  "row_changed lookup i P d d' \<longleftrightarrow>
     (\<exists>a b. lookup d i = Some a \<and> lookup d' i = Some b \<and> P a b) \<and>
     (\<forall>j. j \<noteq> i \<longrightarrow> lookup d' j = lookup d j)"

lemma find_update_where:
  assumes "\<And>r. k (f r) = k r"
  shows "find (\<lambda>r. k r = j) (update_where (\<lambda>r. k r = i) f rows) =
    (if j = i then map_option f (find (\<lambda>r. k r = j) rows) else find (\<lambda>r. k r = j) rows)"
  by (induction rows) (auto simp: assms)

lemma find_app: "find p (xs @ ys) = (case find p xs of None \<Rightarrow> find p ys | Some x \<Rightarrow> Some x)"
  by (induction xs) simp_all

lemma found_row:
  assumes "count_where p rows \<noteq> 0"
  obtains x where "find p rows = Some x"
  using assms by (cases "find p rows") (auto dest: find_NoneD)

lemma find_cong_tables [simp]:
  "find_activity (d\<lparr>workflows := ws\<rparr>) = find_activity d"
  "find_activity (d\<lparr>tasks := ts\<rparr>) = find_activity d"
  "find_activity (d\<lparr>signals := ss\<rparr>) = find_activity d"
  "find_workflow (d\<lparr>activities := as\<rparr>) = find_workflow d"
  "find_workflow (d\<lparr>tasks := ts\<rparr>) = find_workflow d"
  "find_workflow (d\<lparr>signals := ss\<rparr>) = find_workflow d"
  "find_task (d\<lparr>activities := as\<rparr>) = find_task d"
  "find_task (d\<lparr>workflows := ws\<rparr>) = find_task d"
  "find_task (d\<lparr>signals := ss\<rparr>) = find_task d"
  by (auto simp: find_activity_def find_workflow_def find_task_def)

lemma activity_row_changed:
  assumes "count_where (\<lambda>a. a_id a = i) (activities d) \<noteq> 0"
    and "\<And>a. a_id (f a) = a_id a" and "\<And>a. P a (a_set_updated_at n f a)"
  shows "row_changed find_activity i P d
    (d\<lparr>activities := update_where (\<lambda>a. a_id a = i) (a_set_updated_at n f) (activities d)\<rparr>)"
  using assms(1) by (rule found_row) (simp add: row_changed_def find_activity_def find_update_where assms(2,3))

lemma task_row_changed:
  assumes "count_where (\<lambda>a. t_id a = i) (tasks d) \<noteq> 0"
    and "\<And>a. t_id (f a) = t_id a" and "\<And>a. P a (t_set_updated_at n f a)"
  shows "row_changed find_task i P d
    (d\<lparr>tasks := update_where (\<lambda>a. t_id a = i) (t_set_updated_at n f) (tasks d)\<rparr>)"
  using assms(1) by (rule found_row) (simp add: row_changed_def find_task_def find_update_where assms(2,3))

lemma workflow_row_changed:
  assumes "count_where (\<lambda>a. w_id a = i) (workflows d) \<noteq> 0"
    and "\<And>a. w_id (f a) = w_id a" and "\<And>a. P a (w_set_updated_at n f a)"
  shows "row_changed find_workflow i P d
    (d\<lparr>workflows := update_where (\<lambda>a. w_id a = i) (w_set_updated_at n f) (workflows d)\<rparr>)"
  using assms(1) by (rule found_row) (simp add: row_changed_def find_workflow_def find_update_where assms(2,3))

lemma row_changed_cong:
  "row_changed lookup i P d d1 \<Longrightarrow> lookup d = lookup d0 \<Longrightarrow> lookup d1 = lookup d2 \<Longrightarrow> row_changed lookup i P d0 d2"
  by (simp add: row_changed_def)

text \<open>The same columns but for the trigger's timestamp.\<close>

lemma w_touch_eq: "w_set_updated_at n f a = (f a)\<lparr>w_updated_at := w_updated_at (w_set_updated_at n f a)\<rparr>"
  by (simp add: w_set_updated_at_def Let_def)

lemma t_touch_eq: "t_set_updated_at n f a = (f a)\<lparr>t_updated_at := t_updated_at (t_set_updated_at n f a)\<rparr>"
  by (simp add: t_set_updated_at_def Let_def)

lemma a_touch_eq: "a_set_updated_at n f a = (f a)\<lparr>a_updated_at := a_updated_at (a_set_updated_at n f a)\<rparr>"
  by (simp add: a_set_updated_at_def Let_def)

end
