(* ===== verification/Reference_Env.thy ===== *)
theory Reference_Env
  imports Storage
begin

text \<open>
  A concrete environment: one admissible behaviour of the driver, the service, the clocks
  and the libraries, with strings as the values of every Go type. It shows that the laws
  the theorems assume can hold, and the witnesses evaluate the model on it.
\<close>

section \<open>Transactions\<close>

text \<open>
  The plain transaction manager, with the clock of the service, runs the function once and
  undoes its effect when it fails.
\<close>

definition plain_begin_func :: "(nat \<Rightarrow> instant) \<Rightarrow> tx_beginner \<Rightarrow> (execer \<Rightarrow> ('d, uuid) io) \<Rightarrow> ('d, uuid) io" where
  "plain_begin_func clock txer body w =
     (case body (InTx (clock (ticks w))) w of
        (Inl e, w1) \<Rightarrow> (Inl e, w1\<lparr>store := store w, ticks := max (ticks w) (ticks w1)\<rparr>)
      | (Inr u, w1) \<Rightarrow> (Inr u, w1\<lparr>ticks := max (ticks w) (ticks w1)\<rparr>))"

text \<open>The plain wait group runs the first function, then the second.\<close>

definition plain_wait_group :: "('d, 'v events) io \<Rightarrow> ('d, 'v events) io \<Rightarrow> ('d, 'v events \<times> 'v events) io" where
  "plain_wait_group f g w =
     (case f w of (Inl e, w1) \<Rightarrow> (Inl e, snd (g w1)) | (Inr x, w1) \<Rightarrow>
       (case g w1 of (Inl e, w2) \<Rightarrow> (Inl e, w2) | (Inr y, w2) \<Rightarrow> (Inr (x, y), w2)))"

section \<open>The environment\<close>

text \<open>
  Statements are served; clocks show the tick; a generated id is the tick with the tenth bit set; the name-based
  hash is a polynomial in the bytes of the name; a value is its own encoding, and
  decoding nil bytes fails as \<open>encoding/json\<close> does.
\<close>

definition ref_hash :: "uuid \<Rightarrow> bytes \<Rightarrow> uuid" where
  "ref_hash ns name = foldl (\<lambda>h c. 257 * h + of_char c + 1) ns name"

definition ref_unmarshal :: "gotype \<Rightarrow> bytes option \<Rightarrow> error + string" where
  "ref_unmarshal t b = (case b of None \<Rightarrow> Inl (ErrorString ''unexpected end of JSON input'') | Some s \<Rightarrow> Inr s)"

definition ref_pg_text :: "sqlstate \<Rightarrow> string" where
  "ref_pg_text c = (case c of UniqueViolation k \<Rightarrow> ''duplicate key '' @ k
     | ForeignKeyViolation k \<Rightarrow> ''foreign key '' @ k | NumericValueOutOfRange \<Rightarrow> ''out of range'')"

definition ref_env :: "(db, string) env" where
  "ref_env =
     \<lparr>env_outcome = (\<lambda>n. Served), env_pg_now = int, env_rank = (\<lambda>n k i. unat i),
      env_pg_text = ref_pg_text, env_begin_func = plain_begin_func int,
      env_scan_uint = (\<lambda>n. if 0 \<le> n then Inr (word_of_int n) else Inl (ErrorString ''cannot scan'')),
      env_wait_group = plain_wait_group, env_go_now = int, env_new_v7 = (\<lambda>n. or 1024 (word_of_nat n)),
      env_new_sha1 = ref_hash, env_uuid_string = (\<lambda>i. ''uuid''),
      env_json_marshal = Inr, env_json_unmarshal = ref_unmarshal\<rparr>"

lemma ref_env_simps [simp]:
  "env_outcome ref_env n = Served"
  "env_pg_now ref_env n = int n"
  "env_rank ref_env n k i = unat i"
  "env_pg_text ref_env c = ref_pg_text c"
  "env_begin_func ref_env = plain_begin_func int"
  "env_scan_uint ref_env m = (if 0 \<le> m then Inr (word_of_int m) else Inl (ErrorString ''cannot scan''))"
  "env_wait_group ref_env = plain_wait_group"
  "env_go_now ref_env n = int n"
  "env_new_v7 ref_env n = or 1024 (word_of_nat n)"
  "env_new_sha1 ref_env = ref_hash"
  "env_uuid_string ref_env i = ''uuid''"
  "env_json_marshal ref_env = Inr"
  "env_json_unmarshal ref_env = ref_unmarshal"
  by (simp_all add: ref_env_def)

definition ref_pg :: "string pg_storage" where
  "ref_pg = NewStorage ref_env []"

lemma ref_pg_encoder [simp]: "enc_Encode (pg_encoder ref_pg) = Inr" "enc_Decode (pg_encoder ref_pg) = ref_unmarshal"
  by (simp_all add: ref_pg_def NewStorage_def JsonEncoder_def)

text \<open>The reference environment is lawful.\<close>

lemma plain_begin_func_law:
  assumes "env_begin_func env = plain_begin_func clock"
  shows "begin_func_law env"
  unfolding begin_func_law_def
proof (intro allI impI)
  fix txer body w r w1
  assume run: "env_begin_func env txer body w = (r, w1)"
  let ?t = "clock (ticks w)"
  obtain r' w' where body: "body (InTx ?t) w = (r', w')" by fastforce
  show "((\<exists>e. r = Inl e) \<and> store w1 = store w \<and> ticks w \<le> ticks w1) \<or>
        (\<exists>t w0 u w2. store w0 = store w \<and> ticks w \<le> ticks w0 \<and> body (InTx t) w0 = (Inr u, w2) \<and>
           store w1 = store w2 \<and> ticks w2 \<le> ticks w1 \<and> (r = Inr u \<or> (\<exists>e. r = Inl e)))"
  proof (cases r')
    case (Inl e)
    with run body show ?thesis by (auto simp: plain_begin_func_def assms)
  next
    case (Inr u)
    with run body have "r = Inr u" "store w1 = store w'" "ticks w' \<le> ticks w1"
      by (auto simp: plain_begin_func_def assms)
    with body Inr show ?thesis by (intro disjI2 exI [of _ ?t] exI [of _ w] exI [of _ u] exI [of _ w']) simp
  qed
qed

lemma plain_wait_group_law:
  assumes "env_wait_group env = plain_wait_group"
  shows "wait_group_law env"
  unfolding wait_group_law_def
proof (intro allI impI)
  fix f g w r w'
  assume run: "env_wait_group env f g w = (r, w')"
  obtain rf wf where f: "f w = (rf, wf)" by fastforce
  obtain rg wg where g: "g wf = (rg, wg)" by fastforce
  have "wait_answer rf rg r \<and> w' = wg"
    using run f g by (auto simp: plain_wait_group_def wait_answer_def assms split: sum.splits)
  with f g show "\<exists>w0 rf wf w1 rg wg. wait_answer rf rg r \<and> store w0 = store w \<and>
      (f w0 = (rf, wf) \<and> store w1 = store wf \<and> g w1 = (rg, wg) \<and> store w' = store wg \<or>
       g w0 = (rg, wg) \<and> store w1 = store wg \<and> f w1 = (rf, wf) \<and> store w' = store wf)"
    by blast
qed

lemma ref_begin_func_law: "begin_func_law ref_env"
  by (rule plain_begin_func_law) simp

lemma ref_wait_group_law: "wait_group_law ref_env"
  by (rule plain_wait_group_law) simp

lemma ref_scan_uint_law: "scan_uint_law ref_env"
  by (simp add: scan_uint_law_def)

section \<open>Example databases\<close>

definition ref_workflow :: "uuid \<Rightarrow> uuid \<Rightarrow> workflow_row" where
  "ref_workflow i key = new_workflow 5 i key ''order'' (Some ''input'') 0 3 300000"

definition ref_activity :: "uuid \<Rightarrow> uuid \<Rightarrow> activity_row" where
  "ref_activity i key = new_activity 6 i key 1 ''charge'' (Some ''100'') 0 2 300000 6"

text \<open>One running workflow with a pending task and a pending activity.\<close>

definition ref_db :: db where
  "ref_db = \<lparr>workflows = [ref_workflow 1 11], tasks = [new_task 5 2 (ref_workflow 1 11) 5],
     activities = [ref_activity 3 31], signals = []\<rparr>"

definition ref_world :: "db world" where
  "ref_world = \<lparr>store = ref_db, ticks = 10\<rparr>"

lemma ref_db_valid: "valid_db ref_db"
  by (simp add: valid_db_def ref_db_def keys_ok_def refs_ok_def wf_ids_def ref_workflow_def
      ref_activity_def new_workflow_def new_activity_def new_task_def workflow_ok_def task_ok_def
      activity_ok_def max_int4_def in_int4_def min_int4_def)

end
