(* ===== verification/Storage_Specs.thy ===== *)
theory Storage_Specs
  imports Transactions Reference_Env
begin

text \<open>
  What the methods of the PostgreSQL storage promise, as effects between database states,
  and that every transaction happens as a whole or not at all.
\<close>

section \<open>Effects\<close>

text \<open>The ids that \<open>uuid.NewV7\<close> will generate are not in use.\<close>

definition fresh_uuids :: "(db, 'v) env \<Rightarrow> db world \<Rightarrow> bool" where
  "fresh_uuids env w \<longleftrightarrow> (\<forall>n. ticks w \<le> n \<longrightarrow> env_new_v7 env n \<notin> wf_ids (store w) \<union>
     t_id ` set (tasks (store w)) \<union> a_id ` set (activities (store w)) \<union> s_id ` set (signals (store w)))"

definition pending_task_for :: "workflow_row \<Rightarrow> task_row \<Rightarrow> bool" where
  "pending_task_for w t \<longleftrightarrow>
     t_workflow_id t = w_id w \<and> t_name t = w_name w \<and> t_status t = TaskPending \<and>
     t_priority t = w_priority w \<and> t_stuck_timeout_millis t = w_stuck_timeout_millis w \<and>
     t_run_at t = None \<and> t_stuck_at t = None \<and> t_completed_at t = None"

text \<open>One new pending task for the workflow, with its name and configuration.\<close>

definition task_enqueued :: "uuid \<Rightarrow> db \<Rightarrow> db \<Rightarrow> bool" where
  "task_enqueued wid d d' \<longleftrightarrow>
     (\<exists>w t. find_workflow d wid = Some w \<and> pending_task_for w t \<and>
        t_id t \<notin> t_id ` set (tasks d) \<and> tasks d' = tasks d @ [t])"

definition activity_completed :: "'v pg_storage \<Rightarrow> uuid \<Rightarrow> uuid \<Rightarrow> 'v option \<Rightarrow> db \<Rightarrow> db \<Rightarrow> bool" where
  "activity_completed s i wid output d d' \<longleftrightarrow>
     (\<exists>out. encode_nullable s ''encode output'' output = Inr out \<and>
        row_changed find_activity i (\<lambda>a b. \<exists>now. b = a\<lparr>a_status := ActivityCompleted, a_output := out,
          a_completed_at := Some now, a_error_message := None, a_updated_at := a_updated_at b\<rparr>) d d') \<and>
     task_enqueued wid d d' \<and> workflows d' = workflows d \<and> signals d' = signals d"

definition workflow_failed :: "uuid \<Rightarrow> string \<Rightarrow> db \<Rightarrow> db \<Rightarrow> bool" where
  "workflow_failed wid msg d d' \<longleftrightarrow>
     row_changed find_workflow wid (\<lambda>a b. \<exists>now. b = a\<lparr>w_status := WorkflowFailed,
       w_error_message := Some msg, w_completed_at := Some now, w_updated_at := w_updated_at b\<rparr>) d d'"

definition activity_failed :: "uuid \<Rightarrow> uuid \<Rightarrow> string \<Rightarrow> db \<Rightarrow> db \<Rightarrow> bool" where
  "activity_failed i wid msg d d' \<longleftrightarrow>
     row_changed find_activity i (\<lambda>a b. \<exists>now. b = a\<lparr>a_status := ActivityFailed,
       a_error_message := Some msg, a_completed_at := Some now, a_updated_at := a_updated_at b\<rparr>) d d' \<and>
     workflow_failed wid msg d d' \<and> tasks d' = tasks d \<and> signals d' = signals d"

definition task_failed :: "uuid \<Rightarrow> uuid \<Rightarrow> string \<Rightarrow> db \<Rightarrow> db \<Rightarrow> bool" where
  "task_failed i wid msg d d' \<longleftrightarrow>
     row_changed find_task i (\<lambda>a b. \<exists>now. b = a\<lparr>t_status := TaskFailed,
       t_completed_at := Some now, t_updated_at := t_updated_at b\<rparr>) d d' \<and>
     workflow_failed wid msg d d' \<and> activities d' = activities d \<and> signals d' = signals d"

definition task_completed :: "uuid \<Rightarrow> uuid \<Rightarrow> db \<Rightarrow> db \<Rightarrow> bool" where
  "task_completed i wid d d' \<longleftrightarrow>
     row_changed find_task i (\<lambda>a b. \<exists>now. b = a\<lparr>t_status := TaskCompleted,
       t_completed_at := Some now, t_updated_at := t_updated_at b\<rparr>) d d' \<and>
     row_changed find_workflow wid (\<lambda>a b. b = a\<lparr>w_error_message := None, w_updated_at := w_updated_at b\<rparr>) d d' \<and>
     activities d' = activities d \<and> signals d' = signals d"

definition task_rescheduled :: "uuid \<Rightarrow> uuid \<Rightarrow> instant \<Rightarrow> string \<Rightarrow> db \<Rightarrow> db \<Rightarrow> bool" where
  "task_rescheduled i wid at msg d d' \<longleftrightarrow>
     row_changed find_task i (\<lambda>a b. b = a\<lparr>t_status := TaskPending, t_scheduled_at := at,
       t_updated_at := t_updated_at b\<rparr>) d d' \<and>
     row_changed find_workflow wid (\<lambda>a b. b = a\<lparr>w_attempts := w_attempts a + 1,
       w_error_message := Some msg, w_updated_at := w_updated_at b\<rparr>) d d' \<and>
     activities d' = activities d \<and> signals d' = signals d"

definition activity_rescheduled :: "uuid \<Rightarrow> instant \<Rightarrow> string \<Rightarrow> db \<Rightarrow> db \<Rightarrow> bool" where
  "activity_rescheduled i at msg d d' \<longleftrightarrow>
     row_changed find_activity i (\<lambda>a b. b = a\<lparr>a_status := ActivityPending, a_scheduled_at := at,
       a_error_message := Some msg, a_updated_at := a_updated_at b\<rparr>) d d' \<and>
     workflows d' = workflows d \<and> tasks d' = tasks d \<and> signals d' = signals d"

definition signal_received ::
    "'v pg_storage \<Rightarrow> uuid \<Rightarrow> uuid \<Rightarrow> uuid \<Rightarrow> string \<Rightarrow> 'v option \<Rightarrow> db \<Rightarrow> db \<Rightarrow> bool" where
  "signal_received s wid i key name input d d' \<longleftrightarrow>
     (\<exists>inp now. encode_nullable s ''encode input'' input = Inr inp \<and>
        signals d' = signals d @ [new_signal now i key wid name inp]) \<and>
     i \<notin> s_id ` set (signals d) \<and> key \<notin> s_idempotency_key ` set (signals d) \<and>
     task_enqueued wid d d' \<and> workflows d' = workflows d \<and> activities d' = activities d"

section \<open>The statements have these effects\<close>

lemma sql_complete_activity_effect:
  assumes "sql_complete_activity i out q d = Inr (n, d')" and "n \<noteq> 0"
  shows "row_changed find_activity i (\<lambda>a b. \<exists>now. b = a\<lparr>a_status := ActivityCompleted, a_output := out,
      a_completed_at := Some now, a_error_message := None, a_updated_at := a_updated_at b\<rparr>) d d'"
    "workflows d' = workflows d" "tasks d' = tasks d" "signals d' = signals d"
  using assms by (auto simp: sql_complete_activity_def intro!: activity_row_changed exI [of _ "q_now q"] a_touch_eq)

lemma sql_fail_activity_effect:
  assumes "sql_fail_activity i msg q d = Inr (n, d')" and "n \<noteq> 0"
  shows "row_changed find_activity i (\<lambda>a b. \<exists>now. b = a\<lparr>a_status := ActivityFailed,
      a_error_message := Some msg, a_completed_at := Some now, a_updated_at := a_updated_at b\<rparr>) d d'"
    "workflows d' = workflows d" "tasks d' = tasks d" "signals d' = signals d"
  using assms by (auto simp: sql_fail_activity_def intro!: activity_row_changed exI [of _ "q_now q"] a_touch_eq)

lemma sql_reschedule_activity_effect:
  assumes "sql_reschedule_activity i at msg q d = Inr (n, d')" and "n \<noteq> 0"
  shows "row_changed find_activity i (\<lambda>a b. b = a\<lparr>a_status := ActivityPending, a_scheduled_at := at,
      a_error_message := Some msg, a_updated_at := a_updated_at b\<rparr>) d d'"
    "workflows d' = workflows d" "tasks d' = tasks d" "signals d' = signals d"
  using assms by (auto simp: sql_reschedule_activity_def intro!: activity_row_changed exI [of _ "q_now q"] a_touch_eq)

lemma sql_fail_workflow_effect:
  assumes "sql_fail_workflow wid msg q d = Inr (n, d')" and "n \<noteq> 0"
  shows "workflow_failed wid msg d d'"
    "activities d' = activities d" "tasks d' = tasks d" "signals d' = signals d"
  using assms by (auto simp: workflow_failed_def sql_fail_workflow_def
      intro!: workflow_row_changed exI [of _ "q_now q"] w_touch_eq)

lemma sql_clear_workflow_error_effect:
  assumes "sql_clear_workflow_error wid q d = Inr (n, d')" and "n \<noteq> 0"
  shows "row_changed find_workflow wid (\<lambda>a b. b = a\<lparr>w_error_message := None, w_updated_at := w_updated_at b\<rparr>) d d'"
    "activities d' = activities d" "tasks d' = tasks d" "signals d' = signals d"
  using assms by (auto simp: sql_clear_workflow_error_def intro!: workflow_row_changed exI [of _ "q_now q"] w_touch_eq)

lemma sql_increment_workflow_attempts_effect:
  assumes "sql_increment_workflow_attempts wid msg q d = Inr (n, d')" and "n \<noteq> 0"
  shows "row_changed find_workflow wid (\<lambda>a b. b = a\<lparr>w_attempts := w_attempts a + 1,
      w_error_message := Some msg, w_updated_at := w_updated_at b\<rparr>) d d'"
    "activities d' = activities d" "tasks d' = tasks d" "signals d' = signals d"
  using assms by (auto simp: sql_increment_workflow_attempts_def
      intro!: workflow_row_changed exI [of _ "q_now q"] w_touch_eq split: if_splits)

lemma sql_complete_workflow_task_effect:
  assumes "sql_complete_workflow_task i q d = Inr (n, d')" and "n \<noteq> 0"
  shows "row_changed find_task i (\<lambda>a b. \<exists>now. b = a\<lparr>t_status := TaskCompleted,
      t_completed_at := Some now, t_updated_at := t_updated_at b\<rparr>) d d'"
    "workflows d' = workflows d" "activities d' = activities d" "signals d' = signals d"
  using assms by (auto simp: sql_complete_workflow_task_def intro!: task_row_changed exI [of _ "q_now q"] t_touch_eq)

lemma sql_fail_workflow_task_effect:
  assumes "sql_fail_workflow_task i q d = Inr (n, d')" and "n \<noteq> 0"
  shows "row_changed find_task i (\<lambda>a b. \<exists>now. b = a\<lparr>t_status := TaskFailed,
      t_completed_at := Some now, t_updated_at := t_updated_at b\<rparr>) d d'"
    "workflows d' = workflows d" "activities d' = activities d" "signals d' = signals d"
  using assms by (auto simp: sql_fail_workflow_task_def intro!: task_row_changed exI [of _ "q_now q"] t_touch_eq)

lemma sql_reschedule_workflow_task_effect:
  assumes "sql_reschedule_workflow_task i at q d = Inr (n, d')" and "n \<noteq> 0"
  shows "row_changed find_task i (\<lambda>a b. b = a\<lparr>t_status := TaskPending, t_scheduled_at := at,
      t_updated_at := t_updated_at b\<rparr>) d d'"
    "workflows d' = workflows d" "activities d' = activities d" "signals d' = signals d"
  using assms by (auto simp: sql_reschedule_workflow_task_def intro!: task_row_changed exI [of _ "q_now q"] t_touch_eq)

lemma sql_insert_workflow_task_effect:
  assumes "sql_insert_workflow_task i wid at q d = Inr (n, d')"
    and "i \<notin> t_id ` set (tasks d)" and "wid \<in> wf_ids d"
  shows "task_enqueued wid d d'"
    "workflows d' = workflows d" "activities d' = activities d" "signals d' = signals d"
  using assms(1)
  by (cases rule: sql_insert_workflow_task_ok;
      use assms(2,3) in \<open>auto simp: task_enqueued_def pending_task_for_def new_task_def\<close>)+


section \<open>The bodies of the transactions\<close>

lemma fresh_uuidsD:
  assumes "fresh_uuids env w" and "ticks w \<le> n"
  shows "env_new_v7 env n \<notin> wf_ids (store w)" "env_new_v7 env n \<notin> t_id ` set (tasks (store w))"
    "env_new_v7 env n \<notin> a_id ` set (activities (store w))" "env_new_v7 env n \<notin> s_id ` set (signals (store w))"
  using assms by (auto simp: fresh_uuids_def)

lemma fresh_uuids_later:
  "fresh_uuids env w \<Longrightarrow> store w0 = store w \<Longrightarrow> ticks w \<le> ticks w0 \<Longrightarrow> fresh_uuids env w0"
  by (auto simp: fresh_uuids_def)

text \<open>The tail of two transactions: a task that resumes the workflow.\<close>

lemma resume_tail:
  assumes run: "bindE (NewV7 env) (\<lambda>taskID. bindE (time_Now env) (\<lambda>at.
      bindE (wrapE l (insertWorkflowTask env ex taskID wid at)) (\<lambda>_. ret x))) w = (Inr u, w')"
    and fresh: "env_new_v7 env (ticks w) \<notin> t_id ` set (tasks (store w))" and wid: "wid \<in> wf_ids (store w)"
  shows "task_enqueued wid (store w) (store w') \<and> workflows (store w') = workflows (store w) \<and>
    activities (store w') = activities (store w) \<and> signals (store w') = signals (store w)"
proof -
  from run obtain q n where
    "sql_insert_workflow_task (env_new_v7 env (ticks w)) wid (env_go_now env (Suc (ticks w))) q (store w)
      = Inr (n, store w')"
    by (auto simp: bindE_ok insertWorkflowTask_def exec_ok)
  from sql_insert_workflow_task_effect [OF this fresh wid] show ?thesis by simp
qed

lemma completeActivity_ok:
  assumes "completeActivity env s ex i output w = (Inr u, w')"
  obtains out q n where "encode_nullable s ''encode output'' output = Inr out" "n \<noteq> 0"
    "sql_complete_activity i out q (store w) = Inr (n, store w')" "ticks w' = Suc (ticks w)"
  using assms by (auto simp: completeActivity_def bindE_ok exec_affecting_ok)

lemma task_enqueued_cong:
  "task_enqueued wid d1 d2 \<Longrightarrow> workflows d1 = workflows d \<Longrightarrow> tasks d1 = tasks d \<Longrightarrow> task_enqueued wid d d2"
  by (simp add: task_enqueued_def find_workflow_def)

lemma CompleteActivity_body:
  assumes fresh: "fresh_uuids env w0" and wid: "wid \<in> wf_ids (store w0)"
    and run: "bindE (wrapE l1 (completeActivity env s ex i output)) (\<lambda>_. bindE (NewV7 env) (\<lambda>taskID.
      bindE (time_Now env) (\<lambda>at. bindE (wrapE l2 (insertWorkflowTask env ex taskID wid at)) (\<lambda>_. ret uuid_Nil)))) w0
      = (Inr u, w2)"
  shows "activity_completed s i wid output (store w0) (store w2)"
proof -
  from run obtain w1 where c: "completeActivity env s ex i output w0 = (Inr (), w1)"
    and tail: "bindE (NewV7 env) (\<lambda>taskID. bindE (time_Now env) (\<lambda>at.
      bindE (wrapE l2 (insertWorkflowTask env ex taskID wid at)) (\<lambda>_. ret uuid_Nil))) w1 = (Inr u, w2)"
    unfolding bindE_ok [of "wrapE l1 (completeActivity env s ex i output)"] by auto
  from c obtain out q n where enc: "encode_nullable s ''encode output'' output = Inr out"
    and n: "n \<noteq> 0" and sql: "sql_complete_activity i out q (store w0) = Inr (n, store w1)"
    and later: "ticks w1 = Suc (ticks w0)"
    by (rule completeActivity_ok)
  note eff = sql_complete_activity_effect [OF sql n]
  have "wid \<in> wf_ids (store w1)" using wid eff by (simp add: wf_ids_def)
  moreover have "env_new_v7 env (ticks w1) \<notin> t_id ` set (tasks (store w1))"
    using fresh_uuidsD(2) [OF fresh] eff later by simp
  ultimately
  have t: "task_enqueued wid (store w1) (store w2) \<and> workflows (store w2) = workflows (store w1) \<and>
      activities (store w2) = activities (store w1) \<and> signals (store w2) = signals (store w1)"
    by (rule resume_tail [OF tail, rotated])
  then have look: "find_activity (store w1) = find_activity (store w2)" by (simp add: fun_eq_iff find_activity_def)
  show ?thesis
    unfolding activity_completed_def
  proof (intro conjI exI)
    show "task_enqueued wid (store w0) (store w2)" using t eff by (blast intro: task_enqueued_cong)
  qed (use enc row_changed_cong [OF eff(1) refl look] t eff in simp_all)
qed

text \<open>Two updates in a row, each of a row that must exist.\<close>

lemma two_updates_ok:
  assumes "bindE (wrapE l1 (exec_affecting env ex k1 sql1 m1)) (\<lambda>_.
      bindE (wrapE l2 (exec_affecting env ex k2 sql2 m2)) (\<lambda>_. ret x)) w0 = (Inr u, w2)"
  obtains n1 n2 q1 q2 d1 where "n1 \<noteq> 0" "n2 \<noteq> 0" "sql1 q1 (store w0) = Inr (n1, d1)"
    "sql2 q2 d1 = Inr (n2, store w2)"
proof -
  from assms obtain w1 where 1: "exec_affecting env ex k1 sql1 m1 w0 = (Inr (), w1)"
    and 2: "exec_affecting env ex k2 sql2 m2 w1 = (Inr (), w2)"
    by (auto simp: bindE_ok)
  from 1 obtain n1 d1 where "n1 \<noteq> 0" "sql1 (snap_at env ex (ticks w0)) (store w0) = Inr (n1, d1)" "store w1 = d1"
    unfolding exec_affecting_ok by (elim exE conjE) simp
  moreover from 2 obtain n2 where "n2 \<noteq> 0" "sql2 (snap_at env ex (ticks w1)) (store w1) = Inr (n2, store w2)"
    unfolding exec_affecting_ok by (elim exE conjE) simp
  ultimately show ?thesis using that by simp
qed

lemma FailActivity_body:
  assumes "bindE (wrapE l1 (failActivity env ex i msg)) (\<lambda>_.
      bindE (wrapE l2 (failWorkflow env ex wid msg)) (\<lambda>_. ret uuid_Nil)) w0 = (Inr u, w2)"
  shows "activity_failed i wid msg (store w0) (store w2)"
  using assms unfolding failActivity_def failWorkflow_def
proof (rule two_updates_ok)
  fix n1 n2 q1 q2 d1
  assume "n1 \<noteq> (0 :: nat)" "n2 \<noteq> (0 :: nat)" "sql_fail_activity i msg q1 (store w0) = Inr (n1, d1)"
    "sql_fail_workflow wid msg q2 d1 = Inr (n2, store w2)"
  then show ?thesis
    using sql_fail_activity_effect [of i msg q1 "store w0" n1 d1] sql_fail_workflow_effect [of wid msg q2 d1 n2 "store w2"]
    by (auto simp: activity_failed_def workflow_failed_def find_activity_def find_workflow_def elim!: row_changed_cong)
qed

lemma FailWorkflowTask_body:
  assumes "bindE (wrapE l1 (failWorkflowTask env ex i)) (\<lambda>_.
      bindE (wrapE l2 (failWorkflow env ex wid msg)) (\<lambda>_. ret uuid_Nil)) w0 = (Inr u, w2)"
  shows "task_failed i wid msg (store w0) (store w2)"
  using assms unfolding failWorkflowTask_def failWorkflow_def
proof (rule two_updates_ok)
  fix n1 n2 q1 q2 d1
  assume "n1 \<noteq> (0 :: nat)" "n2 \<noteq> (0 :: nat)" "sql_fail_workflow_task i q1 (store w0) = Inr (n1, d1)"
    "sql_fail_workflow wid msg q2 d1 = Inr (n2, store w2)"
  then show ?thesis
    using sql_fail_workflow_task_effect [of i q1 "store w0" n1 d1] sql_fail_workflow_effect [of wid msg q2 d1 n2 "store w2"]
    by (auto simp: task_failed_def workflow_failed_def find_task_def find_workflow_def elim!: row_changed_cong)
qed

lemma CompleteWorkflowTask_body:
  assumes "bindE (wrapE l1 (completeWorkflowTask env ex i)) (\<lambda>_.
      bindE (wrapE l2 (clearWorkflowError env ex wid)) (\<lambda>_. ret uuid_Nil)) w0 = (Inr u, w2)"
  shows "task_completed i wid (store w0) (store w2)"
  using assms unfolding completeWorkflowTask_def clearWorkflowError_def
proof (rule two_updates_ok)
  fix n1 n2 q1 q2 d1
  assume "n1 \<noteq> (0 :: nat)" "n2 \<noteq> (0 :: nat)" "sql_complete_workflow_task i q1 (store w0) = Inr (n1, d1)"
    "sql_clear_workflow_error wid q2 d1 = Inr (n2, store w2)"
  then show ?thesis
    using sql_complete_workflow_task_effect [of i q1 "store w0" n1 d1]
      sql_clear_workflow_error_effect [of wid q2 d1 n2 "store w2"]
    by (auto simp: task_completed_def find_task_def find_workflow_def elim!: row_changed_cong)
qed

lemma ReScheduleWorkflowTask_body:
  assumes "bindE (wrapE l1 (reScheduleWorkflowTask env ex i at)) (\<lambda>_.
      bindE (wrapE l2 (incrementWorkflowAttempts env ex wid msg)) (\<lambda>_. ret uuid_Nil)) w0 = (Inr u, w2)"
  shows "task_rescheduled i wid at msg (store w0) (store w2)"
  using assms unfolding reScheduleWorkflowTask_def incrementWorkflowAttempts_def
proof (rule two_updates_ok)
  fix n1 n2 q1 q2 d1
  assume "n1 \<noteq> (0 :: nat)" "n2 \<noteq> (0 :: nat)" "sql_reschedule_workflow_task i at q1 (store w0) = Inr (n1, d1)"
    "sql_increment_workflow_attempts wid msg q2 d1 = Inr (n2, store w2)"
  then show ?thesis
    using sql_reschedule_workflow_task_effect [of i at q1 "store w0" n1 d1]
      sql_increment_workflow_attempts_effect [of wid msg q2 d1 n2 "store w2"]
    by (auto simp: task_rescheduled_def find_task_def find_workflow_def elim!: row_changed_cong)
qed

lemma InsertSignal_body:
  assumes fresh: "fresh_uuids env w0"
    and run: "bindE (wrapE l1 (insertSignal env s ex wid i key name input)) (\<lambda>_. bindE (NewV7 env) (\<lambda>taskID.
      bindE (time_Now env) (\<lambda>at. bindE (wrapE l2 (insertWorkflowTask env ex taskID wid at)) (\<lambda>_. ret uuid_Nil)))) w0
      = (Inr u, w2)"
  shows "signal_received s wid i key name input (store w0) (store w2)"
proof -
  from run obtain w1 where c: "insertSignal env s ex wid i key name input w0 = (Inr (), w1)"
    and tail: "bindE (NewV7 env) (\<lambda>taskID. bindE (time_Now env) (\<lambda>at.
      bindE (wrapE l2 (insertWorkflowTask env ex taskID wid at)) (\<lambda>_. ret uuid_Nil))) w1 = (Inr u, w2)"
    unfolding bindE_ok [of "wrapE l1 (insertSignal env s ex wid i key name input)"] by auto
  from c obtain inp q n where enc: "encode_nullable s ''encode input'' input = Inr inp"
    and sql: "sql_insert_signal i key wid name inp q (store w0) = Inr (n, store w1)"
    and later: "ticks w1 = Suc (ticks w0)"
    by (auto simp: insertSignal_def bindE_ok exec_ok)
  have "wid \<in> wf_ids (store w1)" using sql by (simp add: sql_insert_signal_ok)
  moreover have "env_new_v7 env (ticks w1) \<notin> t_id ` set (tasks (store w1))"
    using fresh_uuidsD(2) [OF fresh] sql later by (simp add: sql_insert_signal_ok)
  ultimately
  have t: "task_enqueued wid (store w1) (store w2) \<and> workflows (store w2) = workflows (store w1) \<and>
      activities (store w2) = activities (store w1) \<and> signals (store w2) = signals (store w1)"
    by (rule resume_tail [OF tail, rotated])
  with enc sql show ?thesis
    unfolding signal_received_def
    by (auto simp: sql_insert_signal_ok intro: task_enqueued_cong)
qed


section \<open>Inserting a workflow\<close>

definition workflow_enqueued ::
    "'v pg_storage \<Rightarrow> string \<Rightarrow> uuid \<Rightarrow> uuid \<Rightarrow> 'v option \<Rightarrow> workflow_options \<Rightarrow> db \<Rightarrow> db \<Rightarrow> bool" where
  "workflow_enqueued s name i key input options d d' \<longleftrightarrow>
     (\<exists>inp now w t. encode_nullable s ''encode input'' input = Inr inp \<and>
        w = new_workflow now i key name inp (sint (wo_Priority options)) (uint (wo_MaxAttempts options))
              (sint (wo_StuckTimeoutMillis options)) \<and>
        pending_task_for w t \<and> t_scheduled_at t = wo_ScheduledAt options \<and>
        workflows d' = workflows d @ [w] \<and> tasks d' = tasks d @ [t]) \<and>
     activities d' = activities d \<and> signals d' = signals d"

text \<open>The body of the transaction, by cases on the idempotency key.\<close>

lemma InsertWorkflow_body:
  assumes fresh: "fresh_uuids env w0" and i: "i \<notin> wf_ids (store w0)"
    and run: "bindE (wrapE l1 (insertWorkflow env s ex name i key input (wo_Priority options)
        (wo_MaxAttempts options) (wo_StuckTimeoutMillis options))) (\<lambda>u. bindE (NewV7 env) (\<lambda>taskID.
      bindE (wrapE l2 (insertWorkflowTask env ex taskID i (wo_ScheduledAt options))) (\<lambda>_. ret u))) w0 = (Inr u, w2)"
  obtains (existing) w where "w \<in> set (workflows (store w0))" "w_idempotency_key w = key" "u = w_id w"
      "store w2 = store w0"
  | (inserted) "key \<notin> w_idempotency_key ` set (workflows (store w0))" "u = i"
      "workflow_enqueued s name i key input options (store w0) (store w2)"
proof -
  from run obtain inp d1 q1 q2 n where enc: "encode_nullable s ''encode input'' input = Inr inp"
    and sql: "sql_insert_workflow i key name inp (sint (wo_Priority options)) (uint (wo_MaxAttempts options))
        (sint (wo_StuckTimeoutMillis options)) q1 (store w0) = Inr (u, d1)"
    and tsk: "sql_insert_workflow_task (env_new_v7 env (Suc (ticks w0))) i (wo_ScheduledAt options) q2 d1 = Inr (n, store w2)"
    by (auto simp: bindE_ok insertWorkflow_def insertWorkflowTask_def exec_ok)
  from sql show ?thesis
  proof (cases rule: sql_insert_workflow_ok)
    case (existing w)
    moreover have "store w2 = store w0"
      using tsk existing(4) i by (simp add: sql_insert_workflow_task_def find_workflow_None [symmetric])
    ultimately show ?thesis by (intro that(1)) simp_all
  next
    case inserted
    define x where "x = new_workflow (q_now q1) i key name inp (sint (wo_Priority options))
        (uint (wo_MaxAttempts options)) (sint (wo_StuckTimeoutMillis options))"
    have d1: "d1 = store w0\<lparr>workflows := workflows (store w0) @ [x]\<rparr>" using inserted by (simp add: x_def)
    have "w_id x = i" by (simp add: x_def new_workflow_def)
    with d1 i have "find_workflow d1 i = Some x"
      unfolding find_workflow_None [symmetric] by (simp add: find_workflow_def find_app)
    moreover have "env_new_v7 env (Suc (ticks w0)) \<notin> t_id ` set (tasks d1)"
      using fresh_uuidsD(2) [OF fresh, of "Suc (ticks w0)"] d1 by simp
    ultimately have "store w2 = d1\<lparr>tasks := tasks d1 @
        [new_task (q_now q2) (env_new_v7 env (Suc (ticks w0))) x (wo_ScheduledAt options)]\<rparr>"
      using tsk by (simp add: sql_insert_workflow_task_def)
    with d1 have "workflow_enqueued s name i key input options (store w0) (store w2)"
      unfolding workflow_enqueued_def
      by (intro conjI exI [of _ inp] exI [of _ "q_now q1"] exI [of _ x]
          exI [of _ "new_task (q_now q2) (env_new_v7 env (Suc (ticks w0))) x (wo_ScheduledAt options)"])
        (simp_all add: enc x_def pending_task_for_def new_task_def)
    with inserted show ?thesis by (intro that(2)) auto
  qed
qed

text \<open>A transaction whose function answers on its result.\<close>

lemma begin_func_result:
  assumes "begin_func_law env" and "env_begin_func env txer body w = (r, w1)"
    and "\<And>t w0 u w2. store w0 = store w \<Longrightarrow> ticks w \<le> ticks w0 \<Longrightarrow> body (InTx t) w0 = (Inr u, w2) \<Longrightarrow> P u (store w) (store w2)"
  shows "all_or_nothing (\<lambda>d d'. \<exists>u. P u d d') (store w) r (store w1) \<and> (\<forall>u. r = Inr u \<longrightarrow> P u (store w) (store w1))"
  using assms(1,2)
proof (cases rule: begin_func_cases)
  case (committed t w0 u w2)
  with assms(3) have "P u (store w) (store w1)" by metis
  with committed show ?thesis by (auto simp: all_or_nothing_def)
qed (simp add: all_or_nothing_def)

lemma InsertWorkflow_result:
  assumes law: "begin_func_law env" and fresh: "fresh_uuids env w" and i: "i \<notin> wf_ids (store w)"
    and run: "InsertWorkflow env s txer name i key input options w = (r, w')"
  defines "P \<equiv> (\<lambda>u d d'. (\<exists>x \<in> set (workflows d). w_idempotency_key x = key \<and> u = w_id x \<and> d' = d) \<or>
      key \<notin> w_idempotency_key ` set (workflows d) \<and> u = i \<and> workflow_enqueued s name i key input options d d')"
  shows "all_or_nothing (\<lambda>d d'. \<exists>u. P u d d') (store w) r (store w') \<and> (\<forall>u. r = Inr u \<longrightarrow> P u (store w) (store w'))"
proof -
  let ?body = "\<lambda>tx. bindE (wrapE ''insert workflow'' (insertWorkflow env s tx name i key input (wo_Priority options)
        (wo_MaxAttempts options) (wo_StuckTimeoutMillis options))) (\<lambda>u. bindE (NewV7 env) (\<lambda>taskID.
      bindE (wrapE ''insert workflow task'' (insertWorkflowTask env tx taskID i (wo_ScheduledAt options))) (\<lambda>_. ret u)))"
  obtain r1 where run1: "env_begin_func env txer ?body w = (r1, w')"
    and r: "(\<exists>u. r1 = Inr u) = (\<exists>u. r = Inr u)" "\<And>u. r = Inr u \<Longrightarrow> r1 = Inr u"
    using run unfolding InsertWorkflow_def by (auto simp: wrapE_def split: prod.splits sum.splits)
  have body: "P u (store w) (store w2)" if "store w0 = store w" "ticks w \<le> ticks w0" "?body (InTx t) w0 = (Inr u, w2)" for t w0 u w2
    using InsertWorkflow_body [OF fresh_uuids_later [OF fresh that(1,2)] _ that(3)] i
    unfolding P_def that(1) by blast
  have "all_or_nothing (\<lambda>d d'. \<exists>u. P u d d') (store w) r1 (store w') \<and> (\<forall>u. r1 = Inr u \<longrightarrow> P u (store w) (store w'))"
    by (rule begin_func_result [OF law run1]) (rule body)
  with r show ?thesis
    by (auto simp: all_or_nothing_def split: sum.splits)
qed

end
