(* ===== verification/Workflow_Context.thy ===== *)
theory Workflow_Context
  imports Storage
begin

text \<open>
  \<open>workflow_context.go\<close>: the calls a workflow handler makes. An activity or a signal that
  is in the events loaded at the start of the run resolves at once; an activity that is
  not is inserted and its future is pending; a signal that is not is pending.
\<close>

record ('d, 'v) workflow_context =
  ctx_workflowID :: uuid
  ctx_storage :: "('d, 'v) storage"
  ctx_history :: "'v events"
  ctx_signals :: "'v events"

definition NewWorkflowContext ::
    "uuid \<Rightarrow> ('d, 'v) storage \<Rightarrow> 'v events \<Rightarrow> 'v events \<Rightarrow> ('d, 'v) workflow_context" where
  "NewWorkflowContext i st history signalEvents =
     \<lparr>ctx_workflowID = i, ctx_storage = st, ctx_history = history, ctx_signals = signalEvents\<rparr>"

definition WorkflowID :: "('d, 'v) workflow_context \<Rightarrow> uuid" where
  "WorkflowID ctx = ctx_workflowID ctx"

definition ExecuteActivityAsync ::
    "('d, 'v) env \<Rightarrow> ('d, 'v) workflow_context \<Rightarrow> activity \<Rightarrow> 'v option \<Rightarrow>
     activity_option list \<Rightarrow> ('d, 'v future) io" where
  "ExecuteActivityAsync env ctx act input opts =
     bindE (defaultActivityOptionsFor env (activity_IdempotencyKey env act (ctx_workflowID ctx)))
     (\<lambda>default.
       let options = apply_opts opts default;
           idempotencyKey = ao_idempotencyKey options
       in case ctx_history ctx idempotencyKey of
            Some historyEvent \<Rightarrow> ret \<lparr>fut_event = Some historyEvent, fut_out = act_Out act\<rparr>
          | None \<Rightarrow>
              bindE (NewV7 env) (\<lambda>i.
              bindE (wrapE (''insert activity [name = '' @ act_Name act @ '']'')
                  (st_InsertActivity (ctx_storage ctx) (act_Name act) i idempotencyKey
                     (ctx_workflowID ctx) input options))
                (\<lambda>_. ret \<lparr>fut_event = None, fut_out = act_Out act\<rparr>)))"

definition ExecuteActivity ::
    "('d, 'v) env \<Rightarrow> ('d, 'v) workflow_context \<Rightarrow> activity \<Rightarrow> 'v option \<Rightarrow>
     activity_option list \<Rightarrow> ('d, 'v) io" where
  "ExecuteActivity env ctx act input opts =
     bindE (ExecuteActivityAsync env ctx act input opts) (\<lambda>future. liftE (Get future))"

definition ReceiveSignalAsync ::
    "('d, 'v) env \<Rightarrow> ('d, 'v) workflow_context \<Rightarrow> signal \<Rightarrow> signal_option list \<Rightarrow>
     ('d, 'v future) io" where
  "ReceiveSignalAsync env ctx sig opts =
     (let options = apply_opts opts (defaultSignalOptionsFor (signal_IdempotencyKey env sig (ctx_workflowID ctx)));
          idempotencyKey = so_idempotencyKey options
      in case ctx_signals ctx idempotencyKey of
           Some signalEvent \<Rightarrow> ret \<lparr>fut_event = Some signalEvent, fut_out = sig_In sig\<rparr>
         | None \<Rightarrow> ret \<lparr>fut_event = None, fut_out = sig_In sig\<rparr>)"

definition ReceiveSignal ::
    "('d, 'v) env \<Rightarrow> ('d, 'v) workflow_context \<Rightarrow> signal \<Rightarrow> signal_option list \<Rightarrow>
     ('d, 'v) io" where
  "ReceiveSignal env ctx sig opts =
     bindE (ReceiveSignalAsync env ctx sig opts) (\<lambda>future. liftE (Get future))"

section \<open>What the calls do\<close>

text \<open>The key that a call looks up, after its options, and what its activity is stored with.\<close>

definition activity_call_key ::
    "('d, 'v) env \<Rightarrow> ('d, 'v) workflow_context \<Rightarrow> activity \<Rightarrow> activity_option list \<Rightarrow>
     'd world \<Rightarrow> uuid" where
  "activity_call_key env ctx act opts w = ao_idempotencyKey (apply_opts opts
     \<lparr>ao_idempotencyKey = activity_IdempotencyKey env act (ctx_workflowID ctx), ao_priority = 0,
      ao_maxAttempts = 1, ao_stuckTimeout = Minute * 5, ao_scheduledAt = env_go_now env (ticks w)\<rparr>)"

definition activity_call_options ::
    "('d, 'v) env \<Rightarrow> ('d, 'v) workflow_context \<Rightarrow> activity \<Rightarrow> activity_option list \<Rightarrow>
     'd world \<Rightarrow> activity_options" where
  "activity_call_options env ctx act opts w = apply_opts opts
     \<lparr>ao_idempotencyKey = activity_IdempotencyKey env act (ctx_workflowID ctx), ao_priority = 0,
      ao_maxAttempts = 1, ao_stuckTimeout = Minute * 5, ao_scheduledAt = env_go_now env (ticks w)\<rparr>"

lemma ExecuteActivityAsync_history:
  "ctx_history ctx (activity_call_key env ctx act opts w) = Some e \<Longrightarrow>
     ExecuteActivityAsync env ctx act input opts w = (Inr \<lparr>fut_event = Some e, fut_out = act_Out act\<rparr>, w)"
  by (simp add: ExecuteActivityAsync_def activity_call_key_def defaultActivityOptionsFor_def bindE_def Let_def)

lemma ExecuteActivityAsync_pending:
  assumes "ctx_history ctx (activity_call_key env ctx act opts w) = None"
    and "ExecuteActivityAsync env ctx act input opts w = (Inr f, w')"
  shows "fut_event f = None"
  using assms
  by (auto simp: ExecuteActivityAsync_def activity_call_key_def defaultActivityOptionsFor_def bindE_ok Let_def
      bindE_def split: prod.splits sum.splits)

lemma ExecuteActivity_history:
  "ctx_history ctx (activity_call_key env ctx act opts w) = Some e \<Longrightarrow>
     ExecuteActivity env ctx act input opts w = (Get \<lparr>fut_event = Some e, fut_out = act_Out act\<rparr>, w)"
  by (simp add: ExecuteActivity_def bindE_Inr [OF ExecuteActivityAsync_history])

text \<open>A call that is not in the history never returns a value: it suspends, or its insert failed.\<close>

lemma ExecuteActivity_pending:
  assumes "ctx_history ctx (activity_call_key env ctx act opts w) = None"
    and "ExecuteActivity env ctx act input opts w = (r, w')"
  shows "\<exists>e. r = Inl e"
  using assms ExecuteActivityAsync_pending [OF assms(1)]
  by (auto simp: ExecuteActivity_def Get_def bindE_def split: prod.splits sum.splits option.splits)

context step_relation
begin

lemma keeps_defaultActivityOptionsFor [keeps_intros]: "keeps R (defaultActivityOptionsFor env k)"
  unfolding defaultActivityOptionsFor_def by (intro keeps_intros)

lemma keeps_ReceiveSignalAsync [keeps_intros]: "keeps R (ReceiveSignalAsync env ctx sig opts)"
  unfolding ReceiveSignalAsync_def Let_def by (auto intro: keeps_intros split: option.split)

lemma keeps_ReceiveSignal: "keeps R (ReceiveSignal env ctx sig opts)"
  unfolding ReceiveSignal_def by (intro keeps_intros)

text \<open>A call keeps what the insertion of its own row keeps, under the key its options leave.\<close>

lemma keeps_ExecuteActivityAsync_if:
  assumes ins: "\<And>i default o'. ao_idempotencyKey default = activity_IdempotencyKey env act (ctx_workflowID ctx) \<Longrightarrow>
      o' = apply_opts opts default \<Longrightarrow> ctx_history ctx (ao_idempotencyKey o') = None \<Longrightarrow>
      keeps R (st_InsertActivity (ctx_storage ctx) (act_Name act) i (ao_idempotencyKey o') (ctx_workflowID ctx) input o')"
  shows "keeps R (ExecuteActivityAsync env ctx act input opts)"
  unfolding ExecuteActivityAsync_def Let_def
proof (rule keeps_bindE_results)
  fix default w w'
  let ?o = "apply_opts opts default"
  assume "defaultActivityOptionsFor env (activity_IdempotencyKey env act (ctx_workflowID ctx)) w = (Inr default, w')"
  then have "ao_idempotencyKey default = activity_IdempotencyKey env act (ctx_workflowID ctx)"
    by (auto simp: defaultActivityOptionsFor_def bindE_ok)
  then have ins: "keeps R (st_InsertActivity (ctx_storage ctx) (act_Name act) i (ao_idempotencyKey ?o) (ctx_workflowID ctx) input ?o)"
    if "ctx_history ctx (ao_idempotencyKey ?o) = None" for i
    using that by (intro ins) simp_all
  show "keeps R (case ctx_history ctx (ao_idempotencyKey ?o) of
      Some historyEvent \<Rightarrow> ret \<lparr>fut_event = Some historyEvent, fut_out = act_Out act\<rparr>
    | None \<Rightarrow> bindE (NewV7 env) (\<lambda>i. bindE (wrapE (''insert activity [name = '' @ act_Name act @ '']'')
        (st_InsertActivity (ctx_storage ctx) (act_Name act) i (ao_idempotencyKey ?o) (ctx_workflowID ctx) input ?o))
        (\<lambda>_. ret \<lparr>fut_event = None, fut_out = act_Out act\<rparr>)))"
    by (cases "ctx_history ctx (ao_idempotencyKey ?o)") (simp_all add: keeps_intros ins)
qed (rule keeps_defaultActivityOptionsFor)

lemma keeps_ExecuteActivity_if:
  assumes "\<And>i default o'. ao_idempotencyKey default = activity_IdempotencyKey env act (ctx_workflowID ctx) \<Longrightarrow>
      o' = apply_opts opts default \<Longrightarrow> ctx_history ctx (ao_idempotencyKey o') = None \<Longrightarrow>
      keeps R (st_InsertActivity (ctx_storage ctx) (act_Name act) i (ao_idempotencyKey o') (ctx_workflowID ctx) input o')"
  shows "keeps R (ExecuteActivity env ctx act input opts)"
  unfolding ExecuteActivity_def by (intro keeps_bindE keeps_liftE keeps_ExecuteActivityAsync_if assms)

end

context kept_storage
begin

lemma keeps_ExecuteActivity:
  "lawful e \<Longrightarrow> ctx_storage ctx = mk e \<Longrightarrow> keeps R (ExecuteActivity env ctx act input opts)"
  by (rule keeps_ExecuteActivity_if) (simp add: insert)

end

end
