(* ===== verification/Workflow.thy ===== *)
theory Workflow
  imports Workflow_Context
begin

text \<open>
  \<open>workflow.go\<close>: the registry of workflow handlers, the run of a handler against the
  loaded events, and the two calls of the outside world, \<open>EnqueueWorkflow\<close> and
  \<open>SendSignal\<close>. A handler of the user is a function on the context and the decoded
  input.
\<close>

type_synonym ('d, 'v) workflow_fn = "('d, 'v) workflow_context \<Rightarrow> 'v \<Rightarrow> ('d, unit) io"

section \<open>Running a workflow\<close>

definition runWorkflow ::
    "('d, 'v) env \<Rightarrow> ('d, 'v) storage \<Rightarrow> uuid \<Rightarrow> 'v \<Rightarrow> ('d, 'v) workflow_fn \<Rightarrow> ('d, unit) io" where
  "runWorkflow env st i input handler =
     bindE (wrapE ''wait group'' (env_wait_group env
         (wrapE (''list history events for workflow [id = '' @ env_uuid_string env i @ '']'')
            (st_ListHistoryEventsForWorkflow st i))
         (wrapE (''list signals for workflow [id = '' @ env_uuid_string env i @ '']'')
            (st_ListWorkflowSignals st i))))
       (\<lambda>(history, signalEvents).
         tryE (handler (NewWorkflowContext i st history signalEvents) input)
           (\<lambda>err. if errors_Is_suspended err then ret () else throw err)
           (\<lambda>_. wrapE (''complete workflow [id = '' @ env_uuid_string env i @ '']'') (st_CompleteWorkflow st i)))"

section \<open>Registry\<close>

type_synonym ('d, 'v) workflow_handler = "('d, 'v) storage \<Rightarrow> 'v workflow_run \<Rightarrow> ('d, unit) io"

record ('d, 'v) workflow_handler_wrapper =
  wh_handler :: "('d, 'v) workflow_handler"
  wh_backoffCalculator :: "backoff_calculator option"

definition workflow_calculateBackoff :: "('d, 'v) workflow_handler_wrapper \<Rightarrow> uint \<Rightarrow> duration \<Rightarrow> duration" where
  "workflow_calculateBackoff h attempt defaultBackoff =
     (case wh_backoffCalculator h of None \<Rightarrow> defaultBackoff | Some calc \<Rightarrow> calc attempt)"

type_synonym ('d, 'v) workflow_handler_option = "('d, 'v) workflow_handler_wrapper \<Rightarrow> ('d, 'v) workflow_handler_wrapper"

definition WithWorkflowBackoffCalculator ::
    "backoff_calculator \<Rightarrow> ('d, 'v) workflow_handler_option" where
  "WithWorkflowBackoffCalculator calc h = h\<lparr>wh_backoffCalculator := Some calc\<rparr>"

type_synonym ('d, 'v) workflow_registry = "string \<Rightarrow> ('d, 'v) workflow_handler_wrapper option"

definition NewWorkflowRegistry :: "('d, 'v) workflow_registry" where
  "NewWorkflowRegistry = Map.empty"

definition RegisterWorkflow ::
    "('d, 'v) env \<Rightarrow> ('d, 'v) workflow_registry \<Rightarrow> workflow \<Rightarrow> ('d, 'v) workflow_fn \<Rightarrow>
     ('d, 'v) workflow_handler_option list \<Rightarrow> ('d, 'v) workflow_registry" where
  "RegisterWorkflow env r wflow handler opts =
     r(wf_Name wflow \<mapsto> apply_opts opts
       \<lparr>wh_handler = (\<lambda>st run.
           case wrun_IntoInput run (wf_In wflow) of
             Inl e \<Rightarrow> throw (Errorf (''decode workflow payload [id = '' @
                 env_uuid_string env (wrun_WorkflowID run) @ '']'') e)
           | Inr input \<Rightarrow> runWorkflow env st (wrun_WorkflowID run) input handler),
        wh_backoffCalculator = None\<rparr>)"

section \<open>Calls from outside\<close>

definition EnqueueWorkflow ::
    "('d, 'v) env \<Rightarrow> ('d, 'v) storage \<Rightarrow> tx_beginner \<Rightarrow> workflow \<Rightarrow> uuid \<Rightarrow> 'v option \<Rightarrow>
     workflow_option list \<Rightarrow> ('d, uuid) io" where
  "EnqueueWorkflow env st txer wflow idempotencyKey input opts =
     bindE (defaultWorkflowOptions env) (\<lambda>default.
     bindE (NewV7 env) (\<lambda>i.
       wrapE (''insert workflow [name = '' @ wf_Name wflow @ '']'')
         (st_InsertWorkflow st txer (wf_Name wflow) i idempotencyKey input (apply_opts opts default))))"

definition SendSignal ::
    "('d, 'v) env \<Rightarrow> ('d, 'v) storage \<Rightarrow> tx_beginner \<Rightarrow> uuid \<Rightarrow> signal \<Rightarrow> 'v option \<Rightarrow>
     signal_option list \<Rightarrow> ('d, unit) io" where
  "SendSignal env st txer workflowID sig input opts =
     (let options = apply_opts opts (defaultSignalOptionsFor (signal_IdempotencyKey env sig workflowID))
      in bindE (NewV7 env) (\<lambda>i.
           wrapE (''insert signal [name = '' @ sig_Name sig @ '', workflow id = '' @
               env_uuid_string env workflowID @ '']'')
             (st_InsertSignal st txer workflowID i (so_idempotencyKey options) (sig_Name sig) input)))"

section \<open>Lifting\<close>

text \<open>
  A handler that only calls the context keeps \<open>R\<close>; then its run does, whatever the
  outcome.
\<close>

context kept_frame
begin

lemma keeps_runWorkflow:
  assumes e: "lawful e" and law: "wait_group_law env"
    and h: "\<And>ctx v. ctx_storage ctx = mk e \<Longrightarrow> ctx_workflowID ctx = i \<Longrightarrow> keeps R (handler ctx v)"
  shows "keeps R (runWorkflow env (mk e) i input handler)"
proof -
  have "keeps R (tryE (handler (NewWorkflowContext i (mk e) hist sigs) input)
      (\<lambda>err. if errors_Is_suspended err then ret () else throw err)
      (\<lambda>_. wrapE label (st_CompleteWorkflow (mk e) i)))" for hist sigs label
  proof (rule keeps_tryE)
    show "keeps R (handler (NewWorkflowContext i (mk e) hist sigs) input)"
      by (rule h) (simp_all add: NewWorkflowContext_def)
    show "keeps R (if errors_Is_suspended err then ret () else throw err)" for err
      by (simp add: keeps_intros)
  qed (intro keeps_intros e)
  then show ?thesis
    unfolding runWorkflow_def by (intro keeps_intros e law) (auto split: prod.split)
qed

lemma keeps_EnqueueWorkflow:
  "lawful e \<Longrightarrow> keeps R (EnqueueWorkflow env (mk e) txer wflow key input opts)"
  unfolding EnqueueWorkflow_def defaultWorkflowOptions_def by (intro keeps_intros)

lemma keeps_SendSignal:
  "lawful e \<Longrightarrow> keeps R (SendSignal env (mk e) txer wid sig input opts)"
  unfolding SendSignal_def Let_def by (intro keeps_intros)

end

end
