(* ===== verification/Storage_Properties.thy ===== *)
theory Storage_Properties
  imports Storage_Specs Workflow
begin

text \<open>
  The contract of the PostgreSQL storage: every transaction happens as a whole or not at
  all, scheduling is idempotent, and what an activity or a signal left in the store is
  what a later run of the workflow reads.
\<close>

section \<open>The example world\<close>

lemma ref_uuids_fresh:
  assumes "\<forall>i \<in> wf_ids (store w) \<union> t_id ` set (tasks (store w)) \<union> a_id ` set (activities (store w)) \<union>
    s_id ` set (signals (store w)). \<not> bit i 10"
  shows "fresh_uuids ref_env w"
proof -
  have "bit (env_new_v7 ref_env n) 10" for n by (simp add: bit_simps)
  with assms show ?thesis unfolding fresh_uuids_def by metis
qed

lemma ref_world_store [simp]: "store ref_world = ref_db" "ticks ref_world = 10"
  by (simp_all add: ref_world_def)

lemma ref_world_fresh: "fresh_uuids ref_env ref_world"
  by (rule ref_uuids_fresh)
    (simp add: ref_db_def wf_ids_def ref_workflow_def new_workflow_def new_task_def ref_activity_def new_activity_def)

lemma ref_db_workflow: "1 \<in> wf_ids ref_db"
  by (simp add: ref_db_def wf_ids_def ref_workflow_def new_workflow_def)

section \<open>Completing an activity\<close>

text \<open>
  C9: completing an activity is atomic. When it answers, exactly that activity's row
  became completed with the encoded output and no error, and exactly one pending task that
  resumes the workflow was added; when it reports an error, nothing changed, or all of
  that happened and the acknowledgement was lost.
\<close>

theorem CompleteActivity_atomic:
  assumes "begin_func_law env" and "fresh_uuids env w" and "wid \<in> wf_ids (store w)"
    and "CompleteActivity env s i wid output w = (r, w')"
  shows "all_or_nothing (activity_completed s i wid output) (store w) r (store w')"
  by (rule tx_all_or_nothing [OF assms(1) assms(4) [unfolded CompleteActivity_def]])
    (rule CompleteActivity_body [OF fresh_uuids_later [OF assms(2)]], simp_all add: assms(3))

lemma CompleteActivity_runs: "fst (CompleteActivity ref_env ref_pg 3 1 (Some ''paid'') ref_world) = Inr ()"
  by code_simp

lemma CompleteActivity_atomic_witness:
  "activity_completed ref_pg 3 1 (Some ''paid'') ref_db
     (store (snd (CompleteActivity ref_env ref_pg 3 1 (Some ''paid'') ref_world)))"
  using CompleteActivity_atomic [OF ref_begin_func_law, of ref_world 1 ref_pg 3 "Some ''paid''"
      "Inr ()" "snd (CompleteActivity ref_env ref_pg 3 1 (Some ''paid'') ref_world)"]
    CompleteActivity_runs ref_world_fresh ref_db_workflow
  by (simp add: all_or_nothing_def prod_eq_iff)


section \<open>Signals\<close>

text \<open>The key a signal is sent with, and what \<open>SendSignal\<close> calls.\<close>

definition signal_send_key ::
    "('d, 'v) env \<Rightarrow> uuid \<Rightarrow> signal \<Rightarrow> signal_option list \<Rightarrow> uuid" where
  "signal_send_key env wid sig opts =
     so_idempotencyKey (apply_opts opts (defaultSignalOptionsFor (signal_IdempotencyKey env sig wid)))"

lemma all_or_nothing_iff:
  "all_or_nothing P d r1 d' \<Longrightarrow> (\<exists>x. r1 = Inr x) = (\<exists>x. r = Inr x) \<Longrightarrow> all_or_nothing P d r d'"
  by (auto simp: all_or_nothing_def split: sum.splits)

lemma SendSignal_tx:
  assumes law: "begin_func_law env"
    and run: "SendSignal env (postgres env s) txer wid sig input opts w = (r, w')"
    and body: "\<And>t w0 u w2. store w0 = store w \<Longrightarrow> ticks w \<le> ticks w0 \<Longrightarrow>
      bindE (wrapE ''insert signal'' (insertSignal env s (InTx t) wid (env_new_v7 env (ticks w))
          (signal_send_key env wid sig opts) (sig_Name sig) input)) (\<lambda>_. bindE (NewV7 env) (\<lambda>taskID.
        bindE (time_Now env) (\<lambda>now. bindE (wrapE ''insert workflow task''
          (insertWorkflowTask env (InTx t) taskID wid now)) (\<lambda>_. ret uuid_Nil)))) w0 = (Inr u, w2) \<Longrightarrow>
      P (store w0) (store w2)"
  shows "all_or_nothing P (store w) r (store w')"
proof -
  let ?w = "w\<lparr>ticks := Suc (ticks w)\<rparr>"
  obtain r1 where run1: "InsertSignal env s txer wid (env_new_v7 env (ticks w)) (signal_send_key env wid sig opts)
      (sig_Name sig) input ?w = (r1, w')" and iff: "(\<exists>x. r1 = Inr x) = (\<exists>x. r = Inr x)"
    using run by (auto simp: SendSignal_def signal_send_key_def Let_def bindE_def wrapE_def split: prod.splits sum.splits)
  have "all_or_nothing P (store ?w) r1 (store w')"
    by (rule tx_all_or_nothing [OF law run1 [unfolded InsertSignal_def]]) (rule body, simp_all)
  with iff show ?thesis by (auto intro: all_or_nothing_iff)
qed

text \<open>
  C10: sending a signal is atomic, on the storage's pool as on the caller's transaction.
  When it answers, exactly one signal row with a key that was not in use and exactly one
  pending task for its workflow were added; an error means that neither or both were.
\<close>

theorem SendSignal_atomic:
  assumes "begin_func_law env" and "fresh_uuids env w"
    and "SendSignal env (postgres env s) txer wid sig input opts w = (r, w')"
  shows "all_or_nothing (signal_received s wid (env_new_v7 env (ticks w)) (signal_send_key env wid sig opts)
    (sig_Name sig) input) (store w) r (store w')"
  by (rule SendSignal_tx [OF assms(1,3)]) (rule InsertSignal_body [OF fresh_uuids_later [OF assms(2)]])

definition ref_signal :: signal where
  "ref_signal = NewSignal ''paid'' ''string''"

lemma SendSignal_runs:
  "fst (SendSignal ref_env (postgres ref_env ref_pg) (CallerTx 0) 1 ref_signal (Some ''42'') [] ref_world) = Inr ()"
  by code_simp

lemma SendSignal_atomic_witness:
  "signal_received ref_pg 1 (env_new_v7 ref_env 10) (signal_send_key ref_env 1 ref_signal []) (sig_Name ref_signal)
     (Some ''42'') ref_db
     (store (snd (SendSignal ref_env (postgres ref_env ref_pg) (CallerTx 0) 1 ref_signal (Some ''42'') [] ref_world)))"
  using SendSignal_atomic [OF ref_begin_func_law ref_world_fresh, of ref_pg "CallerTx 0" 1 ref_signal "Some ''42''" "[]"
      "Inr ()" "snd (SendSignal ref_env (postgres ref_env ref_pg) (CallerTx 0) 1 ref_signal (Some ''42'') [] ref_world)"]
    SendSignal_runs
  by (simp add: all_or_nothing_def prod_eq_iff)

text \<open>
  C36: a second signal with a key that is in use is refused with an error, and changes
  nothing (\<open>README.md\<close> says that duplicate signal submissions are silently ignored).
\<close>

theorem SendSignal_duplicate:
  assumes "begin_func_law env"
    and dup: "signal_send_key env wid sig opts \<in> s_idempotency_key ` set (signals (store w))"
    and "SendSignal env (postgres env s) txer wid sig input opts w = (r, w')"
  shows "(\<exists>e. r = Inl e) \<and> store w' = store w"
proof -
  have "all_or_nothing (\<lambda>d d'. signal_send_key env wid sig opts \<notin> s_idempotency_key ` set (signals d))
      (store w) r (store w')"
    by (rule SendSignal_tx [OF assms(1,3)]) (auto simp: bindE_ok insertSignal_def exec_ok sql_insert_signal_ok)
  with dup show ?thesis by (cases r) (auto simp: all_or_nothing_def)
qed

definition ref_signal_world :: "db world" where
  "ref_signal_world = ref_world\<lparr>store := ref_db\<lparr>signals :=
     [new_signal 7 4 (signal_send_key ref_env 1 ref_signal []) 1 ''paid'' None]\<rparr>\<rparr>"

lemma SendSignal_duplicate_witness:
  "\<exists>e. fst (SendSignal ref_env (postgres ref_env ref_pg) StorageDb 1 ref_signal None [] ref_signal_world) = Inl e"
  using SendSignal_duplicate [OF ref_begin_func_law, of 1 ref_signal "[]" ref_signal_world ref_pg StorageDb None
      "fst (SendSignal ref_env (postgres ref_env ref_pg) StorageDb 1 ref_signal None [] ref_signal_world)"
      "snd (SendSignal ref_env (postgres ref_env ref_pg) StorageDb 1 ref_signal None [] ref_signal_world)"]
  by (simp add: ref_signal_world_def new_signal_def)

section \<open>Enqueueing a workflow\<close>

definition enqueue_options ::
    "('d, 'v) env \<Rightarrow> workflow_option list \<Rightarrow> 'd world \<Rightarrow> workflow_options" where
  "enqueue_options env opts w = apply_opts opts
     \<lparr>wo_priority = 0, wo_maxAttempts = 1, wo_stuckTimeout = Minute * 5, wo_scheduledAt = env_go_now env (ticks w)\<rparr>"

lemma EnqueueWorkflow_calls:
  assumes "EnqueueWorkflow env (postgres env s) txer wflow key input opts w = (r, w')"
  obtains r1 where "InsertWorkflow env s txer (wf_Name wflow) (env_new_v7 env (ticks w)) key input
      (enqueue_options env opts w) (w\<lparr>ticks := Suc (ticks w)\<rparr>) = (r1, w')"
    "\<And>u. (r1 = Inr u) = (r = Inr u)"
  using assms
  by (auto simp: EnqueueWorkflow_def enqueue_options_def defaultWorkflowOptions_def bindE_def wrapE_def
      split: prod.splits sum.splits)

text \<open>What an enqueue does, by cases on the key, in the form the two properties use.\<close>

lemma EnqueueWorkflow_result:
  assumes "begin_func_law env" and "fresh_uuids env w"
    and "EnqueueWorkflow env (postgres env s) txer wflow key input opts w = (r, w')"
  defines "P \<equiv> (\<lambda>u d d'. (\<exists>x \<in> set (workflows d). w_idempotency_key x = key \<and> u = w_id x \<and> d' = d) \<or>
      key \<notin> w_idempotency_key ` set (workflows d) \<and> u = env_new_v7 env (ticks w) \<and>
      workflow_enqueued s (wf_Name wflow) u key input (enqueue_options env opts w) d d')"
  shows "all_or_nothing (\<lambda>d d'. \<exists>u. P u d d') (store w) r (store w') \<and> (\<forall>u. r = Inr u \<longrightarrow> P u (store w) (store w'))"
  using assms(3)
proof (rule EnqueueWorkflow_calls)
  fix r1
  let ?w = "w\<lparr>ticks := Suc (ticks w)\<rparr>"
  assume run: "InsertWorkflow env s txer (wf_Name wflow) (env_new_v7 env (ticks w)) key input
      (enqueue_options env opts w) ?w = (r1, w')" and iff: "\<And>u. (r1 = Inr u) = (r = Inr u)"
  have fresh: "fresh_uuids env ?w" by (rule fresh_uuids_later [OF assms(2)]) simp_all
  have new: "env_new_v7 env (ticks w) \<notin> wf_ids (store ?w)" using fresh_uuidsD(1) [OF assms(2)] by simp
  from InsertWorkflow_result [OF assms(1) fresh new run] iff
  show ?thesis unfolding P_def by (auto simp: all_or_nothing_def split: sum.splits)
qed

text \<open>
  Enqueueing is idempotent. When a workflow with the key exists, nothing changes,
  whatever the call reports, and the id it answers with is the id of that workflow.
\<close>

lemma EnqueueWorkflow_existing:
  assumes "begin_func_law env" and "fresh_uuids env w" and keys: "keys_ok (store w)"
    and x: "x \<in> set (workflows (store w))" "w_idempotency_key x = key"
    and "EnqueueWorkflow env (postgres env s) txer wflow key input opts w = (r, w')"
  shows "store w' = store w \<and> (\<forall>u. r = Inr u \<longrightarrow> u = w_id x)"
proof -
  have "y = x" if "y \<in> set (workflows (store w))" "w_idempotency_key y = key" for y
    using keys x that unfolding keys_ok_def by (blast dest: distinct_map_inj)
  then have only: "u = w_id x \<and> d' = store w"
    if "(\<exists>y \<in> set (workflows (store w)). w_idempotency_key y = key \<and> u = w_id y \<and> d' = store w) \<or>
      key \<notin> w_idempotency_key ` set (workflows (store w)) \<and> Q" for u d' Q
    using that x by blast
  note result = EnqueueWorkflow_result [OF assms(1,2,6)]
  show ?thesis
  proof (cases r)
    case (Inl e)
    with result have "store w' = store w"
      unfolding all_or_nothing_def using only by (simp only: sum.case) blast
    with Inl show ?thesis by simp
  next
    case (Inr u)
    with result have "u = w_id x \<and> store w' = store w" by (intro only) blast
    with Inr show ?thesis by simp
  qed
qed

definition ref_wflow :: workflow where
  "ref_wflow = NewWorkflow ''order'' ''string''"

text \<open>
  With a key that is not in use, enqueueing is atomic. When it answers, it answers with
  the generated id, and exactly one running workflow with that id and key, with the
  configuration of the options, and one pending task that starts it were added; an error
  means that neither or both were.
\<close>

lemma EnqueueWorkflow_new:
  assumes "begin_func_law env" and "fresh_uuids env w"
    and "key \<notin> w_idempotency_key ` set (workflows (store w))"
    and "EnqueueWorkflow env (postgres env s) txer wflow key input opts w = (r, w')"
  shows "all_or_nothing (workflow_enqueued s (wf_Name wflow) (env_new_v7 env (ticks w)) key input
      (enqueue_options env opts w)) (store w) r (store w') \<and> (\<forall>u. r = Inr u \<longrightarrow> u = env_new_v7 env (ticks w))"
  using EnqueueWorkflow_result [OF assms(1,2,4)] assms(3)
  by (auto simp: all_or_nothing_def split: sum.splits)

text \<open>
  C11: enqueueing is an upsert by its key. When a workflow with the key exists, nothing changes,
  whatever the call reports, and the id it answers with is the id of that workflow. With a key that is
  not in use it answers with the generated id, and exactly one running workflow with
  that id and key, with the configuration of the options, and one pending task that starts it were
  added; an error means that neither or both were.
\<close>

theorem EnqueueWorkflow_upserts:
  assumes "begin_func_law env" and "fresh_uuids env w" and "keys_ok (store w)"
    and "EnqueueWorkflow env (postgres env s) txer wflow key input opts w = (r, w')"
  shows "(\<forall>x \<in> set (workflows (store w)). w_idempotency_key x = key \<longrightarrow>
      store w' = store w \<and> (\<forall>u. r = Inr u \<longrightarrow> u = w_id x)) \<and>
    (key \<notin> w_idempotency_key ` set (workflows (store w)) \<longrightarrow>
      all_or_nothing (workflow_enqueued s (wf_Name wflow) (env_new_v7 env (ticks w)) key input
        (enqueue_options env opts w)) (store w) r (store w') \<and> (\<forall>u. r = Inr u \<longrightarrow> u = env_new_v7 env (ticks w)))"
  using EnqueueWorkflow_existing [OF assms(1-3) _ _ assms(4)] EnqueueWorkflow_new [OF assms(1,2) _ assms(4)] by blast

definition ref_enqueued :: "uuid \<Rightarrow> (error + uuid) \<times> db world" where
  "ref_enqueued key = EnqueueWorkflow ref_env (postgres ref_env ref_pg) StorageDb ref_wflow key (Some ''x'') [] ref_world"

lemma ref_enqueued_new: "fst (ref_enqueued 12) = Inr 1034"
  unfolding ref_enqueued_def by code_simp

lemma EnqueueWorkflow_upserts_witness:
  "store (snd (ref_enqueued 11)) = ref_db \<and>
   workflow_enqueued ref_pg (wf_Name ref_wflow) (env_new_v7 ref_env 10) 12 (Some ''x'')
     (enqueue_options ref_env [] ref_world) ref_db (store (snd (ref_enqueued 12)))"
proof
  have keys: "keys_ok (store ref_world)" using valid_dbD(1) [OF ref_db_valid] by simp
  note upserts = EnqueueWorkflow_upserts [OF ref_begin_func_law ref_world_fresh keys
      surjective_pairing [of "EnqueueWorkflow ref_env (postgres ref_env ref_pg) StorageDb ref_wflow key (Some ''x'') [] ref_world" for key]]
  show "store (snd (ref_enqueued 11)) = ref_db"
    using upserts [of 11] by (simp add: ref_enqueued_def ref_db_def ref_workflow_def new_workflow_def)
  show "workflow_enqueued ref_pg (wf_Name ref_wflow) (env_new_v7 ref_env 10) 12 (Some ''x'')
     (enqueue_options ref_env [] ref_world) ref_db (store (snd (ref_enqueued 12)))"
    using upserts [of 12] ref_enqueued_new
    by (simp add: ref_enqueued_def all_or_nothing_def ref_db_def ref_workflow_def new_workflow_def)
qed

end
