(* ===== verification/Workers.thy ===== *)
theory Workers
  imports Workflow
begin

text \<open>
  What a worker does with one claimed task: \<open>activity.go\<close>'s registry, and the handling,
  retry and cleanup functions of \<open>workflow_worker.go\<close> and \<open>activity_worker.go\<close>. The
  handler of an activity is a function on the decoded input whose effect on the store,
  if it has one, is through the engine's own calls.
\<close>

section \<open>Activity handlers\<close>

type_synonym ('d, 'v) activity_fn = "'v \<Rightarrow> ('d, 'v option) io"

type_synonym ('d, 'v) activity_handler = "'v activity_run \<Rightarrow> ('d, 'v option) io"

record ('d, 'v) activity_handler_wrapper =
  ah_handler :: "('d, 'v) activity_handler"
  ah_backoffCalculator :: "backoff_calculator option"

definition activity_calculateBackoff :: "('d, 'v) activity_handler_wrapper \<Rightarrow> uint \<Rightarrow> duration \<Rightarrow> duration" where
  "activity_calculateBackoff h attempt defaultBackoff =
     (case ah_backoffCalculator h of None \<Rightarrow> defaultBackoff | Some calc \<Rightarrow> calc attempt)"

type_synonym ('d, 'v) activity_handler_option = "('d, 'v) activity_handler_wrapper \<Rightarrow> ('d, 'v) activity_handler_wrapper"

definition WithActivityBackoffCalculator ::
    "backoff_calculator \<Rightarrow> ('d, 'v) activity_handler_option" where
  "WithActivityBackoffCalculator calc h = h\<lparr>ah_backoffCalculator := Some calc\<rparr>"

type_synonym ('d, 'v) activity_registry = "string \<Rightarrow> ('d, 'v) activity_handler_wrapper option"

definition NewActivityRegistry :: "('d, 'v) activity_registry" where
  "NewActivityRegistry = Map.empty"

definition RegisterActivity ::
    "('d, 'v) env \<Rightarrow> ('d, 'v) activity_registry \<Rightarrow> activity \<Rightarrow> ('d, 'v) activity_fn \<Rightarrow>
     ('d, 'v) activity_handler_option list \<Rightarrow> ('d, 'v) activity_registry" where
  "RegisterActivity env r act handler opts =
     r(act_Name act \<mapsto> apply_opts opts
       \<lparr>ah_handler = (\<lambda>run.
           case arun_IntoInput run (act_In act) of
             Inl e \<Rightarrow> throw (Errorf (''decode activity payload [id = '' @
                 env_uuid_string env (arun_ActivityID run) @ '']'') e)
           | Inr input \<Rightarrow> handler input),
        ah_backoffCalculator = None\<rparr>)"

section \<open>Workflow tasks\<close>

definition ToWorkflowRun :: "workflow_task_record \<Rightarrow> 'v decoder \<Rightarrow> 'v workflow_run" where
  "ToWorkflowRun t decoder = NewWorkflowRun (wr_ID (tr_Workflow t)) (wr_Input (tr_Workflow t)) decoder"

definition worker_completeWorkflowTask :: "('d, 'v) storage \<Rightarrow> workflow_task_record \<Rightarrow> ('d, unit) io" where
  "worker_completeWorkflowTask st task =
     wrapE ''complete workflow task in storage''
       (st_CompleteWorkflowTask st (tr_ID task) (wr_ID (tr_Workflow task)))"

definition worker_failWorkflowTask ::
    "('d, 'v) storage \<Rightarrow> workflow_task_record \<Rightarrow> error \<Rightarrow> ('d, unit) io" where
  "worker_failWorkflowTask st task err =
     wrapE ''fail workflow task in storage''
       (st_FailWorkflowTask st (tr_ID task) (wr_ID (tr_Workflow task)) (Error err))"

definition handleWorkflowTaskError ::
    "('d, 'v) env \<Rightarrow> ('d, 'v) storage \<Rightarrow> worker_config \<Rightarrow> ('d, 'v) workflow_handler_wrapper \<Rightarrow>
     workflow_task_record \<Rightarrow> error \<Rightarrow> ('d, unit) io" where
  "handleWorkflowTaskError env st config handler task err =
     (if IsUnrecoverable err \<or> wr_Attempts (tr_Workflow task) \<ge> wr_MaxAttempts (tr_Workflow task)
      then worker_failWorkflowTask st task err
      else let backoff = workflow_calculateBackoff handler (wr_Attempts (tr_Workflow task))
                           (DefaultBackoff (Processing config))
           in bindE (time_Now env) (\<lambda>now.
                wrapE ''reschedule workflow task in storage''
                  (st_ReScheduleWorkflowTask st (tr_ID task) (wr_ID (tr_Workflow task))
                     (time_Add now backoff) (Error err))))"

text \<open>The wrapper that stands in for a missing handler: it is never called.\<close>

definition empty_workflow_wrapper :: "('d, 'v) workflow_handler_wrapper" where
  "empty_workflow_wrapper = \<lparr>wh_handler = (\<lambda>st run. ret ()), wh_backoffCalculator = None\<rparr>"

definition handleWorkflowTask ::
    "('d, 'v) env \<Rightarrow> ('d, 'v) storage \<Rightarrow> worker_config \<Rightarrow> ('d, 'v) workflow_registry \<Rightarrow>
     workflow_task_record \<Rightarrow> ('d, unit) io" where
  "handleWorkflowTask env st config registry task =
     (case registry (wr_Name (tr_Workflow task)) of
        None \<Rightarrow>
          handleWorkflowTaskError env st config empty_workflow_wrapper task
            (ErrorString (''no handler registered for workflow '' @ [CHR 0x27] @
               wr_Name (tr_Workflow task) @ [CHR 0x27]))
      | Some handler \<Rightarrow>
          tryE (wh_handler handler st (ToWorkflowRun task (st_Decoder st)))
            (\<lambda>err. handleWorkflowTaskError env st config handler task err)
            (\<lambda>_. worker_completeWorkflowTask st task))"

section \<open>Activities\<close>

definition ToActivityRun :: "activity_record \<Rightarrow> 'v decoder \<Rightarrow> 'v activity_run" where
  "ToActivityRun a decoder = NewActivityRun (ar_ID a) (ar_Input a) decoder"

definition worker_completeActivity ::
    "('d, 'v) storage \<Rightarrow> activity_record \<Rightarrow> 'v option \<Rightarrow> ('d, unit) io" where
  "worker_completeActivity st a out =
     wrapE ''complete activity in storage'' (st_CompleteActivity st (ar_ID a) (ar_WorkflowID a) out)"

definition worker_failActivity :: "('d, 'v) storage \<Rightarrow> activity_record \<Rightarrow> error \<Rightarrow> ('d, unit) io" where
  "worker_failActivity st a err =
     wrapE ''fail activity in storage'' (st_FailActivity st (ar_ID a) (ar_WorkflowID a) (Error err))"

definition handleActivityError ::
    "('d, 'v) env \<Rightarrow> ('d, 'v) storage \<Rightarrow> worker_config \<Rightarrow> ('d, 'v) activity_handler_wrapper \<Rightarrow>
     activity_record \<Rightarrow> error \<Rightarrow> ('d, unit) io" where
  "handleActivityError env st config handler a err =
     (if IsUnrecoverable err \<or> ar_Attempts a \<ge> ar_MaxAttempts a
      then worker_failActivity st a err
      else let backoff = activity_calculateBackoff handler (ar_Attempts a) (DefaultBackoff (Processing config))
           in bindE (time_Now env) (\<lambda>now.
                wrapE ''reschedule activity in storage''
                  (st_ReScheduleActivity st (ar_ID a) (time_Add now backoff) (Error err))))"

definition empty_activity_wrapper :: "('d, 'v) activity_handler_wrapper" where
  "empty_activity_wrapper = \<lparr>ah_handler = (\<lambda>run. ret None), ah_backoffCalculator = None\<rparr>"

definition handleActivity ::
    "('d, 'v) env \<Rightarrow> ('d, 'v) storage \<Rightarrow> worker_config \<Rightarrow> ('d, 'v) activity_registry \<Rightarrow>
     activity_record \<Rightarrow> ('d, unit) io" where
  "handleActivity env st config registry a =
     (case registry (ar_Name a) of
        None \<Rightarrow>
          handleActivityError env st config empty_activity_wrapper a
            (ErrorString (''no handler registered for activity '' @ [CHR 0x27] @ ar_Name a @ [CHR 0x27]))
      | Some handler \<Rightarrow>
          tryE (ah_handler handler (ToActivityRun a (st_Decoder st)))
            (\<lambda>err. handleActivityError env st config handler a err)
            (\<lambda>out. worker_completeActivity st a out))"

section \<open>Cleanup\<close>

definition CleanColdWorkflows :: "('d, 'v) env \<Rightarrow> ('d, 'v) storage \<Rightarrow> worker_config \<Rightarrow> ('d, unit) io" where
  "CleanColdWorkflows env st config =
     (if sint (RetentionInterval (ColdCleanup config)) \<le> 0 then ret ()
      else bindE (time_Now env) (\<lambda>now.
           bindE (wrapE ''delete cold workflows in storage''
               (st_DeleteColdWorkflows st (time_Add now (- RetentionInterval (ColdCleanup config)))
                  (CleanupBatchSize (ColdCleanup config))))
             (\<lambda>_. ret ())))"

definition CleanDeadWorkflows :: "('d, 'v) env \<Rightarrow> ('d, 'v) storage \<Rightarrow> worker_config \<Rightarrow> ('d, unit) io" where
  "CleanDeadWorkflows env st config =
     (if sint (RetentionInterval (DeadCleanup config)) \<le> 0 then ret ()
      else bindE (time_Now env) (\<lambda>now.
           bindE (wrapE ''delete dead workflows in storage''
               (st_DeleteDeadWorkflows st (time_Add now (- RetentionInterval (DeadCleanup config)))
                  (CleanupBatchSize (DeadCleanup config))))
             (\<lambda>_. ret ())))"

section \<open>Lifting\<close>

context kept_frame
begin

lemma keeps_handleWorkflowTaskError [keeps_intros]:
  assumes "lawful e"
  shows "keeps R (handleWorkflowTaskError env (mk e) config handler task err)"
proof (cases "IsUnrecoverable err \<or> wr_Attempts (tr_Workflow task) \<ge> wr_MaxAttempts (tr_Workflow task)")
  case True
  with assms show ?thesis
    by (simp add: handleWorkflowTaskError_def worker_failWorkflowTask_def keeps_intros)
next
  case False
  have "keeps R (bindE (time_Now env) (\<lambda>now. wrapE l (st_ReScheduleWorkflowTask (mk e) i wid (f now) m)))" for l i wid f m
    by (intro keeps_intros assms)
  with False show ?thesis by (simp add: handleWorkflowTaskError_def Let_def)
qed

lemma keeps_handleActivityError [keeps_intros]:
  assumes "lawful e"
  shows "keeps R (handleActivityError env (mk e) config handler a err)"
proof (cases "IsUnrecoverable err \<or> ar_Attempts a \<ge> ar_MaxAttempts a")
  case True
  with assms show ?thesis by (simp add: handleActivityError_def worker_failActivity_def keeps_intros)
next
  case False
  have "keeps R (bindE (time_Now env) (\<lambda>now. wrapE l (st_ReScheduleActivity (mk e) i (f now) m)))" for l i f m
    by (intro keeps_intros assms)
  with False show ?thesis by (simp add: handleActivityError_def Let_def)
qed

text \<open>A task whose handler keeps \<open>R\<close>: it acts on the store through the engine only.\<close>

lemma keeps_handleWorkflowTask:
  assumes e: "lawful e"
    and reg: "\<And>h. registry (wr_Name (tr_Workflow task)) = Some h \<Longrightarrow>
      keeps R (wh_handler h (mk e) (ToWorkflowRun task (st_Decoder (mk e))))"
  shows "keeps R (handleWorkflowTask env (mk e) config registry task)"
proof (cases "registry (wr_Name (tr_Workflow task))")
  case None
  then show ?thesis unfolding handleWorkflowTask_def by (simp add: keeps_handleWorkflowTaskError e)
next
  case (Some h)
  have "keeps R (tryE (wh_handler h (mk e) (ToWorkflowRun task (st_Decoder (mk e))))
      (\<lambda>err. handleWorkflowTaskError env (mk e) config h task err) (\<lambda>_. worker_completeWorkflowTask (mk e) task))"
    unfolding worker_completeWorkflowTask_def by (intro keeps_intros e reg [OF Some])
  with Some show ?thesis unfolding handleWorkflowTask_def by simp
qed

text \<open>An activity whose handler keeps \<open>R\<close> and whose completion does with the outputs of its handler.\<close>

lemma keeps_handleActivity_if:
  assumes e: "lawful e"
    and reg: "\<And>h. registry (ar_Name a) = Some h \<Longrightarrow> keeps R (ah_handler h (ToActivityRun a (st_Decoder (mk e))))"
    and out: "\<And>h out w w'. registry (ar_Name a) = Some h \<Longrightarrow>
      ah_handler h (ToActivityRun a (st_Decoder (mk e))) w = (Inr out, w') \<Longrightarrow>
      keeps R (st_CompleteActivity (mk e) (ar_ID a) (ar_WorkflowID a) out)"
  shows "keeps R (handleActivity env (mk e) config registry a)"
proof (cases "registry (ar_Name a)")
  case None
  then show ?thesis unfolding handleActivity_def by (simp add: keeps_handleActivityError e)
next
  case (Some h)
  have "keeps R (tryE (ah_handler h (ToActivityRun a (st_Decoder (mk e))))
      (\<lambda>err. handleActivityError env (mk e) config h a err) (\<lambda>out. worker_completeActivity (mk e) a out))"
    unfolding worker_completeActivity_def
    by (rule keeps_tryE_results) (auto intro: keeps_intros e reg [OF Some] out [OF Some])
  with Some show ?thesis unfolding handleActivity_def by simp
qed

end

context kept_calls
begin

lemma keeps_handleActivity:
  assumes "lawful e"
    and "\<And>h. registry (ar_Name a) = Some h \<Longrightarrow> keeps R (ah_handler h (ToActivityRun a (st_Decoder (mk e))))"
  shows "keeps R (handleActivity env (mk e) config registry a)"
  by (rule keeps_handleActivity_if [OF assms(1)]) (simp_all add: assms complete)

end

end
