(* ===== verification/Replay.thy ===== *)
theory Replay
  imports Storage_Specs Workers
begin

text \<open>
  What a run of a workflow reads back: the events loaded from the store, the calls of the
  workflow context on them, the outcome of a run, and the retry policy of the workers.
\<close>

section \<open>Loaded events\<close>

lemma distinct_map_filter_sort:
  "distinct (map k xs) \<Longrightarrow> distinct (map k (sort_key f (filter p xs)))"
  by (simp add: distinct_map_filter)

lemma history_lookup:
  assumes "keys_ok d" and "sql_list_history wid q d = Inr (rows, d')"
  shows "events_of_rows dec rows k = Some e \<longleftrightarrow>
    (\<exists>a \<in> set (activities d). a_workflow_id a = wid \<and> a_status a = ActivityCompleted \<and>
       a_idempotency_key a = k \<and> e = NewEvent k (a_output a) dec)"
proof -
  let ?as = "sort_key a_id (filter (\<lambda>a. a_workflow_id a = wid \<and> a_status a = ActivityCompleted) (activities d))"
  have rows: "rows = map (\<lambda>a. (a_idempotency_key a, a_output a)) ?as"
    using assms(2) by (auto simp: sql_list_history_def)
  have "distinct (map a_idempotency_key ?as)"
    using assms(1) by (intro distinct_map_filter_sort) (simp add: keys_ok_def)
  then have "distinct (map fst rows)" by (simp add: rows comp_def)
  then have "events_of_rows dec rows k = Some e \<longleftrightarrow> (\<exists>b. (k, b) \<in> set rows \<and> e = NewEvent k b dec)"
    by (auto dest: events_of_rows_Some events_of_rows_distinct)
  then show ?thesis by (auto simp: rows)
qed

lemma signals_lookup:
  assumes "keys_ok d" and "sql_list_signals wid q d = Inr (rows, d')"
  shows "events_of_rows dec rows k = Some e \<longleftrightarrow>
    (\<exists>x \<in> set (signals d). s_workflow_id x = wid \<and> s_idempotency_key x = k \<and> e = NewEvent k (s_input x) dec)"
proof -
  let ?ss = "sort_key s_id (filter (\<lambda>x. s_workflow_id x = wid) (signals d))"
  have rows: "rows = map (\<lambda>x. (s_idempotency_key x, s_input x)) ?ss"
    using assms(2) by (auto simp: sql_list_signals_def)
  have "distinct (map s_idempotency_key ?ss)"
    using assms(1) by (intro distinct_map_filter_sort) (simp add: keys_ok_def)
  then have "distinct (map fst rows)" by (simp add: rows comp_def)
  then have "events_of_rows dec rows k = Some e \<longleftrightarrow> (\<exists>b. (k, b) \<in> set rows \<and> e = NewEvent k b dec)"
    by (auto dest: events_of_rows_Some events_of_rows_distinct)
  then show ?thesis by (auto simp: rows)
qed

lemma ListHistory_lookup:
  assumes "keys_ok (store w)" and "ListHistoryEventsForWorkflow env s wid w = (Inr h, w')"
  shows "h k = Some e \<longleftrightarrow> (\<exists>a \<in> set (activities (store w)). a_workflow_id a = wid \<and>
      a_status a = ActivityCompleted \<and> a_idempotency_key a = k \<and> e = NewEvent k (a_output a) (pg_Decoder s))"
    "store w' = store w"
proof -
  from assms(2) obtain rows q d where sql: "sql_list_history wid q (store w) = Inr (rows, d)"
    and h: "h = events_of_rows (pg_Decoder s) rows" "store w' = d"
    by (auto simp: ListHistoryEventsForWorkflow_def bindE_ok exec_ok)
  show "h k = Some e \<longleftrightarrow> (\<exists>a \<in> set (activities (store w)). a_workflow_id a = wid \<and>
      a_status a = ActivityCompleted \<and> a_idempotency_key a = k \<and> e = NewEvent k (a_output a) (pg_Decoder s))"
    unfolding h(1) by (rule history_lookup [OF assms(1) sql])
  show "store w' = store w" using sql h(2) by (auto dest: list_history_same)
qed

lemma ListWorkflowSignals_lookup:
  assumes "keys_ok (store w)" and "ListWorkflowSignals env s wid w = (Inr h, w')"
  shows "h k = Some e \<longleftrightarrow> (\<exists>x \<in> set (signals (store w)). s_workflow_id x = wid \<and>
      s_idempotency_key x = k \<and> e = NewEvent k (s_input x) (pg_Decoder s))"
    "store w' = store w"
proof -
  from assms(2) obtain rows q d where sql: "sql_list_signals wid q (store w) = Inr (rows, d)"
    and h: "h = events_of_rows (pg_Decoder s) rows" "store w' = d"
    by (auto simp: ListWorkflowSignals_def bindE_ok exec_ok)
  show "h k = Some e \<longleftrightarrow> (\<exists>x \<in> set (signals (store w)). s_workflow_id x = wid \<and>
      s_idempotency_key x = k \<and> e = NewEvent k (s_input x) (pg_Decoder s))"
    unfolding h(1) by (rule signals_lookup [OF assms(1) sql])
  show "store w' = store w" using sql h(2) by (auto dest: list_signals_same)
qed

section \<open>What a completion leaves\<close>

lemma CompleteActivity_output:
  assumes "begin_func_law env" and "CompleteActivity env s i wid output w = (Inr u, w1)"
  obtains a b out where "find_activity (store w) i = Some a" "find_activity (store w1) i = Some b"
    "encode_nullable s ''encode output'' output = Inr out" "a_status b = ActivityCompleted" "a_output b = out"
    "a_idempotency_key b = a_idempotency_key a" "a_workflow_id b = a_workflow_id a"
proof -
  let ?P = "\<lambda>d d'. \<exists>a b. find_activity d i = Some a \<and> find_activity d' i = Some b \<and>
      encode_nullable s ''encode output'' output = Inr (a_output b) \<and> a_status b = ActivityCompleted \<and>
      a_idempotency_key b = a_idempotency_key a \<and> a_workflow_id b = a_workflow_id a"
  have body: "?P (store w0) (store w2)"
    if run: "bindE (wrapE l1 (completeActivity env s ex i output)) (\<lambda>_. bindE (NewV7 env) (\<lambda>taskID.
      bindE (time_Now env) (\<lambda>at. bindE (wrapE l2 (insertWorkflowTask env ex taskID wid at)) (\<lambda>_. ret uuid_Nil)))) w0
      = (Inr v, w2)" for w0 w2 l1 l2 ex v
  proof -
    from run obtain w3 where c: "completeActivity env s ex i output w0 = (Inr (), w3)"
      and tail: "bindE (NewV7 env) (\<lambda>taskID. bindE (time_Now env) (\<lambda>at.
        bindE (wrapE l2 (insertWorkflowTask env ex taskID wid at)) (\<lambda>_. ret uuid_Nil))) w3 = (Inr v, w2)"
      unfolding bindE_ok [of "wrapE l1 (completeActivity env s ex i output)"] by auto
    from c obtain out q n where enc: "encode_nullable s ''encode output'' output = Inr out" and n: "n \<noteq> 0"
      and sql: "sql_complete_activity i out q (store w0) = Inr (n, store w3)"
      by (rule completeActivity_ok)
    have "activities (store w2) = activities (store w3)"
      using tail by (auto simp: bindE_ok insertWorkflowTask_def exec_ok dest!: stmt_activities(2))
    then have "find_activity (store w2) i = find_activity (store w3) i" by (simp add: find_activity_def)
    with sql_complete_activity_effect(1) [OF sql n] obtain a b now where
      ab: "find_activity (store w0) i = Some a" "find_activity (store w2) i = Some b"
        "b = a\<lparr>a_status := ActivityCompleted, a_output := out, a_completed_at := Some now,
          a_error_message := None, a_updated_at := a_updated_at b\<rparr>"
      unfolding row_changed_def by auto
    from ab(3) have "a_status b = ActivityCompleted \<and> a_output b = out \<and>
        a_idempotency_key b = a_idempotency_key a \<and> a_workflow_id b = a_workflow_id a"
      by (cases a; cases b) simp
    with enc ab(1,2) show ?thesis by auto
  qed
  have "all_or_nothing ?P (store w) (Inr u) (store w1)"
    by (rule tx_all_or_nothing [OF assms(1) assms(2) [unfolded CompleteActivity_def]]) (rule body)
  then show ?thesis using that by (auto simp: all_or_nothing_def)
qed

text \<open>What the next load of the history says of a completed activity.\<close>

lemma history_after_CompleteActivity:
  assumes law: "begin_func_law env" and v: "valid_db (store w)"
    and a: "find_activity (store w) i = Some a"
    and run: "CompleteActivity env s i wid output w = (Inr (), w1)"
    and load: "ListHistoryEventsForWorkflow env s (a_workflow_id a) w1 = (Inr h, w2)"
  obtains out where "encode_nullable s ''encode output'' output = Inr out"
    "h (a_idempotency_key a) = Some (NewEvent (a_idempotency_key a) out (pg_Decoder s))"
proof -
  from law run obtain b out where b: "find_activity (store w1) i = Some b"
    and enc: "encode_nullable s ''encode output'' output = Inr out" and
    cols: "a_status b = ActivityCompleted" "a_output b = out"
      "a_idempotency_key b = a_idempotency_key a" "a_workflow_id b = a_workflow_id a"
    by (rule CompleteActivity_output) (simp add: a)
  have "keys_ok (store w1)"
    using keepsD [OF valid.keeps_CompleteActivity [OF law] run] v by (simp add: valid_kept_def valid_dbD(1))
  from ListHistory_lookup(1) [OF this load] find_activity_Some [OF b] cols
  have "h (a_idempotency_key a) = Some (NewEvent (a_idempotency_key a) out (pg_Decoder s))" by auto
  with enc show ?thesis by (rule that)
qed

end
