(* ===== verification/Availability.thy ===== *)
theory Availability
  imports Storage_Specs
begin

text \<open>
  What the storage methods answer when nothing outside fails: the statements are served and the
  transactions are committed. Then a call whose statements find their rows succeeds, whatever
  the status of these rows is.
\<close>

section \<open>A service that answers\<close>

text \<open>
  Every statement is executed and answered, and \<open>pgx.BeginFunc\<close> returns nil when its function
  does: the connection is not lost at \<open>BEGIN\<close> or \<open>COMMIT\<close>.
\<close>

definition available :: "('d, 'v) env \<Rightarrow> bool" where
  "available env \<longleftrightarrow> (\<forall>n. env_outcome env n = Served) \<and>
     (\<forall>txer body w. (\<forall>t w0. store w0 = store w \<longrightarrow> ticks w \<le> ticks w0 \<longrightarrow> (\<exists>u w2. body (InTx t) w0 = (Inr u, w2))) \<longrightarrow>
        (\<exists>u w1. env_begin_func env txer body w = (Inr u, w1)))"

lemma ref_available: "available ref_env"
  unfolding available_def
proof (intro conjI allI impI)
  fix txer :: tx_beginner and body :: "execer \<Rightarrow> (db, uuid) io" and w :: "db world"
  assume "\<forall>t w0. store w0 = store w \<longrightarrow> ticks w \<le> ticks w0 \<longrightarrow> (\<exists>u w2. body (InTx t) w0 = (Inr u, w2))"
  then obtain u w2 where "body (InTx (int (ticks w))) w = (Inr u, w2)" by blast
  then show "\<exists>u w1. env_begin_func ref_env txer body w = (Inr u, w1)" by (simp add: plain_begin_func_def)
qed simp

lemma exec_served: "env_outcome env (ticks w) = Served \<Longrightarrow> sql (snap_at env ex (ticks w)) (store w) = Inr (x, d) \<Longrightarrow>
    exec env ex sql w = (Inr x, w\<lparr>ticks := Suc (ticks w), store := d\<rparr>)"
  by (simp add: exec_ok)

section \<open>Methods that succeed\<close>

lemma found_rows:
  "find_workflow d i = Some x \<Longrightarrow> count_where (\<lambda>x. w_id x = i) (workflows d) \<noteq> 0"
  "find_activity d i = Some a \<Longrightarrow> count_where (\<lambda>a. a_id a = i) (activities d) \<noteq> 0"
  unfolding count_where_0 using find_workflow_Some find_activity_Some by blast+

lemma CompleteWorkflow_succeeds:
  assumes "env_outcome env (ticks w) = Served" and "find_workflow (store w) i = Some x"
  shows "\<exists>w'. CompleteWorkflow env i w = (Inr (), w')"
  using assms(1) found_rows(1) [OF assms(2)]
  by (simp add: CompleteWorkflow_def exec_affecting_ok sql_complete_workflow_def del: count_where_0)

lemma insertWorkflowTask_succeeds:
  assumes "env_outcome env (ticks w) = Served"
  shows "\<exists>w'. insertWorkflowTask env ex taskID wid at w = (Inr (), w')"
proof -
  obtain n d where "sql_insert_workflow_task taskID wid at (snap_at env ex (ticks w)) (store w) = Inr (n, d)"
    unfolding sql_insert_workflow_task_def
    by (cases "find_workflow (store w) wid"; cases "taskID \<in> t_id ` set (tasks (store w))") auto
  with assms show ?thesis by (simp add: insertWorkflowTask_def bindE_ok exec_ok)
qed

lemma CompleteActivity_succeeds:
  assumes av: "available env" and a: "find_activity (store w) i = Some a"
    and enc: "encode_nullable s ''encode output'' output = Inr out"
  shows "\<exists>w'. CompleteActivity env s i wid output w = (Inr (), w')"
proof -
  have body: "\<exists>u w2. bindE (wrapE l1 (completeActivity env s ex i output)) (\<lambda>_. bindE (NewV7 env) (\<lambda>taskID.
      bindE (time_Now env) (\<lambda>at. bindE (wrapE l2 (insertWorkflowTask env ex taskID wid at)) (\<lambda>_. ret uuid_Nil)))) w0 = (Inr u, w2)"
    if "store w0 = store w" for w0 l1 l2 ex
  proof -
    have "count_where (\<lambda>a. a_id a = i) (activities (store w0)) \<noteq> 0"
      using found_rows(2) [OF a] that by simp
    then obtain w3 where "completeActivity env s ex i output w0 = (Inr (), w3)"
      using av enc by (simp add: completeActivity_def bindE_ok exec_affecting_ok sql_complete_activity_def available_def del: count_where_0)
    moreover obtain w4 where "insertWorkflowTask env ex (env_new_v7 env (ticks w3)) wid (env_go_now env (Suc (ticks w3)))
        (w3\<lparr>ticks := Suc (ticks w3)\<rparr>) = (Inr (), w4)"
      using av insertWorkflowTask_succeeds by (metis available_def)
    ultimately show ?thesis by (simp add: bindE_ok)
  qed
  then obtain u w1 where "env_begin_func env StorageDb (\<lambda>tx.
         bindE (wrapE ''complete activity'' (completeActivity env s tx i output)) (\<lambda>_.
         bindE (NewV7 env) (\<lambda>taskID. bindE (time_Now env) (\<lambda>taskSchedule.
         bindE (wrapE ''insert workflow task'' (insertWorkflowTask env tx taskID wid taskSchedule)) (\<lambda>_.
         ret uuid_Nil))))) w = (Inr u, w1)"
    using av unfolding available_def by meson
  then show ?thesis by (simp add: CompleteActivity_def bindE_ok)
qed

lemma ListHistory_succeeds:
  assumes "available env"
  shows "\<exists>h w'. ListHistoryEventsForWorkflow env s i w = (Inr h, w')"
  using assms by (auto simp: ListHistoryEventsForWorkflow_def bindE_ok exec_ok sql_list_history_def available_def)

end
