(* ===== verification/Poller.thy ===== *)
theory Poller
  imports Workers
begin

text \<open>
  The polling loops \<open>runHandlerWorker\<close> of the two workers, with their counting semaphore,
  the batches they fetch, the stop signal and \<open>Stop\<close>. The goroutines make the loop a
  relation: at any moment the ticker may fire, an in-flight task may finish, or the
  worker may be stopped.
\<close>

section \<open>One poll\<close>

text \<open>
  A semaphore is a buffered channel; its capacity and its occupancy are Go \<open>int\<close>s, and
  \<open>len\<close> never exceeds \<open>cap\<close>.
\<close>

definition free_slots :: "worker_config \<Rightarrow> nat \<Rightarrow> uint" where
  "free_slots config inflight = Concurrency (Poll config) - word_of_nat inflight"

definition fetchWorkflowTasks :: "('d, 'v) storage \<Rightarrow> string list \<Rightarrow> uint \<Rightarrow> ('d, workflow_task_record list) io" where
  "fetchWorkflowTasks st names fetchSize =
     wrapE ''list active workflow tasks from storage'' (st_ListActiveWorkflowTasks st names fetchSize)"

definition fetchActivities :: "('d, 'v) storage \<Rightarrow> string list \<Rightarrow> uint \<Rightarrow> ('d, activity_record list) io" where
  "fetchActivities st names fetchSize =
     wrapE ''list active activities from storage'' (st_ListActiveActivities st names fetchSize)"

text \<open>
  \<open>processWorkflowTasks\<close> and \<open>processActivities\<close> up to the dispatch: the answer is whether
  the queue is drained, and the tasks for which a slot is acquired and a goroutine
  started, in order.
\<close>

definition processWorkflowTasks ::
    "('d, 'v) storage \<Rightarrow> worker_config \<Rightarrow> string list \<Rightarrow> nat \<Rightarrow> 'd world \<Rightarrow>
     (bool \<times> workflow_task_record list) \<times> 'd world" where
  "processWorkflowTasks st config names inflight w =
     (let freeSlots = free_slots config inflight
      in if freeSlots = 0 then ((True, []), w)
         else let fetchSize = min freeSlots (BatchSize (Poll config))
              in case fetchWorkflowTasks st names fetchSize w of
                   (Inl e, w') \<Rightarrow> ((True, []), w')
                 | (Inr ts, w') \<Rightarrow>
                     if ts = [] then ((True, []), w')
                     else ((word_of_nat (length ts) < fetchSize, ts), w'))"

definition processActivities ::
    "('d, 'v) storage \<Rightarrow> worker_config \<Rightarrow> string list \<Rightarrow> nat \<Rightarrow> 'd world \<Rightarrow>
     (bool \<times> activity_record list) \<times> 'd world" where
  "processActivities st config names inflight w =
     (let freeSlots = free_slots config inflight
      in if freeSlots = 0 then ((True, []), w)
         else let fetchSize = min freeSlots (BatchSize (Poll config))
              in case fetchActivities st names fetchSize w of
                   (Inl e, w') \<Rightarrow> ((True, []), w')
                 | (Inr ts, w') \<Rightarrow>
                     if ts = [] then ((True, []), w')
                     else ((word_of_nat (length ts) < fetchSize, ts), w'))"

section \<open>The loop\<close>

text \<open>
  Where the loop's goroutine is: waiting in the outer \<open>select\<close>, at the head of the inner
  loop, between reading the occupancy of the semaphore and the answer of its fetch, or
  returned. \<open>inflight\<close> are the tasks whose goroutines hold a slot.
\<close>

datatype loop = Waiting | Polling | Fetching nat | Exited

record 'r worker =
  loop :: loop
  stopped :: bool
  inflight :: "'r list"

definition Start :: "'r worker" where
  "Start = \<lparr>loop = Waiting, stopped = False, inflight = []\<rparr>"

text \<open>
  The steps, for a given poll function and handler: the ticker fires; a poll reads the
  number of taken slots; its fetch answers, a slot is acquired and a goroutine started for
  each task, and the loop goes on, waits for the next tick, or returns when the worker has
  been stopped meanwhile; the outer \<open>select\<close> sees the stop signal (when the ticker is ready
  too it may choose either); \<open>Stop\<close> closes the channel; an in-flight goroutine runs its
  handler and releases its slot, at any moment.
\<close>

inductive worker_step ::
    "(nat \<Rightarrow> 'd world \<Rightarrow> (bool \<times> 'r list) \<times> 'd world) \<Rightarrow> ('r \<Rightarrow> ('d, unit) io) \<Rightarrow>
     'r worker \<times> 'd world \<Rightarrow> 'r worker \<times> 'd world \<Rightarrow> bool"
  for poll :: "nat \<Rightarrow> 'd world \<Rightarrow> (bool \<times> 'r list) \<times> 'd world" and handle :: "'r \<Rightarrow> ('d, unit) io"
where
  tick: "loop s = Waiting \<Longrightarrow> worker_step poll handle (s, w) (s\<lparr>loop := Polling\<rparr>, w)"
| slots: "loop s = Polling \<Longrightarrow>
    worker_step poll handle (s, w) (s\<lparr>loop := Fetching (length (inflight s))\<rparr>, w)"
| drained: "loop s = Fetching k \<Longrightarrow> poll k w = ((True, rs), w') \<Longrightarrow>
    worker_step poll handle (s, w) (s\<lparr>loop := Waiting, inflight := inflight s @ rs\<rparr>, w')"
| more: "loop s = Fetching k \<Longrightarrow> poll k w = ((False, rs), w') \<Longrightarrow> \<not> stopped s \<Longrightarrow>
    worker_step poll handle (s, w) (s\<lparr>loop := Polling, inflight := inflight s @ rs\<rparr>, w')"
| more_stopped: "loop s = Fetching k \<Longrightarrow> poll k w = ((False, rs), w') \<Longrightarrow> stopped s \<Longrightarrow>
    worker_step poll handle (s, w) (s\<lparr>loop := Exited, inflight := inflight s @ rs\<rparr>, w')"
| exit: "loop s = Waiting \<Longrightarrow> stopped s \<Longrightarrow> worker_step poll handle (s, w) (s\<lparr>loop := Exited\<rparr>, w)"
| stop: "\<not> stopped s \<Longrightarrow> worker_step poll handle (s, w) (s\<lparr>stopped := True\<rparr>, w)"
| finish: "inflight s = rs1 @ r # rs2 \<Longrightarrow> handle r w = (res, w') \<Longrightarrow>
    worker_step poll handle (s, w) (s\<lparr>inflight := rs1 @ rs2\<rparr>, w')"

inductive_cases worker_stepE: "worker_step poll handle (s, w) (s', w')"

inductive worker_reachable ::
    "(nat \<Rightarrow> 'd world \<Rightarrow> (bool \<times> 'r list) \<times> 'd world) \<Rightarrow> ('r \<Rightarrow> ('d, unit) io) \<Rightarrow> 'd world \<Rightarrow>
     'r worker \<Rightarrow> 'd world \<Rightarrow> bool"
  for poll :: "nat \<Rightarrow> 'd world \<Rightarrow> (bool \<times> 'r list) \<times> 'd world" and handle :: "'r \<Rightarrow> ('d, unit) io"
    and w0 :: "'d world"
where
  start: "worker_reachable poll handle w0 Start w0"
| step: "worker_reachable poll handle w0 s w \<Longrightarrow> worker_step poll handle (s, w) (s', w') \<Longrightarrow>
    worker_reachable poll handle w0 s' w'"

context step_relation
begin

text \<open>A step of a worker keeps what its poll and its handlers keep.\<close>

lemma worker_step_keeps:
  assumes step: "worker_step poll handle (s, w) (s', w')"
    and poll: "\<And>k b rs w'. poll k w = ((b, rs), w') \<Longrightarrow> R (store w) (store w') \<and> (\<forall>r \<in> set rs. ok (store w') r)"
    and handle: "\<And>r res w'. ok (store w) r \<Longrightarrow> handle r w = (res, w') \<Longrightarrow> R (store w) (store w')"
    and stable: "\<And>d d' r. R d d' \<Longrightarrow> ok d r \<Longrightarrow> ok d' r"
    and inv: "\<forall>r \<in> set (inflight s). ok (store w) r"
  shows "R (store w) (store w') \<and> (\<forall>r \<in> set (inflight s'). ok (store w') r)"
proof -
  have "R (store w) (store w') \<and> (\<forall>r \<in> set (inflight s'). r \<in> set (inflight s) \<or> ok (store w') r)"
    using step
  proof (cases rule: worker_step.cases)
    case (finish rs1 r rs2 res)
    with inv have "ok (store w) r" by simp
    with finish handle [of r res w'] show ?thesis by auto
  qed (use poll R_refl in auto)
  with inv stable show ?thesis by blast
qed

text \<open>So does a worker, when the records in flight stay what its polls make them.\<close>

lemma worker_reachable_records:
  assumes "worker_reachable poll handle w0 s w"
    and poll: "\<And>k w b rs w'. R (store w0) (store w) \<Longrightarrow> poll k w = ((b, rs), w') \<Longrightarrow>
      R (store w) (store w') \<and> (\<forall>r \<in> set rs. ok (store w') r)"
    and handle: "\<And>w r res w'. R (store w0) (store w) \<Longrightarrow> ok (store w) r \<Longrightarrow> handle r w = (res, w') \<Longrightarrow> R (store w) (store w')"
    and stable: "\<And>d d' r. R d d' \<Longrightarrow> ok d r \<Longrightarrow> ok d' r"
  shows "R (store w0) (store w) \<and> (\<forall>r \<in> set (inflight s). ok (store w) r)"
  using assms(1)
proof (induction rule: worker_reachable.induct)
  case start
  show ?case by (simp add: R_refl Start_def)
next
  case (step s w s' w')
  then have here: "R (store w0) (store w)" "\<forall>r \<in> set (inflight s). ok (store w) r" by blast+
  have "R (store w) (store w') \<and> (\<forall>r \<in> set (inflight s'). ok (store w') r)"
    using step(2) poll [OF here(1)] handle [OF here(1)] stable here(2) by (rule worker_step_keeps)
  with here(1) R_trans show ?case by blast
qed

lemma worker_reachable_keeps:
  assumes "worker_reachable poll handle w0 s w"
    and "\<And>k w x w'. poll k w = (x, w') \<Longrightarrow> R (store w) (store w')" and "\<And>r. keeps R (handle r)"
  shows "R (store w0) (store w)"
  using worker_reachable_records [OF assms(1), of "\<lambda>_ _. True"] assms(2) keepsD [OF assms(3)] by blast

end

text \<open>\<open>Stop\<close> returns nil when the wait group is empty: the loop has returned and no task runs.\<close>

definition wg_done :: "'r worker \<Rightarrow> bool" where
  "wg_done s \<longleftrightarrow> loop s = Exited \<and> inflight s = []"

text \<open>
  \<open>Stop\<close> closes the channel, which is the step \<open>stop\<close>, and then selects: it returns nil when the wait
  group is done, and the error of its context when that has expired; when both are ready, either.
\<close>

inductive Stop_returns :: "'r worker \<Rightarrow> error option \<Rightarrow> error + unit \<Rightarrow> bool" where
  waited: "wg_done s \<Longrightarrow> Stop_returns s expired (Inr ())"
| expired: "Stop_returns s (Some err) (Inl (Errorf ''context done'' err))"

inductive_simps Stop_returns_nil [simp]: "Stop_returns s expired (Inr ())"
inductive_simps Stop_returns_error: "Stop_returns s expired (Inl err)"

section \<open>The contract of a poll\<close>

text \<open>
  What the loop relies on, for a family of lawful deployments: a poll never returns more tasks
  than there were free slots when it read them, so that acquiring a slot for each never
  blocks, and polls and handlers keep what the storage needs for that.
\<close>

locale bounded_poll =
  fixes poll :: "'e \<Rightarrow> nat \<Rightarrow> 'd world \<Rightarrow> (bool \<times> 'r list) \<times> 'd world"
    and handle :: "'e \<Rightarrow> 'r \<Rightarrow> ('d, unit) io"
    and capacity :: "'e \<Rightarrow> nat" and lawful :: "'e \<Rightarrow> bool" and ok :: "'d world \<Rightarrow> bool"
  assumes poll_fits: "lawful e \<Longrightarrow> ok w \<Longrightarrow> k \<le> capacity e \<Longrightarrow> poll e k w = ((b, rs), w') \<Longrightarrow>
      k + length rs \<le> capacity e"
    and poll_ok: "lawful e \<Longrightarrow> ok w \<Longrightarrow> poll e k w = ((b, rs), w') \<Longrightarrow> ok w'"
    and handle_ok: "lawful e \<Longrightarrow> ok w \<Longrightarrow> handle e r w = (res, w') \<Longrightarrow> ok w'"
begin

definition slots_inv :: "'e \<Rightarrow> 'r worker \<Rightarrow> bool" where
  "slots_inv e s \<longleftrightarrow> length (inflight s) \<le> capacity e \<and>
     (case loop s of Fetching k \<Rightarrow> length (inflight s) \<le> k \<and> k \<le> capacity e | _ \<Rightarrow> True)"

lemma step_invariant:
  assumes e: "lawful e" and step: "worker_step (poll e) (handle e) (s, w) (s', w')"
    and inv: "ok w" "slots_inv e s"
  shows "ok w' \<and> slots_inv e s'"
  using step
proof (cases rule: worker_step.cases)
  case (drained k rs)
  with inv poll_fits [OF e inv(1), of k] poll_ok [OF e inv(1), of k] show ?thesis
    by (fastforce simp: slots_inv_def)
next
  case (more k rs)
  with inv poll_fits [OF e inv(1), of k] poll_ok [OF e inv(1), of k] show ?thesis
    by (fastforce simp: slots_inv_def)
next
  case (more_stopped k rs)
  with inv poll_fits [OF e inv(1), of k] poll_ok [OF e inv(1), of k] show ?thesis
    by (fastforce simp: slots_inv_def)
next
  case (finish rs1 r rs2 res)
  with inv handle_ok [OF e inv(1)] show ?thesis
    by (auto simp: slots_inv_def split: loop.splits)
qed (use inv in \<open>auto simp: slots_inv_def split: loop.splits\<close>)

lemma reachable_invariant:
  assumes "lawful e" and "worker_reachable (poll e) (handle e) w0 s w" and "ok w0"
  shows "ok w \<and> slots_inv e s"
  using assms(2,3)
proof (induction rule: worker_reachable.induct)
  case (step s w s' w')
  then show ?case using step_invariant [OF assms(1)] by blast
qed (simp add: Start_def slots_inv_def)

text \<open>Every task of a batch finds a free slot.\<close>

lemma no_blocking_send:
  assumes e: "lawful e" and "worker_reachable (poll e) (handle e) w0 s w" and "ok w0"
    and "loop s = Fetching k" and "poll e k w = ((b, rs), w')"
  shows "length (inflight s) + length rs \<le> capacity e"
  using reachable_invariant [OF assms(1-3)] poll_fits [OF e _ _ assms(5)] assms(4)
  by (auto simp: slots_inv_def)

end

section \<open>The two workers\<close>

text \<open>
  A worker as \<open>NewWorkflowWorker\<close> and \<open>NewActivityWorker\<close> make it, from its storage, registry and
  configuration, with the names that \<open>Start\<close> gives it and the environment it runs in.
\<close>

record ('v, 'h) deployment =
  su_env :: "(db, 'v) env"
  su_storage :: "(db, 'v) storage"
  su_registry :: "string \<Rightarrow> 'h option"
  su_config :: worker_config
  su_names :: "string list"

definition NewWorkflowWorker ::
    "(db, 'v) env \<Rightarrow> (db, 'v) storage \<Rightarrow> (db, 'v) workflow_registry \<Rightarrow> worker_config \<Rightarrow>
     ('v, (db, 'v) workflow_handler_wrapper) deployment" where
  "NewWorkflowWorker env st registry config =
     \<lparr>su_env = env, su_storage = st, su_registry = registry, su_config = config, su_names = []\<rparr>"

definition NewActivityWorker ::
    "(db, 'v) env \<Rightarrow> (db, 'v) storage \<Rightarrow> (db, 'v) activity_registry \<Rightarrow> worker_config \<Rightarrow>
     ('v, (db, 'v) activity_handler_wrapper) deployment" where
  "NewActivityWorker env st registry config =
     \<lparr>su_env = env, su_storage = st, su_registry = registry, su_config = config, su_names = []\<rparr>"

definition capacity_of :: "('v, 'h) deployment \<Rightarrow> nat" where
  "capacity_of su = nat (sint (Concurrency (Poll (su_config su))))"

text \<open>
  It is lawful when its storage is the PostgreSQL storage, with a lawful driver, among processes that
  keep the database valid, when the configured concurrency is a capacity \<open>make(chan)\<close> accepts, and
  when the registered handlers act on the store through the engine only.
\<close>

definition shared_postgres :: "(db \<Rightarrow> db \<Rightarrow> bool) \<Rightarrow> ('v, 'h) deployment \<Rightarrow> bool" where
  "shared_postgres R su \<longleftrightarrow>
     (\<exists>others s. su_storage su = interleaved others (postgres (su_env su) s) \<and> interferes R others) \<and>
     begin_func_law (su_env su)"

definition lawful_workflow_worker :: "('v, (db, 'v) workflow_handler_wrapper) deployment \<Rightarrow> bool" where
  "lawful_workflow_worker su \<longleftrightarrow>
     shared_postgres valid_kept su \<and> 0 \<le> sint (Concurrency (Poll (su_config su))) \<and>
     (\<forall>name h run. su_registry su name = Some h \<longrightarrow> keeps valid_kept (wh_handler h (su_storage su) run))"

definition lawful_activity_worker :: "('v, (db, 'v) activity_handler_wrapper) deployment \<Rightarrow> bool" where
  "lawful_activity_worker su \<longleftrightarrow>
     shared_postgres valid_kept su \<and> 0 \<le> sint (Concurrency (Poll (su_config su))) \<and>
     (\<forall>name h run. su_registry su name = Some h \<longrightarrow> keeps valid_kept (ah_handler h run))"

lemma shared_postgresE:
  assumes "shared_postgres R su"
  obtains others s where "su_storage su = pg_mk (others, su_env su, s)" "pg_lawful R (others, su_env su, s)"
  using assms by (auto simp: shared_postgres_def)

text \<open>A worker that has the database for itself.\<close>

lemma shared_postgres_alone:
  assumes "su_storage su = postgres (su_env su) s" and "begin_func_law (su_env su)" and "\<And>d. R d d"
  shows "shared_postgres R su"
  unfolding shared_postgres_def
  by (intro conjI exI [of _ id] exI [of _ s]) (simp_all add: assms interferes_def)

lemma New_workers_simps [simp]:
  "su_env (NewWorkflowWorker env st wr config) = env" "su_env (NewActivityWorker env st ar config) = env"
  "su_storage (NewWorkflowWorker env st wr config) = st" "su_storage (NewActivityWorker env st ar config) = st"
  "su_registry (NewWorkflowWorker env st wr config) = wr" "su_registry (NewActivityWorker env st ar config) = ar"
  "su_config (NewWorkflowWorker env st wr config) = config" "su_config (NewActivityWorker env st ar config) = config"
  "su_names (NewWorkflowWorker env st wr config) = []" "su_names (NewActivityWorker env st ar config) = []"
  by (simp_all add: NewWorkflowWorker_def NewActivityWorker_def)

definition workflow_poll :: "('v, (db, 'v) workflow_handler_wrapper) deployment \<Rightarrow> nat \<Rightarrow> db world \<Rightarrow>
    (bool \<times> workflow_task_record list) \<times> db world" where
  "workflow_poll su = processWorkflowTasks (su_storage su) (su_config su) (su_names su)"

definition workflow_handle :: "('v, (db, 'v) workflow_handler_wrapper) deployment \<Rightarrow>
    workflow_task_record \<Rightarrow> (db, unit) io" where
  "workflow_handle su = handleWorkflowTask (su_env su) (su_storage su) (su_config su) (su_registry su)"

definition activity_poll :: "('v, (db, 'v) activity_handler_wrapper) deployment \<Rightarrow> nat \<Rightarrow> db world \<Rightarrow>
    (bool \<times> activity_record list) \<times> db world" where
  "activity_poll su = processActivities (su_storage su) (su_config su) (su_names su)"

definition activity_handle :: "('v, (db, 'v) activity_handler_wrapper) deployment \<Rightarrow>
    activity_record \<Rightarrow> (db, unit) io" where
  "activity_handle su = handleActivity (su_env su) (su_storage su) (su_config su) (su_registry su)"

text \<open>The two loops, of which \<open>worker_step\<close> is the common shape.\<close>

definition workflow_worker_step :: "('v, (db, 'v) workflow_handler_wrapper) deployment \<Rightarrow>
    workflow_task_record worker \<times> db world \<Rightarrow> workflow_task_record worker \<times> db world \<Rightarrow> bool" where
  "workflow_worker_step su = worker_step (workflow_poll su) (workflow_handle su)"

definition activity_worker_step :: "('v, (db, 'v) activity_handler_wrapper) deployment \<Rightarrow>
    activity_record worker \<times> db world \<Rightarrow> activity_record worker \<times> db world \<Rightarrow> bool" where
  "activity_worker_step su = worker_step (activity_poll su) (activity_handle su)"

text \<open>The arithmetic of the slots: the unsigned difference is the number of free slots.\<close>

lemma unat_of_sint:
  assumes "0 \<le> sint (c :: 64 word)"
  shows "unat c = nat (sint c)"
proof -
  have "sint c < 2 ^ 63" using sint_less [of c] by simp
  moreover have "uint c = take_bit 64 (sint c)" using uint_sint [of c] by simp
  ultimately have "uint c = sint c" using assms by (simp add: take_bit_int_eq_self)
  then show ?thesis by (simp add: unat_eq_nat_uint)
qed

lemma unat_free_slots:
  assumes "0 \<le> sint (Concurrency (Poll config))" and "k \<le> nat (sint (Concurrency (Poll config)))"
  shows "unat (free_slots config k) = nat (sint (Concurrency (Poll config))) - k"
proof -
  let ?c = "Concurrency (Poll config)"
  have c: "unat ?c = nat (sint ?c)" using assms(1) by (rule unat_of_sint)
  moreover have "unat ?c < 2 ^ 64" by (rule order_less_le_trans [OF unsigned_less]) simp
  ultimately have "k < 2 ^ 64" using assms(2) by simp
  then have "unat (word_of_nat k :: uint) = k" by (simp add: unat_of_nat)
  with c assms(2) show ?thesis
    by (simp add: free_slots_def unat_sub word_le_nat_alt)
qed

text \<open>A batch is no longer than what was asked for.\<close>

lemma scan_all_length: "scan_all label scan rs = Inr xs \<Longrightarrow> length xs = length rs"
  by (induction rs arbitrary: xs) (auto split: sum.splits)

lemma ListActiveWorkflowTasks_length:
  assumes "valid_db (store w)" and "ListActiveWorkflowTasks env names n w = (Inr ts, w')"
  shows "length ts \<le> unat n"
  using assms
  by (auto simp: ListActiveWorkflowTasks_def bindE_ok exec_ok sql_fetch_workflow_tasks_def
      sql_fetch_workflow_tasks_with_names_def split: if_splits dest!: scan_all_length fetch_tasks_length)

lemma ListActiveActivities_length:
  assumes "valid_db (store w)" and "ListActiveActivities env names n w = (Inr ts, w')"
  shows "length ts \<le> unat n"
  using assms
  by (auto simp: ListActiveActivities_def bindE_ok exec_ok sql_fetch_activities_def
      sql_fetch_activities_with_names_def split: if_splits dest!: scan_all_length fetch_activities_length)

lemma unat_min: "unat (min a b :: uint) = min (unat a) (unat b)"
  by (simp add: min_def word_le_nat_alt)

text \<open>What a poll dispatches fits into the slots that were free when it looked.\<close>

lemma processWorkflowTasks_ran:
  assumes "processWorkflowTasks st config names k w = ((b, ts), w')"
  shows "ts = [] \<and> w' = w \<or>
    (\<exists>r. st_ListActiveWorkflowTasks st names (min (free_slots config k) (BatchSize (Poll config))) w = (r, w') \<and>
       (ts = [] \<or> r = Inr ts))"
  using assms
  by (auto simp: processWorkflowTasks_def fetchWorkflowTasks_def wrapE_def Let_def split: if_splits prod.splits sum.splits)

lemma processActivities_ran:
  assumes "processActivities st config names k w = ((b, ts), w')"
  shows "ts = [] \<and> w' = w \<or>
    (\<exists>r. st_ListActiveActivities st names (min (free_slots config k) (BatchSize (Poll config))) w = (r, w') \<and>
       (ts = [] \<or> r = Inr ts))"
  using assms
  by (auto simp: processActivities_def fetchActivities_def wrapE_def Let_def split: if_splits prod.splits sum.splits)

context kept_frame
begin

lemma processWorkflowTasks_keeps:
  assumes "lawful e" and "processWorkflowTasks (mk e) config names k w = (r, w')"
  shows "R (store w) (store w')"
  using processWorkflowTasks_ran [of "mk e" config names k w "fst r" "snd r" w'] assms
    keepsD [OF keeps_storage(7)] by (auto simp: R_refl)

lemma processActivities_keeps:
  assumes "lawful e" and "processActivities (mk e) config names k w = (r, w')"
  shows "R (store w) (store w')"
  using processActivities_ran [of "mk e" config names k w "fst r" "snd r" w'] assms
    keepsD [OF keeps_storage(4)] by (auto simp: R_refl)

end

lemma processWorkflowTasks_fits:
  assumes others: "interferes valid_kept others" and v: "valid_db (store w)"
    and run: "processWorkflowTasks (interleaved others (postgres env s)) config names k w = ((b, ts), w')"
  shows "length ts \<le> unat (free_slots config k)"
proof (cases "ts = []")
  case False
  with processWorkflowTasks_ran [OF run]
  have "ListActiveWorkflowTasks env names (min (free_slots config k) (BatchSize (Poll config))) (others w) = (Inr ts, w')"
    by (auto simp: amid_def)
  moreover have "valid_db (store (others w))" using others v by (simp add: interferes_def valid_kept_def)
  ultimately have "length ts \<le> unat (min (free_slots config k) (BatchSize (Poll config)))"
    by (rule ListActiveWorkflowTasks_length [rotated])
  then show ?thesis by (simp add: unat_min)
qed simp

lemma processActivities_fits:
  assumes others: "interferes valid_kept others" and v: "valid_db (store w)"
    and run: "processActivities (interleaved others (postgres env s)) config names k w = ((b, ts), w')"
  shows "length ts \<le> unat (free_slots config k)"
proof (cases "ts = []")
  case False
  with processActivities_ran [OF run]
  have "ListActiveActivities env names (min (free_slots config k) (BatchSize (Poll config))) (others w) = (Inr ts, w')"
    by (auto simp: amid_def)
  moreover have "valid_db (store (others w))" using others v by (simp add: interferes_def valid_kept_def)
  ultimately have "length ts \<le> unat (min (free_slots config k) (BatchSize (Poll config)))"
    by (rule ListActiveActivities_length [rotated])
  then show ?thesis by (simp add: unat_min)
qed simp

lemma lawful_workflow_worker_keeps:
  assumes "lawful_workflow_worker e" and "valid_db (store w)"
  shows "workflow_poll e k w = (x, w') \<Longrightarrow> valid_db (store w')"
    and "workflow_handle e r w = (res, w') \<Longrightarrow> valid_db (store w')"
proof -
  from assms(1) obtain others s where st: "su_storage e = pg_mk (others, su_env e, s)"
    and e: "pg_lawful valid_kept (others, su_env e, s)"
    by (auto simp: lawful_workflow_worker_def elim: shared_postgresE)
  have "keeps valid_kept (workflow_handle e r)"
    using assms(1) valid.pgst.keeps_handleWorkflowTask [OF e]
    by (simp add: lawful_workflow_worker_def workflow_handle_def st)
  then show "workflow_handle e r w = (res, w') \<Longrightarrow> valid_db (store w')"
    using assms(2) by (auto simp: valid_kept_def dest: keepsD)
  show "workflow_poll e k w = (x, w') \<Longrightarrow> valid_db (store w')"
    using valid.pgst.processWorkflowTasks_keeps [OF e] assms(2) unfolding workflow_poll_def st valid_kept_def by blast
qed

lemma lawful_activity_worker_keeps:
  assumes "lawful_activity_worker e" and "valid_db (store w)"
  shows "activity_poll e k w = (x, w') \<Longrightarrow> valid_db (store w')"
    and "activity_handle e r w = (res, w') \<Longrightarrow> valid_db (store w')"
proof -
  from assms(1) obtain others s where st: "su_storage e = pg_mk (others, su_env e, s)"
    and e: "pg_lawful valid_kept (others, su_env e, s)"
    by (auto simp: lawful_activity_worker_def elim: shared_postgresE)
  have "keeps valid_kept (activity_handle e r)"
    using assms(1) valid.pgst.keeps_handleActivity [OF e]
    by (simp add: lawful_activity_worker_def activity_handle_def st)
  then show "activity_handle e r w = (res, w') \<Longrightarrow> valid_db (store w')"
    using assms(2) by (auto simp: valid_kept_def dest: keepsD)
  show "activity_poll e k w = (x, w') \<Longrightarrow> valid_db (store w')"
    using valid.pgst.processActivities_keeps [OF e] assms(2) unfolding activity_poll_def st valid_kept_def by blast
qed

interpretation workflow_poller: bounded_poll workflow_poll workflow_handle capacity_of
  lawful_workflow_worker "\<lambda>w. valid_db (store w)"
proof unfold_locales
  fix e :: "('v, (db, 'v) workflow_handler_wrapper) deployment" and w k b rs and w' :: "db world"
  assume e: "lawful_workflow_worker e" and v: "valid_db (store w)" and k: "k \<le> capacity_of e"
    and run: "workflow_poll e k w = ((b, rs), w')"
  have "length rs \<le> unat (free_slots (su_config e) k)"
    using e run by (auto simp: workflow_poll_def lawful_workflow_worker_def shared_postgres_def
        intro: processWorkflowTasks_fits [OF _ v])
  with e k show "k + length rs \<le> capacity_of e"
    by (simp add: lawful_workflow_worker_def capacity_of_def unat_free_slots)
qed (auto intro: lawful_workflow_worker_keeps)

interpretation activity_poller: bounded_poll activity_poll activity_handle capacity_of
  lawful_activity_worker "\<lambda>w. valid_db (store w)"
proof unfold_locales
  fix e :: "('v, (db, 'v) activity_handler_wrapper) deployment" and w k b rs and w' :: "db world"
  assume e: "lawful_activity_worker e" and v: "valid_db (store w)" and k: "k \<le> capacity_of e"
    and run: "activity_poll e k w = ((b, rs), w')"
  have "length rs \<le> unat (free_slots (su_config e) k)"
    using e run by (auto simp: activity_poll_def lawful_activity_worker_def shared_postgres_def
        intro: processActivities_fits [OF _ v])
  with e k show "k + length rs \<le> capacity_of e"
    by (simp add: lawful_activity_worker_def capacity_of_def unat_free_slots)
qed (auto intro: lawful_activity_worker_keeps)

end
