(* ===== verification/Reachability.thy ===== *)
theory Reachability
  imports Storage_Specs Poller
begin

text \<open>
  Databases that the storage can reach: any interleaving of calls of its methods, with any
  arguments and any outcome, from the empty database. A call of the engine keeps the
  integrity of the database, the signals, the identity of activities and the finality of
  workflows; the cleanup keeps the integrity.
\<close>

section \<open>Finality of workflows\<close>

text \<open>
  A workflow keeps its id, key, name, input and limits, counts its attempts upwards, and
  never returns to the running state.
\<close>

definition workflow_kept :: "workflow_row \<Rightarrow> workflow_row \<Rightarrow> bool" where
  "workflow_kept x y \<longleftrightarrow>
     w_id y = w_id x \<and> w_idempotency_key y = w_idempotency_key x \<and> w_name y = w_name x \<and>
     w_input y = w_input x \<and> w_max_attempts y = w_max_attempts x \<and> w_created_at y = w_created_at x \<and>
     w_attempts x \<le> w_attempts y \<and> (w_status x \<noteq> WorkflowRunning \<longrightarrow> w_status y \<noteq> WorkflowRunning)"

definition workflows_kept :: "db \<Rightarrow> db \<Rightarrow> bool" where
  "workflows_kept d d' \<longleftrightarrow> (\<forall>x \<in> set (workflows d). \<exists>y \<in> set (workflows d'). workflow_kept x y)"

lemma workflow_kept_refl [simp]: "workflow_kept x x"
  by (simp add: workflow_kept_def)

lemma workflow_kept_trans: "workflow_kept x y \<Longrightarrow> workflow_kept y z \<Longrightarrow> workflow_kept x z"
  by (simp add: workflow_kept_def)

lemma workflows_kept_update:
  assumes "\<And>x. workflow_kept x (f x)"
  shows "workflows_kept d (d\<lparr>workflows := update_where p f (workflows d)\<rparr>)"
  unfolding workflows_kept_def
proof
  fix x
  assume x: "x \<in> set (workflows d)"
  show "\<exists>y \<in> set (workflows (d\<lparr>workflows := update_where p f (workflows d)\<rparr>)). workflow_kept x y"
    by (rule bexI [of _ "if p x then f x else x"]) (use x assms in auto)
qed

lemma workflows_kept_superset: "set (workflows d) \<subseteq> set (workflows d') \<Longrightarrow> workflows_kept d d'"
  unfolding workflows_kept_def using workflow_kept_refl by blast

lemma stmt_workflows:
  "sql_insert_workflow_task i wid at q d = Inr (n, d') \<Longrightarrow> workflows d' = workflows d"
  "fetch_tasks named lim q d = Inr (rows, d') \<Longrightarrow> workflows d' = workflows d"
  "sql_complete_workflow_task i q d = Inr (n, d') \<Longrightarrow> workflows d' = workflows d"
  "sql_reschedule_workflow_task i at q d = Inr (n, d') \<Longrightarrow> workflows d' = workflows d"
  "sql_fail_workflow_task i q d = Inr (n, d') \<Longrightarrow> workflows d' = workflows d"
  "sql_insert_activity i k wid nm inp p maxa ms at q d = Inr (n, d') \<Longrightarrow> workflows d' = workflows d"
  "claim_activities ids q d = Inr (acts, d') \<Longrightarrow> workflows d' = workflows d"
  "sql_complete_activity i out q d = Inr (n, d') \<Longrightarrow> workflows d' = workflows d"
  "sql_reschedule_activity i at msg q d = Inr (n, d') \<Longrightarrow> workflows d' = workflows d"
  "sql_fail_activity i msg q d = Inr (n, d') \<Longrightarrow> workflows d' = workflows d"
  "sql_insert_signal i k wid nm inp q d = Inr (n, d') \<Longrightarrow> workflows d' = workflows d"
  by (auto simp: stmt_defs Let_def split: if_splits option.splits)

interpretation flows: pg_step workflows_kept
proof unfold_locales
  fix d1 d2 d3
  assume "workflows_kept d1 d2" "workflows_kept d2 d3"
  then show "workflows_kept d1 d3" unfolding workflows_kept_def by (meson workflow_kept_trans)
qed (auto simp: stmt_keeps_def sql_complete_workflow_def sql_fail_workflow_def sql_clear_workflow_error_def
    sql_increment_workflow_attempts_def workflow_kept_def intro: workflows_kept_superset elim!: sql_insert_workflow_ok
    dest!: stmt_workflows intro!: workflows_kept_update split: if_splits)

section \<open>Steps\<close>

text \<open>
  The calls that make nothing known to a workflow, and those that do: the end of an activity
  and a signal. Between two calls any number of other interactions may pass.
\<close>

inductive quiet_step :: "(db, 'v) env \<Rightarrow> 'v pg_storage \<Rightarrow> db world \<Rightarrow> db world \<Rightarrow> bool"
  for env :: "(db, 'v) env" and s :: "'v pg_storage"
where
  insert_workflow: "InsertWorkflow env s txer name i key input wo w = (r, w') \<Longrightarrow> quiet_step env s w w'"
| list_history: "ListHistoryEventsForWorkflow env s i w = (r, w') \<Longrightarrow> quiet_step env s w w'"
| complete_workflow: "CompleteWorkflow env i w = (r, w') \<Longrightarrow> quiet_step env s w w'"
| insert_activity: "InsertActivity env s name i key wid input ao w = (r, w') \<Longrightarrow> quiet_step env s w w'"
| list_activities: "ListActiveActivities env names n w = (r, w') \<Longrightarrow> quiet_step env s w w'"
| reschedule_activity: "ReScheduleActivity env i at msg w = (r, w') \<Longrightarrow> quiet_step env s w w'"
| list_tasks: "ListActiveWorkflowTasks env names n w = (r, w') \<Longrightarrow> quiet_step env s w w'"
| complete_task: "CompleteWorkflowTask env i wid w = (r, w') \<Longrightarrow> quiet_step env s w w'"
| reschedule_task: "ReScheduleWorkflowTask env i wid at msg w = (r, w') \<Longrightarrow> quiet_step env s w w'"
| fail_task: "FailWorkflowTask env i wid msg w = (r, w') \<Longrightarrow> quiet_step env s w w'"
| list_signals: "ListWorkflowSignals env s wid w = (r, w') \<Longrightarrow> quiet_step env s w w'"
| elapse: "store w' = store w \<Longrightarrow> quiet_step env s w w'"

inductive engine_step :: "(db, 'v) env \<Rightarrow> 'v pg_storage \<Rightarrow> db world \<Rightarrow> db world \<Rightarrow> bool"
  for env :: "(db, 'v) env" and s :: "'v pg_storage"
where
  quiet: "quiet_step env s w w' \<Longrightarrow> engine_step env s w w'"
| complete_activity: "CompleteActivity env s i wid output w = (r, w') \<Longrightarrow> engine_step env s w w'"
| fail_activity: "FailActivity env i wid msg w = (r, w') \<Longrightarrow> engine_step env s w w'"
| insert_signal: "InsertSignal env s txer wid i key name input w = (r, w') \<Longrightarrow> engine_step env s w w'"

inductive cleanup_step :: "(db, 'v) env \<Rightarrow> db world \<Rightarrow> db world \<Rightarrow> bool" for env :: "(db, 'v) env" where
  delete_cold: "DeleteColdWorkflows env cutoff n w = (r, w') \<Longrightarrow> cleanup_step env w w'"
| delete_dead: "DeleteDeadWorkflows env cutoff n w = (r, w') \<Longrightarrow> cleanup_step env w w'"

definition engine_steps :: "(db, 'v) env \<Rightarrow> 'v pg_storage \<Rightarrow> db world \<Rightarrow> db world \<Rightarrow> bool" where
  "engine_steps env s = (engine_step env s)\<^sup>*\<^sup>*"

inductive storage_reachable :: "(db, 'v) env \<Rightarrow> 'v pg_storage \<Rightarrow> db world \<Rightarrow> bool"
  for env :: "(db, 'v) env" and s :: "'v pg_storage"
where
  initial: "store w = empty_db \<Longrightarrow> storage_reachable env s w"
| engine: "storage_reachable env s w \<Longrightarrow> engine_step env s w w' \<Longrightarrow> storage_reachable env s w'"
| cleanup: "storage_reachable env s w \<Longrightarrow> cleanup_step env w w' \<Longrightarrow> storage_reachable env s w'"

text \<open>Every step keeps a relation that every statement keeps.\<close>

context pg_quiet
begin

lemma quiet_step_keeps: "quiet_step env s w w' \<Longrightarrow> begin_func_law env \<Longrightarrow> R (store w) (store w')"
  by (induction rule: quiet_step.induct)
    ((erule keepsD [rotated], (rule keeps_quiet_methods, assumption?)+)+, simp add: R_refl)

end

context pg_step
begin

lemma engine_step_keeps: "engine_step env s w w' \<Longrightarrow> begin_func_law env \<Longrightarrow> R (store w) (store w')"
  by (induction rule: engine_step.induct)
    (simp add: quiet_step_keeps,
     (erule keepsD [rotated], (rule keeps_CompleteActivity keeps_FailActivity keeps_InsertSignal; assumption))+)

lemma engine_steps_keep: "engine_steps env s w w' \<Longrightarrow> begin_func_law env \<Longrightarrow> R (store w) (store w')"
  unfolding engine_steps_def
  by (induction rule: rtranclp_induct) (auto intro: R_refl R_trans dest: engine_step_keeps)

end

lemma cleanup_step_valid: "cleanup_step env w w' \<Longrightarrow> valid_db (store w) \<Longrightarrow> valid_db (store w')"
  by (induction rule: cleanup_step.induct)
    (auto simp: DeleteColdWorkflows_def DeleteDeadWorkflows_def valid_kept_def dest: keepsD [OF valid.keeps_deleteWorkflows])

lemma storage_reachable_valid:
  assumes "begin_func_law env" and "storage_reachable env s w"
  shows "valid_db (store w)"
  using assms(2)
proof (induction rule: storage_reachable.induct)
  case (engine w w')
  then show ?case using valid.engine_step_keeps [OF engine(2) assms(1)] by (simp add: valid_kept_def)
qed (simp_all add: valid_empty_db cleanup_step_valid)

section \<open>Sequences of calls as a relation between databases\<close>

definition engine_reach :: "(db, 'v) env \<Rightarrow> 'v pg_storage \<Rightarrow> db \<Rightarrow> db \<Rightarrow> bool" where
  "engine_reach env s d d' \<longleftrightarrow> (\<exists>w w'. store w = d \<and> store w' = d' \<and> engine_steps env s w w')"

lemma engine_steps_trans: "engine_steps env s u v \<Longrightarrow> engine_steps env s v w \<Longrightarrow> engine_steps env s u w"
  unfolding engine_steps_def by (rule rtranclp_trans)

lemma engine_steps_elapse: "store w' = store w \<Longrightarrow> engine_steps env s w w'"
  unfolding engine_steps_def by (intro r_into_rtranclp engine_step.quiet quiet_step.elapse)

lemma engine_steps_call: "engine_step env s w w' \<Longrightarrow> engine_steps env s w w'"
  unfolding engine_steps_def by (rule r_into_rtranclp)

lemma engine_reach_steps: "engine_reach env s d d' \<Longrightarrow> store w = d \<Longrightarrow> store w' = d' \<Longrightarrow> engine_steps env s w w'"
  unfolding engine_reach_def by (metis engine_steps_trans engine_steps_elapse)

lemma engine_reach_refl: "engine_reach env s d d"
  unfolding engine_reach_def by (intro exI [of _ "\<lparr>store = d, ticks = 0\<rparr>"]) (simp add: engine_steps_elapse)

lemma engine_reach_trans:
  assumes "engine_reach env s d1 d2" and "engine_reach env s d2 d3"
  shows "engine_reach env s d1 d3"
proof -
  obtain u v where "store u = d1" "store v = d2" "engine_steps env s u v" using assms(1) by (auto simp: engine_reach_def)
  moreover obtain w :: "db world" where "store w = d3" by (metis world.select_convs(1))
  moreover from this assms(2) \<open>store v = d2\<close> have "engine_steps env s v w" by (simp add: engine_reach_steps)
  ultimately show ?thesis unfolding engine_reach_def using engine_steps_trans by blast
qed

lemma engine_step_reaches: "engine_step env s w w' \<Longrightarrow> engine_reach env s (store w) (store w')"
  unfolding engine_reach_def using engine_steps_call by blast

lemma keeps_engine_reach:
  assumes "\<And>w r w'. m w = (r, w') \<Longrightarrow> engine_step env s w w'"
  shows "keeps (engine_reach env s) m"
  unfolding keeps_def using assms engine_step_reaches by (metis prod.collapse)

text \<open>
  The storage provides the contract of the engine's code for this relation too, among processes
  that do nothing but call its methods: whatever the code does is a sequence of such calls,
  interleaved with those of the others.
\<close>

lemma reach_keeps_methods:
  "keeps (engine_reach env s) (InsertWorkflow env s txer name i key input wo)"
  "keeps (engine_reach env s) (ListHistoryEventsForWorkflow env s i)"
  "keeps (engine_reach env s) (CompleteWorkflow env i)"
  "keeps (engine_reach env s) (InsertActivity env s name i key wid input ao)"
  "keeps (engine_reach env s) (ListActiveActivities env names n)"
  "keeps (engine_reach env s) (CompleteActivity env s i wid input)"
  "keeps (engine_reach env s) (ReScheduleActivity env i at msg)"
  "keeps (engine_reach env s) (FailActivity env i wid msg)"
  "keeps (engine_reach env s) (ListActiveWorkflowTasks env names n)"
  "keeps (engine_reach env s) (CompleteWorkflowTask env i wid)"
  "keeps (engine_reach env s) (ReScheduleWorkflowTask env i wid at msg)"
  "keeps (engine_reach env s) (FailWorkflowTask env i wid msg)"
  "keeps (engine_reach env s) (InsertSignal env s txer wid i key name input)"
  "keeps (engine_reach env s) (ListWorkflowSignals env s wid)"
  by (rule keeps_engine_reach, blast intro: engine_step.intros quiet_step.intros)+

interpretation reach_steps: step_relation "engine_reach env s" for env :: "(db, 'v) env" and s :: "'v pg_storage"
  by unfold_locales (rule engine_reach_refl, rule engine_reach_trans)

interpretation reach: kept_storage "engine_reach env s" "\<lambda>others. interleaved others (postgres env s)"
  "interferes (engine_reach env s)" for env :: "(db, 'v) env" and s :: "'v pg_storage"
  by unfold_locales
    (simp_all add: frame_keeps_def reach_steps.keeps_amid reach_keeps_methods)

text \<open>What every statement keeps, every sequence of calls keeps.\<close>

context pg_step
begin

lemma engine_reach_keeps: "engine_reach env s d d' \<Longrightarrow> begin_func_law env \<Longrightarrow> R d d'"
  by (auto simp: engine_reach_def dest: engine_steps_keep)

end

lemma engine_steps_reachable: "engine_steps env s w w' \<Longrightarrow> storage_reachable env s w \<Longrightarrow> storage_reachable env s w'"
  unfolding engine_steps_def by (induction rule: rtranclp_induct) (auto intro: storage_reachable.engine)

lemma engine_reach_reachable:
  "engine_reach env s (store w) (store w') \<Longrightarrow> storage_reachable env s w \<Longrightarrow> storage_reachable env s w'"
  using engine_reach_steps engine_steps_reachable by blast

end
