(* ===== verification/Engine_Properties.thy ===== *)
theory Engine_Properties
  imports Storage_Properties Replay Availability Reachability
begin

text \<open>
  The durable execution of workflows: replay of recorded results, scheduling of missing
  ones, suspension and completion, over the PostgreSQL storage.
\<close>

section \<open>What a run loads\<close>

text \<open>
  The loaded history is exact: a key has an event if and only if a completed
  activity of the workflow has that key, and the event carries the recorded output; loading
  changes nothing.
\<close>

lemma ListHistoryEvents_exact:
  assumes "keys_ok (store w)" and "ListHistoryEventsForWorkflow env s wid w = (Inr h, w')"
  shows "store w' = store w \<and> (\<forall>k e. h k = Some e \<longleftrightarrow> (\<exists>a \<in> set (activities (store w)).
      a_workflow_id a = wid \<and> a_status a = ActivityCompleted \<and> a_idempotency_key a = k \<and>
      e = NewEvent k (a_output a) (pg_Decoder s)))"
  using ListHistory_lookup [OF assms] by blast

text \<open>A database after the example activity was completed with output \<open>paid\<close>.\<close>

definition ref_done_world :: "db world" where
  "ref_done_world = snd (CompleteActivity ref_env ref_pg 3 1 (Some ''paid'') ref_world)"

lemma ref_done_run: "CompleteActivity ref_env ref_pg 3 1 (Some ''paid'') ref_world = (Inr (), ref_done_world)"
  by (simp add: ref_done_world_def prod_eq_iff CompleteActivity_runs)

lemma ref_done_valid: "valid_db (store ref_done_world)"
  using keepsD [OF valid.keeps_CompleteActivity [OF ref_begin_func_law] ref_done_run] ref_db_valid
  by (simp add: valid_kept_def)

lemma ref_done_keys: "keys_ok (store ref_done_world)"
  using ref_done_valid by (rule valid_dbD(1))

definition ref_history :: "string events" where
  "ref_history = (case ListHistoryEventsForWorkflow ref_env ref_pg 1 ref_done_world of
     (Inr h, w) \<Rightarrow> h | (Inl e, w) \<Rightarrow> Map.empty)"

lemma ref_history_run:
  "ListHistoryEventsForWorkflow ref_env ref_pg 1 ref_done_world =
     (Inr ref_history, snd (ListHistoryEventsForWorkflow ref_env ref_pg 1 ref_done_world))"
  by (simp add: ref_history_def ListHistoryEventsForWorkflow_def bindE_def wrapE_def exec_def sql_list_history_def Let_def)

lemma ListHistoryEvents_exact_witness:
  "store (snd (ListHistoryEventsForWorkflow ref_env ref_pg 1 ref_done_world)) = store ref_done_world"
  using ListHistoryEvents_exact [OF ref_done_keys ref_history_run] by simp

section \<open>Replay\<close>

text \<open>
  C4: a recorded result is replayed. When an activity was completed with an output that
  the encoder can read back, a later run of its workflow that makes the call with the
  activity's key gets that output, at once and with no effect on the store.
\<close>

theorem activity_result_replayed:
  assumes "begin_func_law env" and "valid_db (store w)" and "find_activity (store w) i = Some a"
    and codec: "\<And>b. enc_Encode (pg_encoder s) v = Inr b \<Longrightarrow> enc_Decode (pg_encoder s) (act_Out act) (Some b) = Inr v"
    and "CompleteActivity env s i wid (Some v) w = (Inr (), w1)"
    and "ListHistoryEventsForWorkflow env s (a_workflow_id a) w1 = (Inr h, w2)"
    and ctx: "ctx_history ctx = h" "activity_call_key env ctx act opts w3 = a_idempotency_key a"
  shows "ExecuteActivity env ctx act input opts w3 = (Inr v, w3)"
proof -
  obtain out where out: "encode_nullable s ''encode output'' (Some v) = Inr out"
    and ev: "h (a_idempotency_key a) = Some (NewEvent (a_idempotency_key a) out (pg_Decoder s))"
    by (rule history_after_CompleteActivity [OF assms(1-3,5,6)])
  from out obtain b where b: "enc_Encode (pg_encoder s) v = Inr b" "out = Some b"
    by (auto simp: encode_nullable_def split: sum.splits)
  have "ExecuteActivity env ctx act input opts w3 =
      (Get \<lparr>fut_event = Some (NewEvent (a_idempotency_key a) out (pg_Decoder s)), fut_out = act_Out act\<rparr>, w3)"
    by (rule ExecuteActivity_history) (simp add: ctx ev)
  with b codec [OF b(1)] show ?thesis by (simp add: pg_Decoder_def)
qed

definition ref_act :: activity where
  "ref_act = NewActivity ''charge'' ''string'' ''string''"

definition ref_ctx :: "(db, string) workflow_context" where
  "ref_ctx = NewWorkflowContext 1 (postgres ref_env ref_pg) ref_history Map.empty"

lemma ref_world_valid: "valid_db (store ref_world)"
  by (simp add: ref_db_valid)

lemma ref_codec:
  "enc_Encode (pg_encoder ref_pg) v = Inr b \<Longrightarrow> enc_Decode (pg_encoder ref_pg) t (Some b) = Inr v"
  by (simp add: ref_unmarshal_def)

lemma ref_codec_nil:
  "enc_Decode (pg_encoder ref_pg) t None = Inl (ErrorString ''unexpected end of JSON input'')"
  by (simp add: ref_unmarshal_def)

lemma ref_ctx_history: "ctx_history (NewWorkflowContext i st h m) = h"
  by (simp add: NewWorkflowContext_def)

lemma ref_find_activity: "find_activity (store ref_world) 3 = Some (ref_activity 3 31)"
  by (simp add: ref_world_def find_activity_def ref_db_def ref_activity_def new_activity_def)

lemma ref_activity_cols [simp]: "a_workflow_id (ref_activity i k) = 1" "a_idempotency_key (ref_activity i k) = k"
  by (simp_all add: ref_activity_def new_activity_def)

lemma ref_call_key: "activity_call_key ref_env ctx ref_act [WithActivityIdempotencyKey 31] w = 31"
  by (simp add: activity_call_key_def WithActivityIdempotencyKey_def)

lemma activity_result_replayed_witness:
  "ExecuteActivity ref_env ref_ctx ref_act None [WithActivityIdempotencyKey 31] ref_world = (Inr ''paid'', ref_world)"
  by (rule activity_result_replayed [OF ref_begin_func_law ref_world_valid ref_find_activity _ ref_done_run
        ref_history_run [folded ref_activity_cols(1) [of 3 31]]])
    (simp_all only: ref_codec ref_ctx_def ref_ctx_history ref_call_key ref_activity_cols)

lemma activity_by_key:
  assumes "keys_ok d" and "a \<in> set (activities d)" "b \<in> set (activities d)" and "a_idempotency_key a = a_idempotency_key b"
  shows "a = b"
  using assms unfolding keys_ok_def distinct_map by (elim conjE) (rule inj_onD)

text \<open>
  Steps of the engine among which the activity \<open>i\<close> is not completed with an output: any calls, also
  late attempts that complete it with nil again, reschedule or fail it.
\<close>

inductive step_without_output :: "(db, 'v) env \<Rightarrow> 'v pg_storage \<Rightarrow> uuid \<Rightarrow> db world \<Rightarrow> db world \<Rightarrow> bool"
  for env :: "(db, 'v) env" and s :: "'v pg_storage" and i :: uuid
where
  quiet: "quiet_step env s w w' \<Longrightarrow> step_without_output env s i w w'"
| complete_other: "CompleteActivity env s j wid output w = (r, w') \<Longrightarrow> j \<noteq> i \<or> output = None \<Longrightarrow>
    step_without_output env s i w w'"
| fail_activity: "FailActivity env j wid msg w = (r, w') \<Longrightarrow> step_without_output env s i w w'"
| insert_signal: "InsertSignal env s txer wid j key name input w = (r, w') \<Longrightarrow> step_without_output env s i w w'"

text \<open>A row of the activity that has an output had one before.\<close>

definition still_null :: "uuid \<Rightarrow> db \<Rightarrow> db \<Rightarrow> bool" where
  "still_null i d d' \<longleftrightarrow> (\<forall>b \<in> set (activities d'). a_id b = i \<longrightarrow> a_output b \<noteq> None \<longrightarrow>
     (\<exists>a \<in> set (activities d). a_id a = i \<and> a_output a \<noteq> None))"

lemma still_null_trans: "still_null i d1 d2 \<Longrightarrow> still_null i d2 d3 \<Longrightarrow> still_null i d1 d3"
  unfolding still_null_def by metis

lemma still_null_update:
  assumes "\<And>a. p a \<Longrightarrow> a_id a = i \<Longrightarrow> a_output (f a) \<noteq> None \<Longrightarrow> a_output a \<noteq> None" and "\<And>a. a_id (f a) = a_id a"
  shows "still_null i d (d\<lparr>activities := update_where p f (activities d)\<rparr>)"
  unfolding still_null_def using assms by (fastforce split: if_splits)

lemma touched_output [simp]: "a_output (a_set_updated_at n f r) = a_output (f r)"
  by (simp add: a_set_updated_at_def Let_def)

lemma still_null_same: "activities d' = activities d \<Longrightarrow> still_null i d d'"
  by (auto simp: still_null_def)

lemma stmt_still_null:
  "claim_activities ids q d = Inr (acts, d') \<Longrightarrow> still_null i d d'"
  "sql_reschedule_activity j at msg q d = Inr (n, d') \<Longrightarrow> still_null i d d'"
  "sql_fail_activity j msg q d = Inr (n, d') \<Longrightarrow> still_null i d d'"
  "sql_insert_activity j k wid nm inp p maxa ms at q d = Inr (n, d') \<Longrightarrow> still_null i d d'"
  "j \<noteq> i \<or> out = None \<Longrightarrow> sql_complete_activity j out q d = Inr (n, d') \<Longrightarrow> still_null i d d'"
proof -
  show "claim_activities ids q d = Inr (acts, d') \<Longrightarrow> still_null i d d'"
    by (auto simp: claim_activities_ok claim_activity_def intro!: still_null_update)
  show "sql_reschedule_activity j at msg q d = Inr (n, d') \<Longrightarrow> still_null i d d'"
    by (auto simp: sql_reschedule_activity_def intro!: still_null_update)
  show "sql_fail_activity j msg q d = Inr (n, d') \<Longrightarrow> still_null i d d'"
    by (auto simp: sql_fail_activity_def intro!: still_null_update)
  show "sql_complete_activity j out q d = Inr (n, d') \<Longrightarrow> still_null i d d'" if "j \<noteq> i \<or> out = None"
    using that by (auto simp: sql_complete_activity_def intro!: still_null_update)
  show "still_null i d d'" if "sql_insert_activity j k wid nm inp p maxa ms at q d = Inr (n, d')"
    using that by (cases rule: sql_insert_activity_ok) (auto simp: still_null_def new_activity_def)
qed

interpretation nulls: pg_quiet "still_null i" for i
proof unfold_locales
  show "still_null i d1 d2 \<Longrightarrow> still_null i d2 d3 \<Longrightarrow> still_null i d1 d3" for d1 d2 d3 by (rule still_null_trans)
qed (auto simp: stmt_keeps_def intro: still_null_same stmt_still_null dest!: stmt_activities)

interpretation nulls_steered: pg_steer "still_null i" for i
  by unfold_locales (auto simp: stmt_keeps_def intro: stmt_still_null still_null_same dest!: stmt_activities)

lemma step_without_output_engine: "step_without_output env s i w w' \<Longrightarrow> engine_step env s w w'"
  by (induction rule: step_without_output.induct) (blast intro: engine_step.intros)+

lemma step_without_output_null:
  assumes step: "step_without_output env s i w w'" and law: "begin_func_law env"
  shows "still_null i (store w) (store w')"
  using step
proof (cases rule: step_without_output.cases)
  case quiet
  then show ?thesis using law by (rule nulls.quiet_step_keeps)
next
  case (complete_other j wid v r)
  have "stmt_keeps (still_null i) (sql_complete_activity j out)" if "encode_nullable s ''encode output'' v = Inr out" for out
  proof -
    have "j \<noteq> i \<or> out = None" using complete_other(2) that by (auto simp: encode_nullable_def)
    from stmt_still_null(5) [OF this] show ?thesis by (simp add: stmt_keeps_def)
  qed
  with law keepsD [OF nulls.keeps_CompleteActivity_if complete_other(1)] show ?thesis by blast
next
  case (fail_activity j wid msg r)
  then show ?thesis using keepsD [OF nulls_steered.keeps_FailActivity [OF law]] by blast
next
  case (insert_signal txer wid j key name input r)
  then show ?thesis using keepsD [OF nulls_steered.keeps_InsertSignal [OF law]] by blast
qed

lemma steps_without_output:
  assumes "(step_without_output env s i)\<^sup>*\<^sup>* w w'" and law: "begin_func_law env"
  shows "engine_steps env s w w'" and "still_null i (store w) (store w')"
  using assms(1)
proof (induction rule: rtranclp_induct)
  case base
  show "engine_steps env s w w" "still_null i (store w) (store w)" by (simp_all add: engine_steps_def still_null_same)
next
  case (step w1 w2)
  show "engine_steps env s w w2"
    using step(3) engine_steps_call [OF step_without_output_engine [OF step(2)]] by (rule engine_steps_trans)
  show "still_null i (store w) (store w2)"
    using step(4) step_without_output_null [OF step(2) law] by (rule still_null_trans)
qed

text \<open>
  C40: a nil output is recorded as NULL. With a decoder that refuses nil bytes, as \<open>json.Unmarshal\<close>
  does, the activity is completed but no later run passes it, whatever calls of the engine come in
  between, until somebody completes it again with an output: every run that makes the call gets an
  error, and the error of the decoder, at once and with no effect, whenever the activity is still
  completed.
\<close>

theorem nil_output_not_replayed:
  assumes law: "begin_func_law env" and v: "valid_db (store w)" and a: "find_activity (store w) i = Some a"
    and nil: "enc_Decode (pg_encoder s) (act_Out act) None = Inl err"
    and run: "CompleteActivity env s i wid None w = (Inr (), w1)"
    and steps: "(step_without_output env s i)\<^sup>*\<^sup>* w1 w2"
    and load: "ListHistoryEventsForWorkflow env s (a_workflow_id a) w2 = (Inr h, w3)"
    and ctx: "ctx_history ctx = h" "activity_call_key env ctx act opts w4 = a_idempotency_key a"
    and call: "ExecuteActivity env ctx act input opts w4 = (r, w5)"
  shows "(\<exists>c. find_activity (store w1) i = Some c \<and> a_status c = ActivityCompleted) \<and> (\<exists>e. r = Inl e) \<and>
    (\<forall>b. find_activity (store w2) i = Some b \<longrightarrow> a_status b = ActivityCompleted \<longrightarrow>
       r = Inl (Errorf ''decode future event value'' err) \<and> w5 = w4)"
proof -
  from law run obtain c out where "encode_nullable s ''encode output'' None = Inr out" "a_output c = out"
    and c: "find_activity (store w1) i = Some c" "a_status c = ActivityCompleted"
      "a_idempotency_key c = a_idempotency_key a" "a_workflow_id c = a_workflow_id a"
    by (rule CompleteActivity_output) (simp add: a)
  then have nul: "a_output c = None" by (simp add: encode_nullable_def)
  have v1: "valid_db (store w1)"
    using keepsD [OF valid.keeps_CompleteActivity [OF law] run] v by (simp add: valid_kept_def)
  have keys: "keys_ok (store w2)"
    using valid.engine_steps_keep [OF steps_without_output(1) [OF steps law] law] v1 by (simp add: valid_kept_def valid_dbD)
  have null: "a_output b = None" if mem: "b \<in> set (activities (store w2))" "a_id b = i" for b
  proof (rule ccontr)
    assume "a_output b \<noteq> None"
    then obtain c' where "c' \<in> set (activities (store w1))" "a_id c' = i" "a_output c' \<noteq> None"
      using steps_without_output(2) [OF steps law] mem unfolding still_null_def by blast
    with find_activity_mem [OF valid_dbD(1) [OF v1] this(1)] c(1) nul show False by simp
  qed
  obtain b where b: "b \<in> set (activities (store w2))" "a_id b = i" "a_idempotency_key b = a_idempotency_key a" "a_workflow_id b = a_workflow_id a"
  proof -
    have "\<exists>b \<in> set (activities (store w2)). activity_kept c b"
      using acts.engine_steps_keep [OF steps_without_output(1) [OF steps law] law] find_activity_Some [OF c(1)]
      unfolding activities_kept_def by blast
    then show ?thesis using that find_activity_Some [OF c(1)] c(3,4) by (auto simp: activity_kept_def)
  qed
  have event: "h (a_idempotency_key a) = (if a_status b = ActivityCompleted
      then Some (NewEvent (a_idempotency_key a) None (pg_Decoder s)) else None)"
  proof (cases "a_status b = ActivityCompleted")
    case True
    with b null [OF b(1,2)] show ?thesis
      by (simp add: ListHistory_lookup(1) [OF keys load]) (metis (no_types))
  next
    case False
    have "h (a_idempotency_key a) \<noteq> Some e" for e
    proof
      assume "h (a_idempotency_key a) = Some e"
      then obtain x where "x \<in> set (activities (store w2))" "a_status x = ActivityCompleted" "a_idempotency_key x = a_idempotency_key a"
        unfolding ListHistory_lookup(1) [OF keys load] by blast
      with activity_by_key [OF keys this(1) b(1)] b(3) False show False by simp
    qed
    then have "h (a_idempotency_key a) = None" by blast
    with False show ?thesis by simp
  qed
  have "r = Inl (Errorf ''decode future event value'' err) \<and> w5 = w4" if "a_status b = ActivityCompleted"
    using call ExecuteActivity_history [of ctx env act opts w4] event that nil by (simp add: ctx pg_Decoder_def)
  moreover have "\<exists>e. r = Inl e" if "a_status b \<noteq> ActivityCompleted"
    using ExecuteActivity_pending [OF _ call] event that by (simp add: ctx)
  moreover have "find_activity (store w2) i = Some b" using find_activity_mem [OF keys b(1)] b(2) by simp
  ultimately show ?thesis using c(1,2) by (cases "a_status b = ActivityCompleted") auto
qed

lemma CompleteActivity_nil_runs: "fst (CompleteActivity ref_env ref_pg 3 1 None ref_world) = Inr ()"
  by code_simp

definition ref_nil_world :: "db world" where
  "ref_nil_world = snd (CompleteActivity ref_env ref_pg 3 1 None ref_world)"

lemma ref_nil_run: "CompleteActivity ref_env ref_pg 3 1 None ref_world = (Inr (), ref_nil_world)"
  by (simp add: ref_nil_world_def prod_eq_iff CompleteActivity_nil_runs)

definition ref_nil_history :: "string events" where
  "ref_nil_history = (case ListHistoryEventsForWorkflow ref_env ref_pg 1 ref_nil_world of
     (Inr h, w) \<Rightarrow> h | (Inl e, w) \<Rightarrow> Map.empty)"

lemma ref_nil_history_run:
  "ListHistoryEventsForWorkflow ref_env ref_pg 1 ref_nil_world =
     (Inr ref_nil_history, snd (ListHistoryEventsForWorkflow ref_env ref_pg 1 ref_nil_world))"
  by (simp add: ref_nil_history_def ListHistoryEventsForWorkflow_def bindE_def wrapE_def exec_def sql_list_history_def Let_def)

lemma nil_output_not_replayed_witness:
  "fst (ExecuteActivity ref_env (NewWorkflowContext 1 (postgres ref_env ref_pg) ref_nil_history Map.empty) ref_act None
     [WithActivityIdempotencyKey 31] ref_world) =
   Inl (Errorf ''decode future event value'' (ErrorString ''unexpected end of JSON input''))"
  using nil_output_not_replayed [OF ref_begin_func_law ref_world_valid ref_find_activity _ ref_nil_run rtranclp.rtrancl_refl
      ref_nil_history_run [folded ref_activity_cols(1) [of 3 31]] ref_ctx_history [of 1 "postgres ref_env ref_pg" ref_nil_history Map.empty]
      _ prod.collapse [symmetric], where act = ref_act and err = "ErrorString ''unexpected end of JSON input''" and
      opts = "[WithActivityIdempotencyKey 31]" and ?w4.0 = ref_world and input = None]
  by (simp only: ref_codec_nil ref_call_key ref_activity_cols simp_thms) blast

text \<open>
  C33: a completed activity can be completed again (a stuck recovery hands it to a second
  worker while the first still runs): when the service answers and the output can be encoded, the
  second completion succeeds whatever is recorded, and its output replaces the first. A run that loaded
  the history before replays the first result, one that loads it afterwards the second.
\<close>

theorem CompleteActivity_overwrites:
  assumes law: "begin_func_law env" and av: "available env" and v: "valid_db (store w)"
    and a: "find_activity (store w) i = Some a" "a_status a = ActivityCompleted"
    and enc: "enc_Encode (pg_encoder s) v = Inr b"
  shows "\<exists>w1 c h w0 h' w2. CompleteActivity env s i (a_workflow_id a) (Some v) w = (Inr (), w1) \<and>
    find_activity (store w1) i = Some c \<and> a_status c = ActivityCompleted \<and> a_output c = Some b \<and>
    ListHistoryEventsForWorkflow env s (a_workflow_id a) w = (Inr h, w0) \<and>
    h (a_idempotency_key a) = Some (NewEvent (a_idempotency_key a) (a_output a) (pg_Decoder s)) \<and>
    ListHistoryEventsForWorkflow env s (a_workflow_id a) w1 = (Inr h', w2) \<and>
    h' (a_idempotency_key a) = Some (NewEvent (a_idempotency_key a) (Some b) (pg_Decoder s))"
proof -
  have out: "encode_nullable s ''encode output'' (Some v) = Inr (Some b)" by (simp add: encode_nullable_def enc)
  obtain w1 where run: "CompleteActivity env s i (a_workflow_id a) (Some v) w = (Inr (), w1)"
    using CompleteActivity_succeeds [OF av a(1) out] by blast
  from law run obtain c out' where "encode_nullable s ''encode output'' (Some v) = Inr out'" "a_output c = out'"
    and "find_activity (store w1) i = Some c" "a_status c = ActivityCompleted"
    by (rule CompleteActivity_output)
  with out have c: "find_activity (store w1) i = Some c" "a_status c = ActivityCompleted" "a_output c = Some b" by simp_all
  obtain h w0 where before: "ListHistoryEventsForWorkflow env s (a_workflow_id a) w = (Inr h, w0)"
    using ListHistory_succeeds [OF av] by blast
  obtain h' w2 where after: "ListHistoryEventsForWorkflow env s (a_workflow_id a) w1 = (Inr h', w2)"
    using ListHistory_succeeds [OF av] by blast
  have "h (a_idempotency_key a) = Some (NewEvent (a_idempotency_key a) (a_output a) (pg_Decoder s))"
    using find_activity_Some [OF a(1)] a(2) unfolding ListHistory_lookup(1) [OF valid_dbD(1) [OF v] before] by blast
  moreover have "h' (a_idempotency_key a) = Some (NewEvent (a_idempotency_key a) (Some b) (pg_Decoder s))"
    by (rule history_after_CompleteActivity [OF law v a(1) run after]) (simp add: out)
  ultimately show ?thesis using run c before after by blast
qed

lemma ref_done_found: "map_option (\<lambda>a. (a_status a, a_output a, a_workflow_id a)) (find_activity (store ref_done_world) 3) =
    Some (ActivityCompleted, Some ''paid'', 1)"
  unfolding ref_done_world_def by code_simp

lemma CompleteActivity_overwrites_witness:
  "\<exists>w1 c. CompleteActivity ref_env ref_pg 3 1 (Some ''refused'') ref_done_world = (Inr (), w1) \<and>
     find_activity (store w1) 3 = Some c \<and> a_output c = Some ''refused''"
proof -
  obtain a where a: "find_activity (store ref_done_world) 3 = Some a" "a_status a = ActivityCompleted" "a_workflow_id a = 1"
    using ref_done_found by auto
  have "enc_Encode (pg_encoder ref_pg) ''refused'' = Inr ''refused''" by simp
  from CompleteActivity_overwrites [OF ref_begin_func_law ref_available ref_done_valid a(1,2) this] a(3) show ?thesis by auto
qed

section \<open>Signals\<close>

lemma ReceiveSignal_known:
  assumes "ctx_signals ctx (signal_send_key env (ctx_workflowID ctx) sig opts) = Some e"
  shows "ReceiveSignal env ctx sig opts w = (Get \<lparr>fut_event = Some e, fut_out = sig_In sig\<rparr>, w)"
  using assms by (simp add: ReceiveSignal_def ReceiveSignalAsync_def signal_send_key_def bindE_def)

text \<open>
  C5: a signal that was sent reaches the workflow. When a payload that the encoder can read
  back was sent, a later run of the workflow that receives the signal with the same options
  gets that payload, at once and with no effect on the store.
\<close>

theorem signal_delivered:
  assumes law: "begin_func_law env" and fresh: "fresh_uuids env w" and v: "valid_db (store w)"
    and codec: "\<And>b. enc_Encode (pg_encoder s) v = Inr b \<Longrightarrow> enc_Decode (pg_encoder s) (sig_In sig) (Some b) = Inr v"
    and send: "SendSignal env (postgres env s) txer wid sig (Some v) opts w = (Inr (), w1)"
    and load: "ListWorkflowSignals env s wid w1 = (Inr h, w2)"
    and ctx: "ctx_signals ctx = h" "ctx_workflowID ctx = wid"
  shows "ReceiveSignal env ctx sig opts w3 = (Inr v, w3)"
proof -
  let ?k = "signal_send_key env wid sig opts"
  have "all_or_nothing (signal_received s wid (env_new_v7 env (ticks w)) ?k (sig_Name sig) (Some v))
      (store w) (Inr ()) (store w1)"
    by (rule SendSignal_tx [OF law send]) (rule InsertSignal_body [OF fresh_uuids_later [OF fresh]])
  then obtain inp now where enc: "encode_nullable s ''encode input'' (Some v) = Inr inp"
    and sigs: "signals (store w1) = signals (store w) @ [new_signal now (env_new_v7 env (ticks w)) ?k wid (sig_Name sig) inp]"
    by (auto simp: all_or_nothing_def signal_received_def)
  have "valid_db (store w1)"
    using keepsD [OF valid.pgst.keeps_SendSignal [of "(id, env, s)", simplified, OF law] send] v
    by (simp add: valid_kept_def)
  from ListWorkflowSignals_lookup(1) [OF valid_dbD(1) [OF this] load] sigs
  have "h ?k = Some (NewEvent ?k inp (pg_Decoder s))" by (auto simp: new_signal_def)
  with ctx have "ReceiveSignal env ctx sig opts w3 =
      (Get \<lparr>fut_event = Some (NewEvent ?k inp (pg_Decoder s)), fut_out = sig_In sig\<rparr>, w3)"
    by (intro ReceiveSignal_known) simp
  moreover from enc obtain b where "enc_Encode (pg_encoder s) v = Inr b" "inp = Some b"
    by (auto simp: encode_nullable_def split: sum.splits)
  ultimately show ?thesis using codec by (simp add: pg_Decoder_def)
qed

definition ref_sent_world :: "db world" where
  "ref_sent_world = snd (SendSignal ref_env (postgres ref_env ref_pg) (CallerTx 0) 1 ref_signal (Some ''42'') [] ref_world)"

lemma ref_sent_run:
  "SendSignal ref_env (postgres ref_env ref_pg) (CallerTx 0) 1 ref_signal (Some ''42'') [] ref_world = (Inr (), ref_sent_world)"
  by (simp add: ref_sent_world_def prod_eq_iff SendSignal_runs)

definition ref_sent_signals :: "string events" where
  "ref_sent_signals = (case ListWorkflowSignals ref_env ref_pg 1 ref_sent_world of
     (Inr h, w) \<Rightarrow> h | (Inl e, w) \<Rightarrow> Map.empty)"

lemma ref_sent_signals_run:
  "ListWorkflowSignals ref_env ref_pg 1 ref_sent_world =
     (Inr ref_sent_signals, snd (ListWorkflowSignals ref_env ref_pg 1 ref_sent_world))"
  by (simp add: ref_sent_signals_def ListWorkflowSignals_def bindE_def wrapE_def exec_def sql_list_signals_def Let_def)

lemma signal_delivered_witness:
  "ReceiveSignal ref_env (NewWorkflowContext 1 (postgres ref_env ref_pg) Map.empty ref_sent_signals) ref_signal [] ref_world
     = (Inr ''42'', ref_world)"
  by (rule signal_delivered [OF ref_begin_func_law ref_world_fresh ref_world_valid _ ref_sent_run ref_sent_signals_run])
    (simp_all only: ref_codec NewWorkflowContext_def workflow_context.simps)

section \<open>Scheduling\<close>

lemma default_activity_options [simp]:
  "defaultActivityOptionsFor env k w = (Inr \<lparr>ao_idempotencyKey = k, ao_priority = 0, ao_maxAttempts = 1,
     ao_stuckTimeout = Minute * 5, ao_scheduledAt = env_go_now env (ticks w)\<rparr>, w)"
  by (simp add: defaultActivityOptionsFor_def bindE_def)

lemma ExecuteActivity_inserts:
  assumes "ctx_history ctx (activity_call_key env ctx act opts w) = None" and "ctx_storage ctx = postgres env s"
    and "ExecuteActivity env ctx act input opts w = (r, w')"
  obtains i o' r1 where "InsertActivity env s (act_Name act) i (activity_call_key env ctx act opts w)
      (ctx_workflowID ctx) input o' (w\<lparr>ticks := Suc (ticks w)\<rparr>) = (r1, w')"
    "r = Inl (case r1 of Inl e \<Rightarrow> Errorf (''insert activity [name = '' @ act_Name act @ '']'') e | Inr _ \<Rightarrow> ErrWorkflowSuspended)"
  using assms
  by (auto simp: ExecuteActivity_def ExecuteActivityAsync_def activity_call_key_def bindE_def wrapE_def Let_def
      Get_def split: prod.splits sum.splits)

definition activity_inserted :: "uuid \<Rightarrow> uuid \<Rightarrow> string \<Rightarrow> db \<Rightarrow> db \<Rightarrow> bool" where
  "activity_inserted key wid name d d' \<longleftrightarrow> key \<notin> a_idempotency_key ` set (activities d) \<and>
     (\<exists>a. d' = d\<lparr>activities := activities d @ [a]\<rparr> \<and> a_idempotency_key a = key \<and> a_name a = name \<and>
        a_workflow_id a = wid \<and> a_status a = ActivityPending \<and> a_attempts a = 0)"

lemma sql_insert_activity_effect:
  assumes "sql_insert_activity i key wid name inp p m ms at q d = Inr (n, d')"
  shows "(d' = d \<or> activity_inserted key wid name d d') \<and> key \<in> a_idempotency_key ` set (activities d')"
  using assms
proof (cases rule: sql_insert_activity_ok)
  case inserted
  then have "activity_inserted key wid name d d'"
    unfolding activity_inserted_def
    by (intro conjI exI [of _ "new_activity (q_now q) i key wid name inp p m ms at"]) (simp_all add: new_activity_def)
  then show ?thesis by (auto simp: activity_inserted_def)
qed simp

lemma InsertActivity_effect:
  assumes "InsertActivity env s name i key wid input o' w = (r, w')"
  shows "store w' = store w \<or> activity_inserted key wid name (store w) (store w')"
    and "r = Inr u \<Longrightarrow> key \<in> a_idempotency_key ` set (activities (store w'))"
  using assms
  by (cases r; auto simp: InsertActivity_def bindE_ok bindE_err wrapE_err exec_ok
      dest!: exec_err sql_insert_activity_effect)+

lemma ExecuteActivity_stores:
  assumes "ctx_history ctx (activity_call_key env ctx act opts w) = None" and "ctx_storage ctx = postgres env s"
    and "ExecuteActivity env ctx act input opts w = (Inl ErrWorkflowSuspended, w')"
  shows "activity_call_key env ctx act opts w \<in> a_idempotency_key ` set (activities (store w'))"
  using assms
proof (rule ExecuteActivity_inserts)
  fix i o' r1
  assume "InsertActivity env s (act_Name act) i (activity_call_key env ctx act opts w) (ctx_workflowID ctx)
      input o' (w\<lparr>ticks := Suc (ticks w)\<rparr>) = (r1, w')"
    and "Inl ErrWorkflowSuspended = Inl (case r1 of Inl e \<Rightarrow> Errorf (''insert activity [name = '' @ act_Name act @ '']'') e
      | Inr _ \<Rightarrow> ErrWorkflowSuspended)"
  moreover from this(2) have "r1 = Inr ()" by (auto simp: Errorf_def split: sum.splits)
  ultimately show ?thesis by (blast intro: InsertActivity_effect(2))
qed

text \<open>
  C6: a call with no recorded result never returns a value. It adds at most one
  activity, pending, not yet attempted and with the key of the call, and only when the key
  was not in use; when it suspends the workflow, an activity with that key is stored, so
  that the workflow will be resumed.
\<close>

theorem ExecuteActivity_schedules_once:
  assumes "ctx_history ctx (activity_call_key env ctx act opts w) = None" and "ctx_storage ctx = postgres env s"
    and "ExecuteActivity env ctx act input opts w = (r, w')"
  defines "k \<equiv> activity_call_key env ctx act opts w"
  shows "(\<exists>e. r = Inl e) \<and>
    (store w' = store w \<or> activity_inserted k (ctx_workflowID ctx) (act_Name act) (store w) (store w')) \<and>
    (r = Inl ErrWorkflowSuspended \<longrightarrow> k \<in> a_idempotency_key ` set (activities (store w')))"
proof -
  obtain i o' r1 where run: "InsertActivity env s (act_Name act) i k (ctx_workflowID ctx) input o'
      (w\<lparr>ticks := Suc (ticks w)\<rparr>) = (r1, w')"
    and r: "r = Inl (case r1 of Inl e \<Rightarrow> Errorf (''insert activity [name = '' @ act_Name act @ '']'') e
      | Inr _ \<Rightarrow> ErrWorkflowSuspended)"
    using assms(1-3) unfolding k_def by (rule ExecuteActivity_inserts)
  have "r = Inl ErrWorkflowSuspended \<longrightarrow> k \<in> a_idempotency_key ` set (activities (store w'))"
    using ExecuteActivity_stores [OF assms(1,2)] assms(3) unfolding k_def by blast
  with InsertActivity_effect(1) [OF run] r show ?thesis by simp
qed

lemma ExecuteActivity_schedules_once_witness:
  "\<exists>e. fst (ExecuteActivity ref_env ref_ctx ref_act None [WithActivityIdempotencyKey 99] ref_world) = Inl e"
proof -
  have key: "activity_call_key ref_env ref_ctx ref_act [WithActivityIdempotencyKey 99] ref_world = 99"
    by (simp add: activity_call_key_def WithActivityIdempotencyKey_def)
  have "ref_history 99 = None"
  proof (rule ccontr)
    assume "ref_history 99 \<noteq> None"
    then obtain a where "a \<in> set (activities (store ref_done_world))" "a_idempotency_key a = 99"
      using ListHistory_lookup(1) [OF ref_done_keys ref_history_run] by blast
    moreover have "\<forall>a \<in> set (activities (store ref_done_world)). a_idempotency_key a \<noteq> 99"
      unfolding ref_done_world_def by code_simp
    ultimately show False by blast
  qed
  then show ?thesis
    using ExecuteActivity_schedules_once [of ref_ctx ref_env ref_act "[WithActivityIdempotencyKey 99]" ref_world ref_pg
        None "fst (ExecuteActivity ref_env ref_ctx ref_act None [WithActivityIdempotencyKey 99] ref_world)"
        "snd (ExecuteActivity ref_env ref_ctx ref_act None [WithActivityIdempotencyKey 99] ref_world)"]
    by (simp add: key) (simp add: ref_ctx_def NewWorkflowContext_def)
qed

end
