(* ===== verification/Worker_Properties.thy ===== *)
theory Worker_Properties
  imports Engine_Properties
begin

text \<open>
  What the workers make of the outcome of a handler: completion, suspension, the retry
  policy, and the cleanup.
\<close>

section \<open>Single statements\<close>

definition workflow_completed :: "uuid \<Rightarrow> db \<Rightarrow> db \<Rightarrow> bool" where
  "workflow_completed i d d' \<longleftrightarrow>
     row_changed find_workflow i (\<lambda>a b. \<exists>now. b = a\<lparr>w_status := WorkflowCompleted, w_completed_at := Some now,
       w_error_message := None, w_updated_at := w_updated_at b\<rparr>) d d' \<and>
     tasks d' = tasks d \<and> activities d' = activities d \<and> signals d' = signals d"

lemma CompleteWorkflow_effect:
  assumes "CompleteWorkflow env i w = (r, w')"
  shows "all_or_nothing (workflow_completed i) (store w) r (store w')"
  using assms unfolding CompleteWorkflow_def
proof (rule exec_affecting_all_or_nothing)
  show "d = store w" if "sql_complete_workflow i q (store w) = Inr (0, d)" for q d
    using that by (auto simp: sql_complete_workflow_def update_where_none)
  show "workflow_completed i (store w) d" if "n \<noteq> 0" "sql_complete_workflow i q (store w) = Inr (n, d)" for q n d
    using that by (auto simp: workflow_completed_def sql_complete_workflow_def
        intro!: workflow_row_changed exI [of _ "q_now q"] w_touch_eq)
qed

lemma ReScheduleActivity_effect:
  assumes "ReScheduleActivity env i at msg w = (r, w')"
  shows "all_or_nothing (activity_rescheduled i at msg) (store w) r (store w')"
  using assms unfolding ReScheduleActivity_def
proof (rule exec_affecting_all_or_nothing)
  show "d = store w" if "sql_reschedule_activity i at msg q (store w) = Inr (0, d)" for q d
    using that by (auto simp: sql_reschedule_activity_def update_where_none)
  show "activity_rescheduled i at msg (store w) d"
    if "n \<noteq> 0" "sql_reschedule_activity i at msg q (store w) = Inr (n, d)" for q n d
    using sql_reschedule_activity_effect [OF that(2,1)] by (simp add: activity_rescheduled_def)
qed

section \<open>The outcome of a run\<close>

text \<open>The two loads of \<open>runWorkflow\<close>.\<close>

definition workflow_loads :: "('d, 'v) env \<Rightarrow> ('d, 'v) storage \<Rightarrow> uuid \<Rightarrow> ('d, 'v events \<times> 'v events) io" where
  "workflow_loads env st i = wrapE ''wait group'' (env_wait_group env
     (wrapE (''list history events for workflow [id = '' @ env_uuid_string env i @ '']'')
        (st_ListHistoryEventsForWorkflow st i))
     (wrapE (''list signals for workflow [id = '' @ env_uuid_string env i @ '']'')
        (st_ListWorkflowSignals st i)))"

lemma runWorkflow_loaded:
  assumes "workflow_loads env st i w = (Inr (h, sg), w1)"
  shows "runWorkflow env st i input handler w =
    tryE (handler (NewWorkflowContext i st h sg) input)
      (\<lambda>err. if errors_Is_suspended err then ret () else throw err)
      (\<lambda>_. wrapE (''complete workflow [id = '' @ env_uuid_string env i @ '']'') (st_CompleteWorkflow st i)) w1"
  unfolding runWorkflow_def workflow_loads_def [symmetric]
  by (simp add: bindE_Inr [where m = "workflow_loads env st i", OF assms])

text \<open>
  When the handler returns nil, the run marks the workflow completed, clears its
  error and touches nothing else, or reports an error.
\<close>

lemma run_completes_workflow:
  assumes "workflow_loads env (postgres env s) i w = (Inr (h, sg), w1)"
    and "handler (NewWorkflowContext i (postgres env s) h sg) input w1 = (Inr (), w2)"
    and "runWorkflow env (postgres env s) i input handler w = (r, w')"
  shows "all_or_nothing (workflow_completed i) (store w2) r (store w')"
proof -
  have "wrapE (''complete workflow [id = '' @ env_uuid_string env i @ '']'') (CompleteWorkflow env i) w2 = (r, w')"
    using assms(2,3) by (simp add: runWorkflow_loaded [OF assms(1)] tryE_def)
  then show ?thesis by (rule wrapE_all_or_nothing) (rule CompleteWorkflow_effect)
qed

definition nil_handler :: "(db, string) workflow_fn" where
  "nil_handler ctx input = ret ()"

definition ref_run :: "(error + unit) \<times> db world" where
  "ref_run = runWorkflow ref_env (postgres ref_env ref_pg) 1 ''input'' nil_handler ref_world"

definition ref_loads :: "(string events \<times> string events) \<times> db world" where
  "ref_loads = (case workflow_loads ref_env (postgres ref_env ref_pg) 1 ref_world of
     (Inr x, w) \<Rightarrow> (x, w) | (Inl e, w) \<Rightarrow> ((Map.empty, Map.empty), w))"

lemma ref_loads_run:
  "workflow_loads ref_env (postgres ref_env ref_pg) 1 ref_world = (Inr (fst (fst ref_loads), snd (fst ref_loads)), snd ref_loads)"
  by (simp add: ref_loads_def workflow_loads_def plain_wait_group_def ListHistoryEventsForWorkflow_def ListWorkflowSignals_def
      bindE_def wrapE_def exec_def Let_def sql_list_history_def sql_list_signals_def)

lemma ref_loads_store: "store (snd ref_loads) = ref_db"
  by (simp add: ref_loads_def workflow_loads_def plain_wait_group_def ListHistoryEventsForWorkflow_def ListWorkflowSignals_def
      bindE_def wrapE_def exec_def Let_def sql_list_history_def sql_list_signals_def)

lemma ref_run_ok: "fst ref_run = Inr ()"
  unfolding ref_run_def by code_simp

lemma run_completes_workflow_witness: "workflow_completed 1 ref_db (store (snd ref_run))"
  using run_completes_workflow [OF ref_loads_run, of nil_handler "''input''" "snd ref_loads" "Inr ()" "snd ref_run"]
    ref_run_ok
  by (simp add: nil_handler_def ref_run_def all_or_nothing_def prod_eq_iff ref_loads_store)

text \<open>
  C23: when the handler returns an error that contains \<open>ErrWorkflowSuspended\<close> under any
  wrapping, the worker completes the task and nothing else: beyond what the handler did,
  the workflow keeps its status, its attempts and every other column but its error message.
\<close>

theorem suspended_run_completes_task:
  assumes law: "begin_func_law env"
    and name: "wr_Name (tr_Workflow task) = wf_Name wflow"
    and input: "pg_Decoder s (wf_In wflow) (wr_Input (tr_Workflow task)) = Inr v"
    and loads: "workflow_loads env (postgres env s) (wr_ID (tr_Workflow task)) w = (Inr (h, sg), w1)"
    and susp: "handler (NewWorkflowContext (wr_ID (tr_Workflow task)) (postgres env s) h sg) v w1 = (Inl err, w2)"
      "wraps ErrWorkflowSuspended err"
    and run: "handleWorkflowTask env (postgres env s) config (RegisterWorkflow env reg wflow handler []) task w = (r, w')"
  shows "all_or_nothing (task_completed (tr_ID task) (wr_ID (tr_Workflow task))) (store w2) r (store w')"
proof -
  have "runWorkflow env (postgres env s) (wr_ID (tr_Workflow task)) v handler w = (Inr (), w2)"
    using susp by (simp add: runWorkflow_loaded [OF loads] tryE_def errors_Is_suspended_iff)
  then have "worker_completeWorkflowTask (postgres env s) task w2 = (r, w')"
    using run name input
    by (simp add: handleWorkflowTask_def RegisterWorkflow_def ToWorkflowRun_def NewWorkflowRun_def wrun_IntoInput_def tryE_def)
  then show ?thesis
    unfolding worker_completeWorkflowTask_def postgres_simps
  proof (rule wrapE_all_or_nothing)
    fix r1
    assume "CompleteWorkflowTask env (tr_ID task) (wr_ID (tr_Workflow task)) w2 = (r1, w')"
    then show "all_or_nothing (task_completed (tr_ID task) (wr_ID (tr_Workflow task))) (store w2) r1 (store w')"
      unfolding CompleteWorkflowTask_def by (rule tx_all_or_nothing [OF law]) (rule CompleteWorkflowTask_body)
  qed
qed

definition waiting_handler :: "(db, string) workflow_fn" where
  "waiting_handler ctx input = throw (WrapError ''step 1: workflow suspended'' (WrapErrors ''joined'' [ErrorString ''x'', ErrWorkflowSuspended]))"

definition ref_task :: workflow_task_record where
  "ref_task = \<lparr>tr_ID = 2, tr_Workflow = \<lparr>wr_ID = 1, wr_IdempotencyKey = 11, wr_Name = ''order'',
     wr_Status = WorkflowRunning, wr_Input = Some ''input'', wr_Output = None, wr_Priority = 0, wr_Attempts = 1,
     wr_MaxAttempts = 3, wr_StuckTimeoutMillis = 300000, wr_CompletedAt = None, wr_ErrorMessage = None,
     wr_CreatedAt = 5, wr_UpdatedAt = 5\<rparr>, tr_Status = TaskRunning, tr_ScheduledAt = 5, tr_RunAt = Some 9,
     tr_StuckAt = Some 300000000009, tr_CompletedAt = None, tr_CreatedAt = 5, tr_UpdatedAt = 9\<rparr>"

definition ref_suspended :: "(error + unit) \<times> db world" where
  "ref_suspended = handleWorkflowTask ref_env (postgres ref_env ref_pg) DefaultWorkflowWorkerConfig
     (RegisterWorkflow ref_env NewWorkflowRegistry ref_wflow waiting_handler []) ref_task ref_world"

lemma ref_suspended_ok: "fst ref_suspended = Inr ()"
  unfolding ref_suspended_def by code_simp

lemma suspended_run_completes_task_witness: "task_completed 2 1 ref_db (store (snd ref_suspended))"
proof -
  have "wraps ErrWorkflowSuspended (WrapError ''step 1: workflow suspended'' (WrapErrors ''joined'' [ErrorString ''x'', ErrWorkflowSuspended]))"
    by (intro wraps_message wraps_join [OF wraps_self]) simp
  from suspended_run_completes_task [OF ref_begin_func_law, of ref_task ref_wflow ref_pg "''input''" ref_world _ _ _
      waiting_handler _ "snd ref_loads" DefaultWorkflowWorkerConfig NewWorkflowRegistry "Inr ()" "snd ref_suspended",
      OF _ _ _ _ this] ref_loads_run ref_suspended_ok
  show ?thesis
    by (simp add: ref_task_def ref_wflow_def NewWorkflow_def pg_Decoder_def ref_unmarshal_def waiting_handler_def
        ref_suspended_def all_or_nothing_def prod_eq_iff ref_loads_store)
qed


text \<open>
  C34: marking a workflow completed does not look at its status: when a run of a workflow that has
  failed loaded its inputs and its handler returns nil, and the service answers the one statement
  that follows, the run succeeds: the workflow ends up completed, its error erased.
\<close>

theorem failed_workflow_resurrected:
  assumes "workflow_loads env (postgres env s) i w = (Inr (h, sg), w1)"
    and "handler (NewWorkflowContext i (postgres env s) h sg) input w1 = (Inr (), w2)"
    and "find_workflow (store w2) i = Some x" and "w_status x = WorkflowFailed"
    and "env_outcome env (ticks w2) = Served"
  shows "\<exists>w' y. runWorkflow env (postgres env s) i input handler w = (Inr (), w') \<and>
    find_workflow (store w') i = Some y \<and> w_status y = WorkflowCompleted \<and> w_error_message y = None"
proof -
  obtain w' where completes: "CompleteWorkflow env i w2 = (Inr (), w')"
    using CompleteWorkflow_succeeds [OF assms(5,3)] by blast
  then have run: "runWorkflow env (postgres env s) i input handler w = (Inr (), w')"
    using assms(2) by (simp add: runWorkflow_loaded [OF assms(1)] tryE_def)
  have "workflow_completed i (store w2) (store w')"
    using CompleteWorkflow_effect [OF completes] by (simp add: all_or_nothing_def)
  then obtain y now where "find_workflow (store w') i = Some y"
      "y = x\<lparr>w_status := WorkflowCompleted, w_completed_at := Some now, w_error_message := None, w_updated_at := w_updated_at y\<rparr>"
    using assms(3) by (auto simp: workflow_completed_def row_changed_def)
  with run show ?thesis by (cases y; cases x) auto
qed

definition ref_failed_world :: "db world" where
  "ref_failed_world = snd (FailActivity ref_env 3 1 ''declined'' ref_world)"

definition ref_failed_loads :: "(string events \<times> string events) \<times> db world" where
  "ref_failed_loads = (case workflow_loads ref_env (postgres ref_env ref_pg) 1 ref_failed_world of
     (Inr x, w) \<Rightarrow> (x, w) | (Inl e, w) \<Rightarrow> ((Map.empty, Map.empty), w))"

lemma ref_failed_loads_run:
  "workflow_loads ref_env (postgres ref_env ref_pg) 1 ref_failed_world =
     (Inr (fst (fst ref_failed_loads), snd (fst ref_failed_loads)), snd ref_failed_loads)"
  by (simp add: ref_failed_loads_def workflow_loads_def plain_wait_group_def ListHistoryEventsForWorkflow_def
      ListWorkflowSignals_def bindE_def wrapE_def exec_def Let_def sql_list_history_def sql_list_signals_def)

lemma ref_failed_status: "map_option w_status (find_workflow (store (snd ref_failed_loads)) 1) = Some WorkflowFailed"
  unfolding ref_failed_loads_def ref_failed_world_def by code_simp

lemma failed_workflow_resurrected_witness:
  "\<exists>w' y. runWorkflow ref_env (postgres ref_env ref_pg) 1 ''input'' nil_handler ref_failed_world = (Inr (), w') \<and>
     find_workflow (store w') 1 = Some y \<and> w_status y = WorkflowCompleted \<and> w_error_message y = None"
proof -
  obtain x where "find_workflow (store (snd ref_failed_loads)) 1 = Some x" "w_status x = WorkflowFailed"
    using ref_failed_status by auto
  then show ?thesis
    by (intro failed_workflow_resurrected [OF ref_failed_loads_run]) (simp_all add: nil_handler_def)
qed

section \<open>Errors\<close>

text \<open>
  An error is unrecoverable exactly when an error made by \<open>Unrecoverable\<close> is in it,
  under any nesting of \<open>fmt.Errorf\<close>, \<open>errors.Join\<close> and \<open>Unrecoverable\<close>; a run is taken as
  suspended exactly when \<open>ErrWorkflowSuspended\<close> is in the handler's error in the same sense.
\<close>

lemma unrecoverable_found:
  "(IsUnrecoverable e \<longleftrightarrow> (\<exists>c. wraps (Unrecoverable c) e)) \<and>
   (errors_Is_suspended e \<longleftrightarrow> wraps ErrWorkflowSuspended e)"
  by (simp add: IsUnrecoverable_iff errors_Is_suspended_iff Unrecoverable_def)

section \<open>The retry policy\<close>

text \<open>What becomes of an activity whose handler returned an error.\<close>

lemma activity_error_policy:
  assumes law: "begin_func_law env"
    and run: "handleActivityError env (postgres env s) config h a err w = (r, w')"
  defines "give_up \<equiv> (\<exists>c. wraps (Unrecoverable c) err) \<or> ar_MaxAttempts a \<le> ar_Attempts a"
    and "next \<equiv> env_go_now env (ticks w) +
      sint (activity_calculateBackoff h (ar_Attempts a) (DefaultBackoff (Processing config)))"
  shows "if give_up then all_or_nothing (activity_failed (ar_ID a) (ar_WorkflowID a) (Error err)) (store w) r (store w')
    else all_or_nothing (activity_rescheduled (ar_ID a) next (Error err)) (store w) r (store w')"
proof (cases "give_up")
  case True
  then have "IsUnrecoverable err \<or> ar_MaxAttempts a \<le> ar_Attempts a"
    by (simp add: give_up_def IsUnrecoverable_iff Unrecoverable_def)
  with run have "wrapE ''fail activity in storage'' (FailActivity env (ar_ID a) (ar_WorkflowID a) (Error err)) w = (r, w')"
    by (simp add: handleActivityError_def worker_failActivity_def)
  then have "all_or_nothing (activity_failed (ar_ID a) (ar_WorkflowID a) (Error err)) (store w) r (store w')"
    by (rule wrapE_all_or_nothing) (unfold FailActivity_def, rule tx_all_or_nothing [OF law], assumption, rule FailActivity_body)
  with True show ?thesis by simp
next
  case False
  then have "\<not> (IsUnrecoverable err \<or> ar_MaxAttempts a \<le> ar_Attempts a)"
    by (simp add: give_up_def IsUnrecoverable_iff Unrecoverable_def)
  with run have "wrapE ''reschedule activity in storage'' (ReScheduleActivity env (ar_ID a) next (Error err)) w = (r, w')"
    by (simp add: handleActivityError_def Let_def bindE_def time_Add_def next_def)
  then have "all_or_nothing (activity_rescheduled (ar_ID a) next (Error err)) (store w) r (store w')"
    by (rule wrapE_all_or_nothing) (rule ReScheduleActivity_effect)
  with False show ?thesis by simp
qed

text \<open>
  C24: an activity whose handler returned an error is failed, with its workflow, when the
  error is unrecoverable or its attempts are used up; otherwise it becomes pending again for
  the time of the backoff, and nothing else changes.
\<close>

theorem activity_retry_policy:
  assumes law: "begin_func_law env"
    and run: "handleActivityError env (postgres env s) config h a err w = (r, w')"
  defines "give_up \<equiv> (\<exists>c. wraps (Unrecoverable c) err) \<or> ar_MaxAttempts a \<le> ar_Attempts a"
    and "next \<equiv> env_go_now env (ticks w) +
      sint (activity_calculateBackoff h (ar_Attempts a) (DefaultBackoff (Processing config)))"
  shows "if give_up then all_or_nothing (activity_failed (ar_ID a) (ar_WorkflowID a) (Error err)) (store w) r (store w')
    else all_or_nothing (activity_rescheduled (ar_ID a) next (Error err)) (store w) r (store w')"
  unfolding give_up_def next_def by (rule activity_error_policy [OF law run])

definition ref_activity_record :: "uint \<Rightarrow> activity_record" where
  "ref_activity_record attempts = \<lparr>ar_ID = 3, ar_IdempotencyKey = 31, ar_WorkflowID = 1, ar_Name = ''charge'',
     ar_Input = Some ''100'', ar_Output = None, ar_Status = ActivityRunning, ar_Priority = 0, ar_Attempts = attempts,
     ar_MaxAttempts = 2, ar_StuckTimeoutMillis = 300000, ar_ScheduledAt = 6, ar_RunAt = Some 9,
     ar_StuckAt = Some 300000000009, ar_CompletedAt = None, ar_ErrorMessage = None, ar_CreatedAt = 6, ar_UpdatedAt = 9\<rparr>"

definition ref_retry :: "uint \<Rightarrow> (error + unit) \<times> db world" where
  "ref_retry attempts = handleActivityError ref_env (postgres ref_env ref_pg) DefaultActivityWorkerConfig
     empty_activity_wrapper (ref_activity_record attempts) (ErrorString ''timeout'') ref_world"

lemma ref_retry_ok: "fst (ref_retry 1) = Inr ()" "fst (ref_retry 2) = Inr ()"
  unfolding ref_retry_def by code_simp+

lemma not_wraps_string: "\<not> wraps (Unrecoverable c) (ErrorString t)"
  by (auto simp: Unrecoverable_def elim: wraps_stringE)

lemma activity_retry_policy_witness:
  "activity_rescheduled 3 30000000010 ''timeout'' ref_db (store (snd (ref_retry 1))) \<and>
   activity_failed 3 1 ''timeout'' ref_db (store (snd (ref_retry 2)))"
proof -
  have run: "handleActivityError ref_env (postgres ref_env ref_pg) DefaultActivityWorkerConfig empty_activity_wrapper
      (ref_activity_record n) (ErrorString ''timeout'') ref_world = (fst (ref_retry n), snd (ref_retry n))" for n
    by (simp add: ref_retry_def)
  have more: "\<not> (2 :: uint) \<le> 1" by (simp add: word_le_def)
  note policy = activity_retry_policy [OF ref_begin_func_law run]
  show ?thesis
    using policy [of 1] policy [of 2]
    by (simp add: more ref_retry_ok ref_activity_record_def not_wraps_string all_or_nothing_def activity_calculateBackoff_def
        empty_activity_wrapper_def DefaultActivityWorkerConfig_def Second_def Millisecond_def)
qed

text \<open>What becomes of a workflow task whose handler returned an error.\<close>

lemma workflow_error_policy:
  assumes law: "begin_func_law env"
    and run: "handleWorkflowTaskError env (postgres env s) config h task err w = (r, w')"
  defines "x \<equiv> tr_Workflow task"
  defines "give_up \<equiv> (\<exists>c. wraps (Unrecoverable c) err) \<or> wr_MaxAttempts x \<le> wr_Attempts x"
    and "next \<equiv> env_go_now env (ticks w) +
      sint (workflow_calculateBackoff h (wr_Attempts x) (DefaultBackoff (Processing config)))"
  shows "if give_up then all_or_nothing (task_failed (tr_ID task) (wr_ID x) (Error err)) (store w) r (store w')
    else all_or_nothing (task_rescheduled (tr_ID task) (wr_ID x) next (Error err)) (store w) r (store w')"
proof (cases "give_up")
  case True
  then have "IsUnrecoverable err \<or> wr_MaxAttempts x \<le> wr_Attempts x"
    by (simp add: give_up_def IsUnrecoverable_iff Unrecoverable_def)
  with run have "wrapE ''fail workflow task in storage'' (FailWorkflowTask env (tr_ID task) (wr_ID x) (Error err)) w = (r, w')"
    by (simp add: handleWorkflowTaskError_def worker_failWorkflowTask_def x_def)
  then have "all_or_nothing (task_failed (tr_ID task) (wr_ID x) (Error err)) (store w) r (store w')"
    by (rule wrapE_all_or_nothing)
      (unfold FailWorkflowTask_def, rule tx_all_or_nothing [OF law], assumption, rule FailWorkflowTask_body)
  with True show ?thesis by simp
next
  case False
  then have "\<not> (IsUnrecoverable err \<or> wr_MaxAttempts x \<le> wr_Attempts x)"
    by (simp add: give_up_def IsUnrecoverable_iff Unrecoverable_def)
  with run have "wrapE ''reschedule workflow task in storage''
      (ReScheduleWorkflowTask env (tr_ID task) (wr_ID x) next (Error err)) w = (r, w')"
    by (simp add: handleWorkflowTaskError_def Let_def bindE_def time_Add_def next_def x_def)
  then have "all_or_nothing (task_rescheduled (tr_ID task) (wr_ID x) next (Error err)) (store w) r (store w')"
    by (rule wrapE_all_or_nothing)
      (unfold ReScheduleWorkflowTask_def, rule tx_all_or_nothing [OF law], assumption, rule ReScheduleWorkflowTask_body)
  with False show ?thesis by simp
qed

text \<open>
  C25: a workflow task whose handler returned an error is failed, with its workflow, when the
  error is unrecoverable or the workflow's attempts are used up; otherwise the task becomes
  pending again for the time of the backoff and the workflow counts one more attempt.
\<close>

theorem workflow_retry_policy:
  assumes law: "begin_func_law env"
    and run: "handleWorkflowTaskError env (postgres env s) config h task err w = (r, w')"
  defines "x \<equiv> tr_Workflow task"
  defines "give_up \<equiv> (\<exists>c. wraps (Unrecoverable c) err) \<or> wr_MaxAttempts x \<le> wr_Attempts x"
    and "next \<equiv> env_go_now env (ticks w) +
      sint (workflow_calculateBackoff h (wr_Attempts x) (DefaultBackoff (Processing config)))"
  shows "if give_up then all_or_nothing (task_failed (tr_ID task) (wr_ID x) (Error err)) (store w) r (store w')
    else all_or_nothing (task_rescheduled (tr_ID task) (wr_ID x) next (Error err)) (store w) r (store w')"
  unfolding give_up_def next_def x_def by (rule workflow_error_policy [OF law run])

definition ref_task_retry :: "error \<Rightarrow> (error + unit) \<times> db world" where
  "ref_task_retry err = handleWorkflowTaskError ref_env (postgres ref_env ref_pg) DefaultWorkflowWorkerConfig
     empty_workflow_wrapper ref_task err ref_world"

lemma ref_task_retry_ok:
  "fst (ref_task_retry (ErrorString ''timeout'')) = Inr ()"
  "fst (ref_task_retry (WrapError ''step'' (Unrecoverable None))) = Inr ()"
  unfolding ref_task_retry_def by code_simp+

lemma wraps_step_unrecoverable: "wraps (Unrecoverable None) (WrapError ''step'' (Unrecoverable None))"
  by (intro wraps.intros)

lemma workflow_retry_policy_witness:
  "task_rescheduled 2 1 30000000010 ''timeout'' ref_db (store (snd (ref_task_retry (ErrorString ''timeout'')))) \<and>
   task_failed 2 1 ''step'' ref_db (store (snd (ref_task_retry (WrapError ''step'' (Unrecoverable None)))))"
proof -
  have run: "handleWorkflowTaskError ref_env (postgres ref_env ref_pg) DefaultWorkflowWorkerConfig empty_workflow_wrapper
      ref_task e ref_world = (fst (ref_task_retry e), snd (ref_task_retry e))" for e
    by (simp add: ref_task_retry_def)
  have more: "\<not> (3 :: uint) \<le> 1" by (simp add: word_le_def)
  note policy = workflow_retry_policy [OF ref_begin_func_law run]
  have "\<exists>c. wraps (Unrecoverable c) (WrapError ''step'' (Unrecoverable None))"
    using wraps_step_unrecoverable by blast
  then show ?thesis
    using policy [of "ErrorString ''timeout''"] policy [of "WrapError ''step'' (Unrecoverable None)"]
    by (simp add: more ref_task_retry_ok ref_task_def not_wraps_string all_or_nothing_def workflow_calculateBackoff_def
        empty_workflow_wrapper_def DefaultWorkflowWorkerConfig_def Second_def Millisecond_def)
qed


text \<open>
  An activity that no handler is registered for is treated as a failed attempt: when
  its attempts are used up, which with the default of one attempt is at once, the activity
  and its workflow fail for good (the log message of \<open>handleActivity\<close> says that the task
  will be rescheduled).
\<close>

lemma unregistered_activity_fails:
  assumes law: "begin_func_law env" and "registry (ar_Name a) = None" and "ar_MaxAttempts a \<le> ar_Attempts a"
    and run: "handleActivity env (postgres env s) config registry a w = (r, w')"
  shows "\<exists>msg. all_or_nothing (activity_failed (ar_ID a) (ar_WorkflowID a) msg) (store w) r (store w')"
proof -
  obtain msg where "wrapE ''fail activity in storage'' (FailActivity env (ar_ID a) (ar_WorkflowID a) msg) w = (r, w')"
    using run assms(2,3) by (auto simp: handleActivity_def handleActivityError_def worker_failActivity_def)
  then have "all_or_nothing (activity_failed (ar_ID a) (ar_WorkflowID a) msg) (store w) r (store w')"
    by (rule wrapE_all_or_nothing) (unfold FailActivity_def, rule tx_all_or_nothing [OF law], assumption, rule FailActivity_body)
  then show ?thesis by blast
qed

definition ref_unregistered :: "(error + unit) \<times> db world" where
  "ref_unregistered = handleActivity ref_env (postgres ref_env ref_pg) DefaultActivityWorkerConfig NewActivityRegistry
     (ref_activity_record 2) ref_world"

lemma ref_unregistered_ok: "fst ref_unregistered = Inr ()"
  unfolding ref_unregistered_def by code_simp

lemma unregistered_activity_fails_witness: "\<exists>msg. activity_failed 3 1 msg ref_db (store (snd ref_unregistered))"
  using unregistered_activity_fails [OF ref_begin_func_law, of NewActivityRegistry "ref_activity_record 2" ref_pg
      DefaultActivityWorkerConfig ref_world "Inr ()" "snd ref_unregistered"] ref_unregistered_ok
  by (simp add: NewActivityRegistry_def ref_activity_record_def ref_unregistered_def prod_eq_iff all_or_nothing_def)

section \<open>Idempotency keys\<close>

text \<open>
  C37: keys hash the concatenation of the activity's name and the discriminator, with
  no separator: when two calls of different activities concatenate to the same string, the
  second gets the recorded result of the first and its activity never runs.
\<close>

theorem colliding_keys_share_results:
  assumes "act_Name a @ x = act_Name b @ y"
    and "ctx_history ctx (activity_IdempotencyKeyByString env a (ctx_workflowID ctx) x) = Some e"
  shows "ExecuteActivity env ctx b input
      [WithActivityIdempotencyKey (activity_IdempotencyKeyByString env b (ctx_workflowID ctx) y)] w =
    (Get \<lparr>fut_event = Some e, fut_out = act_Out b\<rparr>, w)"
proof (rule ExecuteActivity_history)
  have "activity_IdempotencyKeyByString env b (ctx_workflowID ctx) y = activity_IdempotencyKeyByString env a (ctx_workflowID ctx) x"
    by (rule activity_key_concat) (simp add: assms(1))
  then show "ctx_history ctx (activity_call_key env ctx b
      [WithActivityIdempotencyKey (activity_IdempotencyKeyByString env b (ctx_workflowID ctx) y)] w) = Some e"
    using assms(2) by (simp add: activity_call_key_def WithActivityIdempotencyKey_def)
qed

definition ref_shared_ctx :: "(db, string) workflow_context" where
  "ref_shared_ctx = NewWorkflowContext 1 (postgres ref_env ref_pg)
     [activity_IdempotencyKeyByString ref_env (NewActivity ''charge'' ''string'' ''string'') 1 ''12'' \<mapsto>
        NewEvent 0 (Some ''paid'') ref_unmarshal] Map.empty"

lemma colliding_keys_share_results_witness:
  "fst (ExecuteActivity ref_env ref_shared_ctx (NewActivity ''charge1'' ''string'' ''string'') None
     [WithActivityIdempotencyKey (activity_IdempotencyKeyByString ref_env (NewActivity ''charge1'' ''string'' ''string'') 1 ''2'')]
     ref_world) = Inr ''paid''"
  using colliding_keys_share_results [of "NewActivity ''charge'' ''string'' ''string''" "''12''"
      "NewActivity ''charge1'' ''string'' ''string''" "''2''" ref_shared_ctx ref_env
      "NewEvent 0 (Some ''paid'') ref_unmarshal" None ref_world]
  by (simp add: NewActivity_def ref_shared_ctx_def NewWorkflowContext_def ref_unmarshal_def)

end
