(* ===== verification/Fetching.thy ===== *)
theory Fetching
  imports Sql_Activities
begin

text \<open>
  The rows a fetch claims, against a direct description: the first \<open>n\<close> of all the eligible
  rows in the order of the query.
\<close>

section \<open>Selected rows\<close>

lemma mset_filter_branches:
  assumes "\<And>x. p x \<Longrightarrow> \<not> r x"
  shows "mset (filter p xs) + mset (filter r xs) = mset (filter (\<lambda>x. p x \<or> r x) xs)"
  by (induction xs) (use assms in auto)

lemma sort_branches:
  fixes f :: "'a \<Rightarrow> 'k::linorder"
  assumes "\<And>x. p x \<Longrightarrow> \<not> r x"
  shows "sort (map f (filter p xs @ filter r xs)) = sort (map f (filter (\<lambda>x. p x \<or> r x) xs))"
proof (rule properties_for_sort)
  show "mset (sort (map f (filter (\<lambda>x. p x \<or> r x) xs))) = mset (map f (filter p xs @ filter r xs))"
    using arg_cong [OF mset_filter_branches [of p r xs, OF assms], of "image_mset f"] by simp
qed simp

text \<open>The rows with the ids of the candidates are the candidates' rows.\<close>

lemma mset_selected_rows:
  assumes rows: "distinct (map k rows)" and cand: "\<And>t. fst (cand t) = k t"
    and C: "distinct (map fst C)" "set C \<subseteq> cand ` set rows"
  shows "mset (map cand (filter (\<lambda>t. k t \<in> fst ` set C) rows)) = mset C"
proof -
  let ?s = "filter (\<lambda>t. k t \<in> fst ` set C) rows"
  have "distinct (map k ?s)" using rows by (rule distinct_map_filter)
  then have "distinct (map fst (map cand ?s))" by (simp add: comp_def cand)
  then have d: "distinct (map cand ?s)" by (simp only: distinct_map)
  have "c \<in> cand ` set ?s" if c: "c \<in> set C" for c
  proof -
    obtain t where "t \<in> set rows" "c = cand t" using c C(2) by auto
    with c show ?thesis by (force simp flip: cand)
  qed
  moreover have "cand t \<in> set C" if t: "t \<in> set ?s" for t
  proof -
    obtain c where c: "c \<in> set C" "fst c = k t" using t by auto
    then obtain t' where t': "t' \<in> set rows" "c = cand t'" using C(2) by auto
    with c t rows have "t' = t" by (auto simp: cand dest: distinct_map_inj)
    with c t' show ?thesis by simp
  qed
  ultimately have "set (map cand ?s) = set C" unfolding set_map by blast
  moreover have "distinct C" using C(1) by (simp only: distinct_map)
  ultimately show ?thesis using d by (simp only: set_eq_iff_mset_eq_distinct)
qed

lemma filter_update_where:
  assumes "\<And>r. k (f r) = k r"
  shows "filter (\<lambda>r. P (k r)) (update_where (\<lambda>r. P (k r)) f rows) = map f (filter (\<lambda>r. P (k r)) rows)"
  by (induction rows) (simp_all add: assms)

section \<open>Tasks\<close>

definition task_eligible :: "(string \<Rightarrow> bool) \<Rightarrow> instant \<Rightarrow> task_row \<Rightarrow> bool" where
  "task_eligible named now t \<longleftrightarrow> task_pending named now t \<or> task_stuck named now t"

definition task_rank :: "task_row \<Rightarrow> int \<times> instant" where
  "task_rank t = (- t_priority t, t_scheduled_at t)"

lemma order_key_task [simp]: "order_key (task_candidate t) = task_rank t"
  by (simp add: order_key_def task_candidate_def task_rank_def)

definition task_batch :: "(string \<Rightarrow> bool) \<Rightarrow> nat \<Rightarrow> snap \<Rightarrow> db \<Rightarrow> task_row list" where
  "task_batch named n q d = filter (\<lambda>t. t_id t \<in> set (select_tasks named n q d)) (tasks d)"

lemma task_batch_ranks:
  assumes "keys_ok d"
  shows "mset (map task_rank (task_batch named n q d)) =
    mset (take n (sort (map task_rank (filter (task_eligible named (q_now q)) (tasks d)))))"
proof -
  let ?P = "map task_candidate (filter (task_pending named (q_now q)) (tasks d))"
  let ?S = "map task_candidate (filter (task_stuck named (q_now q)) (tasks d))"
  let ?C = "candidates q n ?P ?S"
  have "distinct (map fst ?C)" using select_tasks_distinct [OF assms] by (simp add: select_tasks_def)
  moreover have "set ?C \<subseteq> task_candidate ` set (tasks d)" using set_candidates [of q n ?P ?S] by auto
  ultimately have "mset (map task_candidate (task_batch named n q d)) = mset ?C"
    unfolding task_batch_def select_tasks_def set_map
    using assms by (intro mset_selected_rows) (simp_all add: keys_ok_def task_candidate_def)
  then have "mset (map order_key (map task_candidate (task_batch named n q d))) = mset (map order_key ?C)"
    by (metis mset_map)
  also have "\<dots> = mset (take n (sort (map order_key (?P @ ?S))))" by (simp only: candidates_keys)
  also have "sort (map order_key (?P @ ?S)) = sort (map task_rank (filter (task_eligible named (q_now q)) (tasks d)))"
    using sort_branches [of "task_pending named (q_now q)" "task_stuck named (q_now q)" task_rank "tasks d"]
    by (simp add: task_branches comp_def task_eligible_def [abs_def])
  finally show ?thesis by (simp add: comp_def)
qed

lemma task_batch_eligible: "keys_ok d \<Longrightarrow> t \<in> set (task_batch named n q d) \<Longrightarrow> t \<in> set (tasks d) \<and> task_eligible named (q_now q) t"
proof -
  assume k: "keys_ok d" and t: "t \<in> set (task_batch named n q d)"
  then obtain t' where "t' \<in> set (tasks d)" "t_id t' = t_id t" "task_eligible named (q_now q) t'"
    using select_tasks_eligible by (force simp: task_batch_def task_eligible_def)
  moreover have "t' = t"
    using k t calculation unfolding keys_ok_def task_batch_def by (auto dest: distinct_map_inj)
  ultimately show ?thesis by simp
qed

lemma fetch_tasks_batch:
  assumes "valid_db d" and "fetch_tasks named n q d = Inr (rows, d')"
  shows "mset (map fst rows) = mset (map (claim_task (q_now q)) (task_batch named n q d))"
    and "d' = d\<lparr>tasks := update_where (\<lambda>t. t \<in> set (task_batch named n q d)) (claim_task (q_now q)) (tasks d)\<rparr>"
proof -
  let ?ids = "select_tasks named n q d"
  have d': "d' = claim_tasks ?ids q d" and rows: "rows = claimed_tasks ?ids q d'"
    using assms(2) by (simp_all add: fetch_tasks_ok)
  have refs: "refs_ok d'" using assms(1) d' by (simp add: valid_db_def)
  have "filter (\<lambda>t. t_id t \<in> set ?ids) (tasks d') = map (claim_task (q_now q)) (task_batch named n q d)"
    unfolding d' claim_tasks_def task_batch_def
    using filter_update_where [of t_id "claim_task (q_now q)" "\<lambda>i. i \<in> set ?ids" "tasks d"] by simp
  then show "mset (map fst rows) = mset (map (claim_task (q_now q)) (task_batch named n q d))"
    by (simp add: rows claimed_tasks_eq [OF refs] comp_def)
  show "d' = d\<lparr>tasks := update_where (\<lambda>t. t \<in> set (task_batch named n q d)) (claim_task (q_now q)) (tasks d)\<rparr>"
    unfolding d' claim_tasks_def by (simp add: task_batch_def update_where_def)
qed

section \<open>Activities\<close>

definition activity_eligible :: "(string \<Rightarrow> bool) \<Rightarrow> instant \<Rightarrow> activity_row \<Rightarrow> bool" where
  "activity_eligible named now a \<longleftrightarrow> activity_pending named now a \<or> activity_stuck named now a"

definition activity_rank :: "activity_row \<Rightarrow> int \<times> instant" where
  "activity_rank a = (- a_priority a, a_scheduled_at a)"

lemma order_key_activity [simp]: "order_key (activity_candidate a) = activity_rank a"
  by (simp add: order_key_def activity_candidate_def activity_rank_def)

definition activity_batch :: "(string \<Rightarrow> bool) \<Rightarrow> nat \<Rightarrow> snap \<Rightarrow> db \<Rightarrow> activity_row list" where
  "activity_batch named n q d = filter (\<lambda>a. a_id a \<in> set (select_activities named n q d)) (activities d)"

lemma activity_batch_ranks:
  assumes "keys_ok d"
  shows "mset (map activity_rank (activity_batch named n q d)) =
    mset (take n (sort (map activity_rank (filter (activity_eligible named (q_now q)) (activities d)))))"
proof -
  let ?P = "map activity_candidate (filter (activity_pending named (q_now q)) (activities d))"
  let ?S = "map activity_candidate (filter (activity_stuck named (q_now q)) (activities d))"
  let ?C = "candidates q n ?P ?S"
  have "distinct (map fst ?C)" using select_activities_distinct [OF assms] by (simp add: select_activities_def)
  moreover have "set ?C \<subseteq> activity_candidate ` set (activities d)" using set_candidates [of q n ?P ?S] by auto
  ultimately have "mset (map activity_candidate (activity_batch named n q d)) = mset ?C"
    unfolding activity_batch_def select_activities_def set_map
    using assms by (intro mset_selected_rows) (simp_all add: keys_ok_def activity_candidate_def)
  then have "mset (map order_key (map activity_candidate (activity_batch named n q d))) = mset (map order_key ?C)"
    by (metis mset_map)
  also have "\<dots> = mset (take n (sort (map order_key (?P @ ?S))))" by (simp only: candidates_keys)
  also have "sort (map order_key (?P @ ?S)) = sort (map activity_rank (filter (activity_eligible named (q_now q)) (activities d)))"
    using sort_branches [of "activity_pending named (q_now q)" "activity_stuck named (q_now q)" activity_rank "activities d"]
    by (simp add: activity_branches comp_def activity_eligible_def [abs_def])
  finally show ?thesis by (simp add: comp_def)
qed

lemma activity_batch_eligible:
  "keys_ok d \<Longrightarrow> a \<in> set (activity_batch named n q d) \<Longrightarrow> a \<in> set (activities d) \<and> activity_eligible named (q_now q) a"
proof -
  assume k: "keys_ok d" and a: "a \<in> set (activity_batch named n q d)"
  then obtain a' where "a' \<in> set (activities d)" "a_id a' = a_id a" "activity_eligible named (q_now q) a'"
    using select_activities_eligible by (force simp: activity_batch_def activity_eligible_def)
  moreover have "a' = a"
    using k a calculation unfolding keys_ok_def activity_batch_def by (auto dest: distinct_map_inj)
  ultimately show ?thesis by simp
qed

lemma fetch_activities_batch:
  assumes "fetch_activities named n q d = Inr (rows, d')"
  shows "mset rows = mset (map (claim_activity (q_now q)) (activity_batch named n q d))"
    and "d' = d\<lparr>activities := update_where (\<lambda>a. a \<in> set (activity_batch named n q d)) (claim_activity (q_now q)) (activities d)\<rparr>"
proof -
  let ?ids = "select_activities named n q d"
  have d': "d' = d\<lparr>activities := update_where (\<lambda>a. a_id a \<in> set ?ids) (claim_activity (q_now q)) (activities d)\<rparr>"
    and rows: "rows = sort_key (\<lambda>a. q_rank q 3 (a_id a)) (filter (\<lambda>a. a_id a \<in> set ?ids) (activities d'))"
    using assms by (simp_all add: fetch_activities_ok claim_activities_ok)
  have "filter (\<lambda>a. a_id a \<in> set ?ids) (activities d') = map (claim_activity (q_now q)) (activity_batch named n q d)"
    unfolding d' activity_batch_def
    using filter_update_where [of a_id "claim_activity (q_now q)" "\<lambda>i. i \<in> set ?ids" "activities d"] by simp
  then show "mset rows = mset (map (claim_activity (q_now q)) (activity_batch named n q d))" by (simp add: rows)
  show "d' = d\<lparr>activities := update_where (\<lambda>a. a \<in> set (activity_batch named n q d)) (claim_activity (q_now q)) (activities d)\<rparr>"
    unfolding d' by (simp add: activity_batch_def update_where_def)
qed

text \<open>A batch that is large enough takes every eligible row.\<close>

lemma activity_batch_all:
  assumes "keys_ok d" and n: "length (activities d) \<le> n"
  shows "set (activity_batch named n q d) = {a \<in> set (activities d). activity_eligible named (q_now q) a}"
proof -
  let ?b = "activity_batch named n q d" and ?e = "filter (activity_eligible named (q_now q)) (activities d)"
  have "length (sort (map activity_rank ?e)) \<le> n" using n by (simp add: order_trans [OF length_filter_le])
  then have "mset (map activity_rank ?b) = mset (map activity_rank ?e)"
    using activity_batch_ranks [OF assms(1), of named n q] by simp
  then have len: "length ?b = length ?e" by (metis length_map mset_eq_length)
  have "distinct (activities d)" using assms(1) by (simp add: keys_ok_def distinct_map)
  then have "distinct ?b" "distinct ?e" by (simp_all add: activity_batch_def)
  with len have "card (set ?b) = card (set ?e)" by (metis distinct_card)
  moreover have "set ?b \<subseteq> set ?e" using activity_batch_eligible [OF assms(1)] by auto
  ultimately have "set ?b = set ?e" by (intro card_subset_eq) auto
  then show ?thesis by auto
qed

end
