(* ===== verification/Fetch_Properties.thy ===== *)
theory Fetch_Properties
  imports Fetching Reference_Env
begin

text \<open>
  What a worker gets when it asks for work: the batch is the best one of all the eligible
  rows, each row claimed once, and what goes wrong at the edges (values that cannot be
  scanned, timeouts below a millisecond, attempts beyond the maximum).
\<close>

section \<open>The claimed batch\<close>

lemma task_rank_claim [simp]: "task_rank (claim_task now t) = task_rank t"
  by (simp add: task_rank_def)

lemma activity_rank_claim [simp]: "activity_rank (claim_activity now a) = activity_rank a"
  by (simp add: activity_rank_def)

lemma mset_ranks:
  assumes "mset xs = mset (map f ys)" and "\<And>y. g (f y) = g y"
  shows "mset (map g xs) = mset (map g ys)"
  using arg_cong [OF assms(1), of "image_mset g"] by (simp add: image_mset.compositionality comp_def assms(2))

text \<open>
  C12: the fetch query returns, of all eligible tasks (pending and due, or running and past
  their stuck deadline), exactly the first \<open>n\<close> by descending priority and then scheduled
  time, each once, claimed (running, with a new deadline) and with its workflow; the claims
  are stored and nothing else changes. The separate limits of the query's two branches lose
  nothing.
\<close>

theorem fetch_tasks_best:
  assumes "valid_db d" and "fetch_tasks named n q d = Inr (rows, d')"
  shows "mset (map (\<lambda>r. task_rank (fst r)) rows) =
      mset (take n (sort (map task_rank (filter (task_eligible named (q_now q)) (tasks d))))) \<and>
    (\<exists>batch. set batch \<subseteq> {t \<in> set (tasks d). task_eligible named (q_now q) t} \<and> distinct (map t_id batch) \<and>
       mset (map fst rows) = mset (map (claim_task (q_now q)) batch) \<and>
       d' = d\<lparr>tasks := update_where (\<lambda>t. t \<in> set batch) (claim_task (q_now q)) (tasks d)\<rparr>) \<and>
    (\<forall>r \<in> set rows. find_workflow d (t_workflow_id (fst r)) = Some (snd r))"
proof (intro conjI)
  have keys: "keys_ok d" using assms(1) by (rule valid_dbD)
  note batch = fetch_tasks_batch [OF assms]
  have "mset (map task_rank (map fst rows)) = mset (map task_rank (task_batch named n q d))"
    by (rule mset_ranks [OF batch(1)]) simp
  then show "mset (map (\<lambda>r. task_rank (fst r)) rows) =
      mset (take n (sort (map task_rank (filter (task_eligible named (q_now q)) (tasks d)))))"
    unfolding task_batch_ranks [OF keys] by (simp add: comp_def)
  have "set (task_batch named n q d) \<subseteq> {t \<in> set (tasks d). task_eligible named (q_now q) t}"
    using task_batch_eligible [OF keys] by blast
  moreover have "distinct (map t_id (task_batch named n q d))"
    using keys by (simp add: task_batch_def keys_ok_def distinct_map_filter)
  ultimately show "\<exists>batch. set batch \<subseteq> {t \<in> set (tasks d). task_eligible named (q_now q) t} \<and> distinct (map t_id batch) \<and>
       mset (map fst rows) = mset (map (claim_task (q_now q)) batch) \<and>
       d' = d\<lparr>tasks := update_where (\<lambda>t. t \<in> set batch) (claim_task (q_now q)) (tasks d)\<rparr>"
    using batch by blast
  show "\<forall>r \<in> set rows. find_workflow d (t_workflow_id (fst r)) = Some (snd r)"
    using fetch_tasks_rows(5) [OF assms] by (metis prod.collapse)
qed

definition ref_snap :: snap where
  "ref_snap = \<lparr>q_now = 10, q_rank = (\<lambda>n i. unat i)\<rparr>"

lemma fetch_tasks_best_witness:
  "\<exists>rows d'. fetch_tasks (\<lambda>_. True) 5 ref_snap ref_db = Inr (rows, d') \<and> mset (map (\<lambda>r. task_rank (fst r)) rows) = {#(0, 5)#}"
proof -
  obtain rows d' where run: "fetch_tasks (\<lambda>_. True) 5 ref_snap ref_db = Inr (rows, d')"
    by (auto simp: fetch_tasks_def Let_def max_int8_def)
  have ranks: "take 5 (sort (map task_rank (filter (task_eligible (\<lambda>_. True) (q_now ref_snap)) (tasks ref_db)))) = [(0, 5)]"
    by code_simp
  show ?thesis
    using conjunct1 [OF fetch_tasks_best [OF ref_db_valid run]] run unfolding ranks by simp
qed

text \<open>
  C13: the same of activities: the fetch returns exactly the first \<open>n\<close> eligible
  activities by descending priority and then scheduled time, each once, claimed (running,
  one more attempt, with a new deadline); the claims are stored and nothing else changes.
\<close>

theorem fetch_activities_best:
  assumes "valid_db d" and "fetch_activities named n q d = Inr (rows, d')"
  shows "mset (map activity_rank rows) =
      mset (take n (sort (map activity_rank (filter (activity_eligible named (q_now q)) (activities d))))) \<and>
    (\<exists>batch. set batch \<subseteq> {a \<in> set (activities d). activity_eligible named (q_now q) a} \<and> distinct (map a_id batch) \<and>
       mset rows = mset (map (claim_activity (q_now q)) batch) \<and>
       d' = d\<lparr>activities := update_where (\<lambda>a. a \<in> set batch) (claim_activity (q_now q)) (activities d)\<rparr>)"
proof (intro conjI)
  have keys: "keys_ok d" using assms(1) by (rule valid_dbD)
  note batch = fetch_activities_batch [OF assms(2)]
  have "mset (map activity_rank rows) = mset (map activity_rank (activity_batch named n q d))"
    by (rule mset_ranks [OF batch(1)]) simp
  then show "mset (map activity_rank rows) =
      mset (take n (sort (map activity_rank (filter (activity_eligible named (q_now q)) (activities d)))))"
    unfolding activity_batch_ranks [OF keys] .
  have "set (activity_batch named n q d) \<subseteq> {a \<in> set (activities d). activity_eligible named (q_now q) a}"
    using activity_batch_eligible [OF keys] by blast
  moreover have "distinct (map a_id (activity_batch named n q d))"
    using keys by (simp add: activity_batch_def keys_ok_def distinct_map_filter)
  ultimately show "\<exists>batch. set batch \<subseteq> {a \<in> set (activities d). activity_eligible named (q_now q) a} \<and>
       distinct (map a_id batch) \<and> mset rows = mset (map (claim_activity (q_now q)) batch) \<and>
       d' = d\<lparr>activities := update_where (\<lambda>a. a \<in> set batch) (claim_activity (q_now q)) (activities d)\<rparr>"
    using batch by blast
qed

lemma fetch_activities_best_witness:
  "\<exists>rows d'. fetch_activities (\<lambda>_. True) 5 ref_snap ref_db = Inr (rows, d') \<and> mset (map activity_rank rows) = {#(0, 6)#}"
proof -
  obtain rows d' where run: "fetch_activities (\<lambda>_. True) 5 ref_snap ref_db = Inr (rows, d')"
    by (auto simp: fetch_activities_def claim_activities_def Let_def max_int8_def ref_db_def ref_activity_def
        new_activity_def)
  have ranks: "take 5 (sort (map activity_rank (filter (activity_eligible (\<lambda>_. True) (q_now ref_snap)) (activities ref_db)))) = [(0, 6)]"
    by code_simp
  show ?thesis
    using conjunct1 [OF fetch_activities_best [OF ref_db_valid run]] run unfolding ranks by simp
qed

section \<open>Records\<close>

lemma scan_all_fails:
  "r \<in> set rs \<Longrightarrow> scan r = Inl e \<Longrightarrow> \<exists>e'. scan_all label scan rs = Inl e'"
  by (induction rs) (auto split: sum.splits)

lemma ListActiveActivities_fetches:
  assumes "ListActiveActivities env names lim w = (r, w')" and "env_outcome env (ticks w) = Served"
    and "fetch_activities (\<lambda>nm. names = [] \<or> nm \<in> set names) (unat lim) (snap_at env Pool (ticks w)) (store w) = Inr (rows, d)"
  shows "r = scan_all ''scan activity'' (scan_activity env) rows \<and> store w' = d"
  using assms by (auto simp: ListActiveActivities_def sql_fetch_activities_def sql_fetch_activities_with_names_def
      bindE_def wrapE_def exec_def Let_def split: if_splits sum.splits)

lemma ListActiveActivities_ok:
  assumes "ListActiveActivities env names lim w = (Inr recs, w')"
  obtains rows where "scan_all ''scan activity'' (scan_activity env) rows = Inr recs"
    "fetch_activities (\<lambda>nm. names = [] \<or> nm \<in> set names) (unat lim) (snap_at env Pool (ticks w)) (store w)
      = Inr (rows, store w')"
  using assms by (auto simp: ListActiveActivities_def sql_fetch_activities_def sql_fetch_activities_with_names_def
      bindE_ok exec_ok split: if_splits)

lemma listed_activity:
  assumes v: "valid_db (store w)" and law: "scan_uint_law env"
    and run: "ListActiveActivities env names lim w = (Inr recs, w')" and rec: "rec \<in> set recs"
  defines "now \<equiv> env_pg_now env (ticks w)"
  shows "\<exists>a. find_activity (store w) (ar_ID rec) = Some a \<and>
    activity_eligible (\<lambda>nm. names = [] \<or> nm \<in> set names) now a \<and>
    find_activity (store w') (ar_ID rec) = Some (claim_activity now a) \<and>
    ar_Status rec = ActivityRunning \<and> uint (ar_Attempts rec) = a_attempts a + 1 \<and>
    ar_Name rec = a_name a \<and> ar_WorkflowID rec = a_workflow_id a \<and> ar_Input rec = a_input a"
proof -
  let ?named = "\<lambda>nm. names = [] \<or> nm \<in> set names" and ?q = "snap_at env Pool (ticks w)"
  have now: "q_now ?q = now" by (simp add: snap_at_def now_def)
  obtain rows where scan: "scan_all ''scan activity'' (scan_activity env) rows = Inr recs"
    and fetch: "fetch_activities ?named (unat lim) ?q (store w) = Inr (rows, store w')"
    using run by (rule ListActiveActivities_ok)
  obtain b where b: "b \<in> set rows" "scan_activity env b = Inr rec" using scan_all_mem [OF scan rec] by blast
  have "set rows = claim_activity now ` set (activity_batch ?named (unat lim) ?q (store w))"
    using fetch_activities_batch(1) [OF fetch] now by (metis set_map set_mset_mset)
  with b obtain a where ab: "b = claim_activity now a" "a \<in> set (activity_batch ?named (unat lim) ?q (store w))"
    by auto
  have a: "a \<in> set (activities (store w))" "activity_eligible ?named now a"
    using activity_batch_eligible [OF valid_dbD(1) [OF v] ab(2)] now by simp_all
  have keys': "keys_ok (store w')" using fetch_activities_valid [OF v fetch] by (rule valid_dbD)
  have "claim_activity now a \<in> set (activities (store w'))"
    using ab(2) a(1) unfolding fetch_activities_batch(2) [OF fetch] now by auto
  from find_activity_mem [OF keys' this] have after: "find_activity (store w') (a_id a) = Some (claim_activity now a)"
    by simp
  have before: "find_activity (store w) (a_id a) = Some a"
    using find_activity_mem [OF valid_dbD(1) [OF v] a(1)] .
  have "activity_ok (claim_activity now a)"
    using valid_dbD(5) [OF fetch_activities_valid [OF v fetch]] \<open>claim_activity now a \<in> set (activities (store w'))\<close>
    by (auto simp: list_all_iff)
  then have range: "0 \<le> a_attempts a + 1" "a_attempts a + 1 \<le> max_int8"
    by (simp_all add: activity_ok_def max_int4_def max_int8_def)
  with law have "env_scan_uint env (a_attempts a + 1) = Inr (word_of_int (a_attempts a + 1))"
    by (simp add: scan_uint_law_def)
  with b(2) ab(1) have cols: "ar_ID rec = a_id a" "ar_Status rec = ActivityRunning"
    "ar_Attempts rec = word_of_int (a_attempts a + 1)" "ar_Name rec = a_name a"
    "ar_WorkflowID rec = a_workflow_id a" "ar_Input rec = a_input a"
    by (auto simp: scan_activity_def bindS_def split: sum.splits)
  have "uint (ar_Attempts rec) = a_attempts a + 1" unfolding cols(3) by (rule uint_of_column [OF range])
  with before after a(2) cols show ?thesis by auto
qed

text \<open>
  C14: every record that a worker gets stands for one activity of a requested name that
  was due or stuck: it is running in the store and in the record, and the record's attempts
  are the stored attempts, one more than before.
\<close>

theorem ListActiveActivities_claims:
  assumes "valid_db (store w)" and "scan_uint_law env"
    and "ListActiveActivities env names lim w = (Inr recs, w')" and "rec \<in> set recs"
  defines "now \<equiv> env_pg_now env (ticks w)"
  shows "\<exists>a. find_activity (store w) (ar_ID rec) = Some a \<and>
    activity_eligible (\<lambda>nm. names = [] \<or> nm \<in> set names) now a \<and>
    find_activity (store w') (ar_ID rec) = Some (claim_activity now a) \<and>
    ar_Status rec = ActivityRunning \<and> uint (ar_Attempts rec) = a_attempts a + 1 \<and>
    ar_Name rec = a_name a \<and> ar_WorkflowID rec = a_workflow_id a \<and> ar_Input rec = a_input a"
  unfolding now_def by (rule listed_activity [OF assms(1-4)])

lemma ref_activity_cols3: "a_id (ref_activity i k) = i" "a_name (ref_activity i k) = ''charge''"
  by (simp_all add: ref_activity_def new_activity_def)

definition ref_fetched :: "(error + activity_record list) \<times> db world" where
  "ref_fetched = ListActiveActivities ref_env [] 5 ref_world"

lemma ref_fetched_ok: "\<exists>rec. fst ref_fetched = Inr [rec] \<and> ar_ID rec = 3"
proof -
  have "case fst ref_fetched of Inl e \<Rightarrow> False | Inr recs \<Rightarrow> map ar_ID recs = [3]" by code_simp
  then show ?thesis by (auto split: sum.splits)
qed

lemma ListActiveActivities_claims_witness:
  "\<exists>a. find_activity (store (snd ref_fetched)) 3 = Some a \<and> a_attempts a = 1"
proof -
  obtain rec where rec: "fst ref_fetched = Inr [rec]" "ar_ID rec = 3" using ref_fetched_ok by blast
  have "find_activity ref_db 3 = Some (ref_activity 3 31)"
    by (simp add: find_activity_def ref_db_def ref_activity_def new_activity_def)
  moreover have "valid_db (store ref_world)" by (simp add: ref_world_def ref_db_valid)
  moreover have "ListActiveActivities ref_env [] 5 ref_world = (Inr [rec], snd ref_fetched)"
    using rec(1) by (simp add: ref_fetched_def prod_eq_iff)
  ultimately show ?thesis
    using ListActiveActivities_claims [OF _ ref_scan_uint_law, of ref_world "[]" 5 "[rec]" "snd ref_fetched" rec] rec(2)
    by (auto simp: ref_world_def ref_activity_def new_activity_def)
qed


section \<open>At the edges\<close>

text \<open>
  C39: when one activity of the batch cannot be scanned (a negative stuck timeout does not
  fit a \<open>uint\<close>), the worker gets an error and no activity at all, but all of the batch stays
  claimed: each is running and has spent an attempt that no worker makes.
\<close>

theorem scan_failure_keeps_claims:
  assumes v: "valid_db (store w)"
    and room: "length (activities (store w)) \<le> unat lim" "int (unat lim) \<le> max_int8"
      "\<forall>a \<in> set (activities (store w)). a_attempts a < max_int4"
    and served: "env_outcome env (ticks w) = Served"
    and bad: "x \<in> set (activities (store w))" "activity_eligible (\<lambda>_. True) (env_pg_now env (ticks w)) x"
      "env_scan_uint env (a_stuck_timeout_millis x) = Inl e"
    and run: "ListActiveActivities env [] lim w = (r, w')"
  shows "(\<exists>e'. r = Inl e') \<and> (\<forall>a \<in> set (activities (store w)).
    activity_eligible (\<lambda>_. True) (env_pg_now env (ticks w)) a \<longrightarrow>
      claim_activity (env_pg_now env (ticks w)) a \<in> set (activities (store w')))"
proof -
  let ?q = "snap_at env Pool (ticks w)" and ?now = "env_pg_now env (ticks w)"
  have now: "q_now ?q = ?now" by (simp add: snap_at_def)
  have "\<forall>a \<in> set (activities (store w)). in_int4 (a_attempts a + 1)"
    using valid_dbD(5) [OF v] room(3) by (auto simp: list_all_iff activity_ok_def in_int4_def min_int4_def)
  then obtain rows d where fetch: "fetch_activities (\<lambda>_. True) (unat lim) ?q (store w) = Inr (rows, d)"
    using room(2) by (auto simp: fetch_activities_def claim_activities_def Let_def)
  from ListActiveActivities_fetches [OF run served] this
  have r: "r = scan_all ''scan activity'' (scan_activity env) rows" and w': "store w' = d" by simp_all
  have batch: "set (activity_batch (\<lambda>_. True) (unat lim) ?q (store w)) =
      {a \<in> set (activities (store w)). activity_eligible (\<lambda>_. True) ?now a}"
    using activity_batch_all [OF valid_dbD(1) [OF v] room(1)] now by simp
  have "claim_activity ?now x \<in> set rows"
    using bad(1,2) batch arg_cong [OF fetch_activities_batch(1) [OF fetch], of set_mset] now by simp
  moreover have "\<exists>e'. scan_activity env (claim_activity ?now x) = Inl e'"
    using bad(3) unfolding scan_activity_def
    by (cases "env_scan_uint env (a_attempts x + 1)"; cases "env_scan_uint env (a_max_attempts x)")
      (simp_all add: bindS_def)
  ultimately have "\<exists>e'. r = Inl e'" unfolding r by (elim exE) (rule scan_all_fails)
  moreover have "claim_activity ?now a \<in> set (activities (store w'))"
    if "a \<in> set (activities (store w))" "activity_eligible (\<lambda>_. True) ?now a" for a
    using that batch unfolding w' fetch_activities_batch(2) [OF fetch] now by auto
  ultimately show ?thesis by blast
qed

definition ref_poison_db :: db where
  "ref_poison_db = ref_db\<lparr>activities :=
     [ref_activity 3 31, (ref_activity 4 41)\<lparr>a_stuck_timeout_millis := - 1\<rparr>]\<rparr>"

definition ref_poison_world :: "db world" where
  "ref_poison_world = \<lparr>store = ref_poison_db, ticks = 10\<rparr>"

lemma ref_poison_valid: "valid_db ref_poison_db"
  by (simp add: ref_poison_db_def valid_db_def ref_db_def keys_ok_def refs_ok_def wf_ids_def ref_workflow_def
      ref_activity_def new_workflow_def new_activity_def new_task_def workflow_ok_def task_ok_def
      activity_ok_def max_int4_def in_int4_def min_int4_def)

lemma ref_poison_activities:
  "activities ref_poison_db = [ref_activity 3 31, (ref_activity 4 41)\<lparr>a_stuck_timeout_millis := - 1\<rparr>]"
  by (simp add: ref_poison_db_def)

lemma ref_poison_eligible:
  "activity_eligible (\<lambda>_. True) 10 (ref_activity 3 31)"
  "activity_eligible (\<lambda>_. True) 10 ((ref_activity 4 41)\<lparr>a_stuck_timeout_millis := - 1\<rparr>)"
  by (simp_all add: activity_eligible_def activity_pending_def ref_activity_def new_activity_def)

lemma ref_attempts: "a_attempts (ref_activity i k) = 0"
  by (simp add: ref_activity_def new_activity_def)

lemma scan_failure_keeps_claims_witness:
  "claim_activity 10 (ref_activity 3 31) \<in> set (activities (store (snd (ListActiveActivities ref_env [] 5 ref_poison_world))))"
proof -
  have world: "store ref_poison_world = ref_poison_db" "ticks ref_poison_world = 10"
    by (simp_all add: ref_poison_world_def)
  have run: "ListActiveActivities ref_env [] 5 ref_poison_world =
      (fst (ListActiveActivities ref_env [] 5 ref_poison_world), snd (ListActiveActivities ref_env [] 5 ref_poison_world))"
    by simp
  have poison: "(ref_activity 4 41)\<lparr>a_stuck_timeout_millis := - 1\<rparr> \<in> set (activities (store ref_poison_world))"
      "activity_eligible (\<lambda>_. True) (env_pg_now ref_env (ticks ref_poison_world)) ((ref_activity 4 41)\<lparr>a_stuck_timeout_millis := - 1\<rparr>)"
      "env_scan_uint ref_env (a_stuck_timeout_millis ((ref_activity 4 41)\<lparr>a_stuck_timeout_millis := - 1\<rparr>)) = Inl (ErrorString ''cannot scan'')"
    by (simp_all add: world ref_poison_activities ref_poison_eligible)
  have room: "valid_db (store ref_poison_world)" "length (activities (store ref_poison_world)) \<le> unat (5 :: uint)"
      "int (unat (5 :: uint)) \<le> max_int8" "\<forall>a \<in> set (activities (store ref_poison_world)). a_attempts a < max_int4"
      "env_outcome ref_env (ticks ref_poison_world) = Served"
    by (simp_all add: world ref_poison_valid ref_poison_activities ref_attempts max_int4_def max_int8_def)
  from scan_failure_keeps_claims [OF room poison run]
  have "\<forall>a \<in> set (activities ref_poison_db). activity_eligible (\<lambda>_. True) 10 a \<longrightarrow>
      claim_activity 10 a \<in> set (activities (store (snd (ListActiveActivities ref_env [] 5 ref_poison_world))))"
    unfolding world by simp
  then show ?thesis by (simp add: ref_poison_activities ref_poison_eligible)
qed

text \<open>
  C35: the recovery of stuck activities does not look at the attempts left: an activity
  that used up its attempts and was abandoned while running is claimed again, beyond its
  maximum.
\<close>

theorem stuck_claim_beyond_max:
  assumes v: "valid_db d" and room: "length (activities d) \<le> n"
    and run: "fetch_activities named n q d = Inr (rows, d')"
    and x: "x \<in> set (activities d)" "activity_stuck named (q_now q) x" "a_max_attempts x \<le> a_attempts x"
  shows "\<exists>b \<in> set rows. a_id b = a_id x \<and> a_status b = ActivityRunning \<and> a_max_attempts b < a_attempts b"
proof -
  have "x \<in> set (activity_batch named n q d)"
    using x activity_batch_all [OF valid_dbD(1) [OF v] room] by (simp add: activity_eligible_def)
  then have "claim_activity (q_now q) x \<in> set rows"
    using arg_cong [OF fetch_activities_batch(1) [OF run], of set_mset] by simp
  with x(3) show ?thesis by (intro bexI [of _ "claim_activity (q_now q) x"]) auto
qed

definition ref_abandoned :: activity_row where
  "ref_abandoned = (ref_activity 3 31)\<lparr>a_status := ActivityRunning, a_attempts := 2, a_run_at := Some 7, a_stuck_at := Some 8\<rparr>"

definition ref_abandoned_db :: db where
  "ref_abandoned_db = ref_db\<lparr>activities := [ref_abandoned]\<rparr>"

lemma ref_abandoned_valid: "valid_db ref_abandoned_db"
  by (simp add: ref_abandoned_db_def ref_abandoned_def valid_db_def ref_db_def keys_ok_def refs_ok_def wf_ids_def
      ref_workflow_def ref_activity_def new_workflow_def new_activity_def new_task_def workflow_ok_def task_ok_def
      activity_ok_def max_int4_def in_int4_def min_int4_def)

lemma stuck_claim_beyond_max_witness:
  "\<exists>rows d'. fetch_activities (\<lambda>_. True) 5 ref_snap ref_abandoned_db = Inr (rows, d') \<and>
     (\<exists>b \<in> set rows. a_id b = 3 \<and> a_max_attempts b < a_attempts b)"
proof -
  obtain rows d' where run: "fetch_activities (\<lambda>_. True) 5 ref_snap ref_abandoned_db = Inr (rows, d')"
    by (auto simp: fetch_activities_def claim_activities_def Let_def max_int8_def ref_abandoned_db_def ref_abandoned_def
        ref_activity_def new_activity_def in_int4_def min_int4_def max_int4_def)
  have "\<exists>b \<in> set rows. a_id b = a_id ref_abandoned \<and> a_status b = ActivityRunning \<and> a_max_attempts b < a_attempts b"
    by (rule stuck_claim_beyond_max [OF ref_abandoned_valid _ run])
      (simp_all add: ref_abandoned_db_def ref_abandoned_def activity_stuck_def ref_snap_def ref_activity_def new_activity_def)
  then show ?thesis using run by (auto simp: ref_abandoned_def ref_activity_def new_activity_def)
qed

section \<open>Stuck timeouts\<close>

text \<open>
  A stuck timeout is stored in whole milliseconds, truncated towards zero, and the
  conversion never overflows.
\<close>

lemma StuckTimeoutMillis_truncates:
  "\<bar>sint (ao_stuckTimeout ao) - 1000000 * sint (ao_StuckTimeoutMillis ao)\<bar> < 1000000 \<and>
   \<bar>1000000 * sint (ao_StuckTimeoutMillis ao)\<bar> \<le> \<bar>sint (ao_stuckTimeout ao)\<bar> \<and>
   \<bar>sint (wo_stuckTimeout wo) - 1000000 * sint (wo_StuckTimeoutMillis wo)\<bar> < 1000000 \<and>
   \<bar>1000000 * sint (wo_StuckTimeoutMillis wo)\<bar> \<le> \<bar>sint (wo_stuckTimeout wo)\<bar>"
proof -
  have trunc: "\<bar>n - 1000000 * (n sdiv 1000000)\<bar> < 1000000 \<and> \<bar>1000000 * (n sdiv 1000000)\<bar> \<le> \<bar>n\<bar>" for n :: int
    by (auto simp: signed_divide_int_def sgn_if)
  show ?thesis
    using trunc [of "sint (ao_stuckTimeout ao)"] trunc [of "sint (wo_stuckTimeout wo)"]
    by (simp add: ao_StuckTimeoutMillis_def wo_StuckTimeoutMillis_def sint_int64_div_Millisecond)
qed

text \<open>
  An activity with a stuck timeout below a millisecond counts as stuck from the
  moment it is claimed: every later fetch takes it from the worker that runs it.
\<close>

lemma short_timeout_stuck_at_once:
  assumes "sint (ao_stuckTimeout ao) < 1000000"
    and "a_stuck_timeout_millis a = sint (ao_StuckTimeoutMillis ao)"
    and "named (a_name a)" and "now \<le> later"
  shows "activity_stuck named later (claim_activity now a)"
proof -
  have "n sdiv 1000000 \<le> 0" if "n < 1000000" for n :: int
    using that by (auto simp: signed_divide_int_def sgn_if div_pos_pos_trivial pos_imp_zdiv_nonneg_iff)
  with assms(1) have "a_stuck_timeout_millis a \<le> 0"
    by (simp add: assms(2) ao_StuckTimeoutMillis_def sint_int64_div_Millisecond)
  with assms(3,4) show ?thesis by (simp add: activity_stuck_def)
qed

definition ref_short_options :: activity_options where
  "ref_short_options = WithActivityStuckTimeout 500000 \<lparr>ao_idempotencyKey = 31, ao_priority = 0, ao_maxAttempts = 1,
     ao_stuckTimeout = Minute * 5, ao_scheduledAt = 6\<rparr>"

lemma short_timeout_stuck_at_once_witness:
  "activity_stuck (\<lambda>_. True) 10 (claim_activity 10 ((ref_activity 3 31)\<lparr>a_stuck_timeout_millis := 0\<rparr>))"
  by (rule short_timeout_stuck_at_once [of ref_short_options])
    (simp_all add: ref_short_options_def WithActivityStuckTimeout_def ao_StuckTimeoutMillis_def sint_int64_div_Millisecond
      signed_divide_int_def)

end
