(* ===== verification/Record_Properties.thy ===== *)
theory Record_Properties
  imports Fetch_Properties
begin

text \<open>
  The records that the two fetch methods build from the claimed rows: in a valid database whose
  stuck timeouts fit their Go type, every row is scanned, and its record carries the row's
  values without wrap-around.
\<close>

section \<open>What a record says of its row\<close>

definition activity_record_of :: "activity_row \<Rightarrow> activity_record \<Rightarrow> bool" where
  "activity_record_of a r \<longleftrightarrow>
     ar_ID r = a_id a \<and> ar_IdempotencyKey r = a_idempotency_key a \<and> ar_WorkflowID r = a_workflow_id a \<and>
     ar_Name r = a_name a \<and> ar_Input r = a_input a \<and> ar_Status r = a_status a \<and>
     uint (ar_Attempts r) = a_attempts a \<and> uint (ar_MaxAttempts r) = a_max_attempts a \<and>
     uint (ar_StuckTimeoutMillis r) = a_stuck_timeout_millis a \<and>
     ar_RunAt r = a_run_at a \<and> ar_StuckAt r = a_stuck_at a"

definition workflow_record_of :: "workflow_row \<Rightarrow> workflow_record \<Rightarrow> bool" where
  "workflow_record_of w r \<longleftrightarrow>
     wr_ID r = w_id w \<and> wr_IdempotencyKey r = w_idempotency_key w \<and> wr_Name r = w_name w \<and>
     wr_Status r = w_status w \<and> wr_Input r = w_input w \<and>
     uint (wr_Attempts r) = w_attempts w \<and> uint (wr_MaxAttempts r) = w_max_attempts w \<and>
     uint (wr_StuckTimeoutMillis r) = w_stuck_timeout_millis w"

definition task_record_of :: "task_row \<times> workflow_row \<Rightarrow> workflow_task_record \<Rightarrow> bool" where
  "task_record_of x r \<longleftrightarrow>
     tr_ID r = t_id (fst x) \<and> tr_Status r = t_status (fst x) \<and> tr_RunAt r = t_run_at (fst x) \<and>
     tr_StuckAt r = t_stuck_at (fst x) \<and> workflow_record_of (snd x) (tr_Workflow r)"

text \<open>The stuck timeouts of non-negative durations.\<close>

definition timeouts_ok :: "db \<Rightarrow> bool" where
  "timeouts_ok d \<longleftrightarrow>
     (\<forall>a \<in> set (activities d). 0 \<le> a_stuck_timeout_millis a \<and> a_stuck_timeout_millis a \<le> max_int8) \<and>
     (\<forall>w \<in> set (workflows d). 0 \<le> w_stuck_timeout_millis w \<and> w_stuck_timeout_millis w \<le> max_int8)"

section \<open>Scanning\<close>

lemma scan_all_total:
  assumes "\<And>x. x \<in> set rs \<Longrightarrow> \<exists>y. scan x = Inr y \<and> P x y"
  shows "\<exists>ys. scan_all label scan rs = Inr ys \<and> list_all2 P rs ys"
  using assms
proof (induction rs)
  case (Cons x rs)
  obtain y where "scan x = Inr y" "P x y" using Cons(2) [of x] by auto
  moreover obtain ys where "scan_all label scan rs = Inr ys" "list_all2 P rs ys" using Cons by auto
  ultimately show ?case by (intro exI [of _ "y # ys"]) simp
qed simp

lemma scan_activity_total:
  assumes law: "scan_uint_law env" and "activity_ok a"
    and "0 \<le> a_stuck_timeout_millis a" "a_stuck_timeout_millis a \<le> max_int8"
  shows "\<exists>r. scan_activity env a = Inr r \<and> activity_record_of a r"
proof -
  have "0 \<le> a_attempts a" "a_attempts a \<le> max_int8" "0 \<le> a_max_attempts a" "a_max_attempts a \<le> max_int8"
    using assms(2) by (simp_all add: activity_ok_def max_int4_def max_int8_def)
  with assms show ?thesis
    by (simp add: scan_uint_law_def scan_activity_def bindS_def activity_record_of_def uint_of_column)
qed

lemma scan_workflow_task_total:
  assumes law: "scan_uint_law env" and "workflow_ok (snd x)"
    and "0 \<le> w_stuck_timeout_millis (snd x)" "w_stuck_timeout_millis (snd x) \<le> max_int8"
  shows "\<exists>r. scan_workflow_task env x = Inr r \<and> task_record_of x r"
proof -
  have "0 \<le> w_attempts (snd x)" "w_attempts (snd x) \<le> max_int8"
    "0 \<le> w_max_attempts (snd x)" "w_max_attempts (snd x) \<le> max_int8"
    using assms(2) by (simp_all add: workflow_ok_def max_int4_def max_int8_def)
  with assms show ?thesis
    by (simp add: scan_uint_law_def scan_workflow_task_def scan_workflow_def bindS_def task_record_of_def
        workflow_record_of_def uint_of_column)
qed

text \<open>The claimed rows are in the ranges that scanning needs.\<close>

lemma fetched_activities_scan:
  assumes law: "scan_uint_law env" and v: "valid_db d" and t: "timeouts_ok d"
    and fetch: "fetch_activities named n q d = Inr (rows, d')"
  shows "\<exists>recs. scan_all label (scan_activity env) rows = Inr recs \<and> list_all2 activity_record_of rows recs"
proof (rule scan_all_total)
  fix b
  assume "b \<in> set rows"
  moreover have "set rows = claim_activity (q_now q) ` set (activity_batch named n q d)"
    using fetch_activities_batch(1) [OF fetch] by (metis set_map set_mset_mset)
  ultimately obtain a where b: "b = claim_activity (q_now q) a" "a \<in> set (activity_batch named n q d)" by auto
  then have a: "a \<in> set (activities d)" using activity_batch_eligible [OF valid_dbD(1) [OF v]] by blast
  with b have "b \<in> set (activities d')" unfolding fetch_activities_batch(2) [OF fetch] by auto
  then have "activity_ok b"
    using valid_dbD(5) [OF fetch_activities_valid [OF v fetch]] by (auto simp: list_all_iff)
  moreover have "a_stuck_timeout_millis b = a_stuck_timeout_millis a" by (simp add: b(1))
  ultimately show "\<exists>r. scan_activity env b = Inr r \<and> activity_record_of b r"
    using scan_activity_total [OF law] t a by (auto simp: timeouts_ok_def)
qed

lemma fetched_tasks_scan:
  assumes law: "scan_uint_law env" and v: "valid_db d" and t: "timeouts_ok d"
    and fetch: "fetch_tasks named n q d = Inr (rows, d')"
  shows "\<exists>recs. scan_all label (scan_workflow_task env) rows = Inr recs \<and> list_all2 task_record_of rows recs"
proof (rule scan_all_total)
  fix x
  assume "x \<in> set rows"
  then have "find_workflow d (t_workflow_id (fst x)) = Some (snd x)"
    using fetch_tasks_rows(5) [OF v fetch] by (metis prod.collapse)
  then have "snd x \<in> set (workflows d)" by (auto simp: find_workflow_def find_Some_iff)
  then show "\<exists>r. scan_workflow_task env x = Inr r \<and> task_record_of x r"
    using scan_workflow_task_total [OF law] valid_dbD(3) [OF v] t by (auto simp: timeouts_ok_def list_all_iff)
qed

section \<open>The two methods\<close>

abbreviation requested :: "string list \<Rightarrow> string \<Rightarrow> bool" where
  "requested names \<equiv> \<lambda>nm. names = [] \<or> nm \<in> set names"

lemma ListActiveActivities_served:
  assumes "ListActiveActivities env names n w = (r, w')" and "env_outcome env (ticks w) = Served"
  shows "case fetch_activities (requested names) (unat n) (snap_at env Pool (ticks w)) (store w) of
     Inl c \<Rightarrow> (\<exists>e. r = Inl e) \<and> store w' = store w
   | Inr (rows, d) \<Rightarrow> r = scan_all ''scan activity'' (scan_activity env) rows \<and> store w' = d"
  using assms by (auto simp: ListActiveActivities_def sql_fetch_activities_def sql_fetch_activities_with_names_def
      bindE_def wrapE_def exec_def Let_def split: if_splits sum.splits)

lemma ListActiveWorkflowTasks_served:
  assumes "ListActiveWorkflowTasks env names n w = (r, w')" and "env_outcome env (ticks w) = Served"
  shows "case fetch_tasks (requested names) (unat n) (snap_at env Pool (ticks w)) (store w) of
     Inl c \<Rightarrow> (\<exists>e. r = Inl e) \<and> store w' = store w
   | Inr (rows, d) \<Rightarrow> r = scan_all ''scan workflow task'' (scan_workflow_task env) rows \<and> store w' = d"
  using assms by (auto simp: ListActiveWorkflowTasks_def sql_fetch_workflow_tasks_def sql_fetch_workflow_tasks_with_names_def
      bindE_def wrapE_def exec_def Let_def split: if_splits sum.splits)

text \<open>
  C22: in a valid database whose stuck timeouts are not negative no fetched row fails to
  scan. A served fetch answers with exactly one record for each claimed row, in order, and every
  record has the values of its row: the signed columns are read into unsigned fields without
  wrap-around, and a task carries the record of its workflow. Only a negative timeout can
  cost a batch its scan.
\<close>

theorem fetched_rows_scan:
  assumes law: "scan_uint_law env" and v: "valid_db (store w)" and t: "timeouts_ok (store w)"
    and served: "env_outcome env (ticks w) = Served"
    and acts: "ListActiveActivities env names n w = (r, w1)"
    and tsks: "ListActiveWorkflowTasks env names' m w = (s, w2)"
  shows "(case fetch_activities (requested names) (unat n) (snap_at env Pool (ticks w)) (store w) of
       Inl c \<Rightarrow> (\<exists>e. r = Inl e) \<and> store w1 = store w
     | Inr (rows, d) \<Rightarrow> (\<exists>recs. r = Inr recs \<and> list_all2 activity_record_of rows recs) \<and> store w1 = d) \<and>
    (case fetch_tasks (requested names') (unat m) (snap_at env Pool (ticks w)) (store w) of
       Inl c \<Rightarrow> (\<exists>e. s = Inl e) \<and> store w2 = store w
     | Inr (rows, d) \<Rightarrow> (\<exists>recs. s = Inr recs \<and> list_all2 task_record_of rows recs) \<and> store w2 = d)"
proof (intro conjI)
  show "case fetch_activities (requested names) (unat n) (snap_at env Pool (ticks w)) (store w) of
       Inl c \<Rightarrow> (\<exists>e. r = Inl e) \<and> store w1 = store w
     | Inr (rows, d) \<Rightarrow> (\<exists>recs. r = Inr recs \<and> list_all2 activity_record_of rows recs) \<and> store w1 = d"
    using ListActiveActivities_served [OF acts served] fetched_activities_scan [OF law v t]
    by (auto split: sum.splits)
  show "case fetch_tasks (requested names') (unat m) (snap_at env Pool (ticks w)) (store w) of
       Inl c \<Rightarrow> (\<exists>e. s = Inl e) \<and> store w2 = store w
     | Inr (rows, d) \<Rightarrow> (\<exists>recs. s = Inr recs \<and> list_all2 task_record_of rows recs) \<and> store w2 = d"
    using ListActiveWorkflowTasks_served [OF tsks served] fetched_tasks_scan [OF law v t]
    by (auto split: sum.splits)
qed

lemma ref_timeouts: "timeouts_ok (store ref_world)"
  by (simp add: timeouts_ok_def ref_world_def ref_db_def ref_activity_def new_activity_def ref_workflow_def
      new_workflow_def max_int8_def)

lemma fetched_rows_scan_witness:
  "\<exists>rec. fst (ListActiveActivities ref_env [] 5 ref_world) = Inr [rec] \<and> uint (ar_Attempts rec) = 1"
proof -
  have world: "valid_db (store ref_world)" "env_outcome ref_env (ticks ref_world) = Served"
    by (simp_all add: ref_world_def ref_db_valid)
  have rows: "case fetch_activities (requested []) (unat (5 :: uint)) (snap_at ref_env Pool (ticks ref_world)) (store ref_world) of
      Inl c \<Rightarrow> False | Inr (rows, d) \<Rightarrow> map a_attempts rows = [1]"
    by code_simp
  from fetched_rows_scan [OF ref_scan_uint_law world(1) ref_timeouts world(2) prod.collapse [symmetric] prod.collapse [symmetric],
      of "[]" 5 "[]" 5]
  show ?thesis using rows by (auto split: sum.splits simp: list_all2_Cons1 activity_record_of_def)
qed

end
