(* ===== verification/Lifecycle_Properties.thy ===== *)
theory Lifecycle_Properties
  imports Reachability Storage_Properties
begin

text \<open>
  What holds over the whole life of a database: the integrity of everything reachable, what
  is permanent, and what the cleanup removes.
\<close>

section \<open>Invariants\<close>

text \<open>
  C1: every database that the storage's methods can reach from the empty one, with any
  arguments, any interleaving, any errors and any lost answers, is valid: ids and
  idempotency keys are unique, every task, activity and signal belongs to a stored
  workflow, and the columns of each row agree with its status.
\<close>

theorem reachable_valid:
  assumes "begin_func_law env" and "storage_reachable env s w"
  shows "valid_db (store w)"
  using assms by (rule storage_reachable_valid)

definition ref_empty_world :: "db world" where
  "ref_empty_world = \<lparr>store = empty_db, ticks = 0\<rparr>"

definition ref_first_workflow :: "(error + uuid) \<times> db world" where
  "ref_first_workflow = InsertWorkflow ref_env ref_pg StorageDb ''order'' 5 11 (Some ''x'')
     (enqueue_options ref_env [] ref_empty_world) ref_empty_world"

lemma reachable_valid_witness:
  "valid_db (store (snd ref_first_workflow)) \<and> map w_id (workflows (store (snd ref_first_workflow))) = [5]"
proof
  have "storage_reachable ref_env ref_pg (snd ref_first_workflow)"
    by (rule storage_reachable.engine [OF storage_reachable.initial engine_step.quiet [OF quiet_step.insert_workflow]])
      (simp_all add: ref_empty_world_def ref_first_workflow_def prod_eq_iff)
  then show "valid_db (store (snd ref_first_workflow))" by (rule reachable_valid [OF ref_begin_func_law])
  show "map w_id (workflows (store (snd ref_first_workflow))) = [5]" unfolding ref_first_workflow_def by code_simp
qed

text \<open>
  C26: across any sequence of calls but the cleanup's, signals stay as they are; an activity
  keeps its id, key, workflow, name, input and maximum and never loses an attempt; a
  workflow keeps its id, key, name, input, maximum and creation time, never loses an
  attempt, and once it is no longer running never is again.
\<close>

theorem engine_steps_permanent:
  assumes "begin_func_law env" and "engine_steps env s w w'"
  shows "set (signals (store w)) \<subseteq> set (signals (store w')) \<and>
    activities_kept (store w) (store w') \<and> workflows_kept (store w) (store w')"
  using signals.engine_steps_keep [OF assms(2,1)] acts.engine_steps_keep [OF assms(2,1)]
    flows.engine_steps_keep [OF assms(2,1)]
  by (simp add: signals_kept_def)

lemma engine_steps_permanent_witness:
  "workflows_kept ref_db (store (snd (CompleteActivity ref_env ref_pg 3 1 (Some ''paid'') ref_world)))"
proof -
  have "engine_steps ref_env ref_pg ref_world (snd (CompleteActivity ref_env ref_pg 3 1 (Some ''paid'') ref_world))"
    unfolding engine_steps_def
    by (rule r_into_rtranclp, rule engine_step.complete_activity) (simp add: prod_eq_iff)
  from engine_steps_permanent [OF ref_begin_func_law this] show ?thesis by simp
qed

section \<open>Cleanup\<close>

lemma delete_cascade_Nil [simp]: "delete_cascade [] d = d"
  by (simp add: delete_cascade_def)

lemma doomed_row:
  assumes "i \<in> set (doomed status cutoff n q d)"
  shows "\<exists>x \<in> set (workflows d). w_id x = i \<and> w_status x = status \<and> w_created_at x < cutoff"
proof -
  obtain x where "w_id x = i" and "x \<in> set (sort_key (\<lambda>w. q_rank q 0 (w_id w))
      (filter (\<lambda>w. w_status w = status \<and> w_created_at w < cutoff) (workflows d)))"
    using assms unfolding doomed_def by (auto dest: in_set_takeD simp del: set_sort)
  then show ?thesis by auto
qed

lemma length_doomed: "length (doomed status cutoff n q d) \<le> n"
  by (simp add: doomed_def)

lemma deleteWorkflows_effect:
  assumes "deleteWorkflows env status cutoff lim w = (r, w')"
  obtains ids where "store w' = delete_cascade ids (store w)" "length ids \<le> unat lim"
    "\<forall>i \<in> set ids. \<exists>x \<in> set (workflows (store w)). w_id x = i \<and> w_status x = status \<and> w_created_at x < cutoff"
proof -
  let ?ok = "\<lambda>d d'. \<exists>ids. d' = delete_cascade ids d \<and> length ids \<le> unat lim \<and>
      (\<forall>i \<in> set ids. \<exists>x \<in> set (workflows d). w_id x = i \<and> w_status x = status \<and> w_created_at x < cutoff)"
  have none: "?ok d d" for d by (rule exI [of _ "[]"]) simp
  have sql: "?ok d d'" if "sql_delete_workflows status cutoff (unat lim) q d = Inr (n, d')" for q n d d'
    using that
    by (intro exI [of _ "doomed status cutoff (unat lim) q d"])
      (auto simp: sql_delete_workflows_def Let_def length_doomed doomed_row split: if_splits)
  have "?ok (store w) (store w')"
    using assms none sql
    by (cases r) (auto simp: deleteWorkflows_def bindE_ok bindE_err wrapE_err exec_ok dest!: exec_err)
  then show ?thesis using that by blast
qed

lemma sint_minus_pos: "0 < sint (d :: 64 word) \<Longrightarrow> sint (- d) = - sint d"
proof -
  assume "0 < sint d"
  moreover have "sint d < 2 ^ 63" using sint_less [of d] by simp
  ultimately show ?thesis by (simp add: sint_word_ariths signed_take_bit_int_eq_self)
qed

text \<open>
  What a cleanup may do: it deletes workflows in the given final status that were created before the
  cutoff, at most a batch of them, with exactly their tasks, activities and signals; with a
  retention interval of zero or less it deletes nothing.
\<close>

definition cleaned :: "workflow_status \<Rightarrow> cleanup_config \<Rightarrow> instant \<Rightarrow> db \<Rightarrow> db \<Rightarrow> bool" where
  "cleaned status c now d d' \<longleftrightarrow>
     (\<exists>ids. d' = delete_cascade ids d \<and> length ids \<le> unat (CleanupBatchSize c) \<and>
        (\<forall>i \<in> set ids. 0 < sint (RetentionInterval c) \<and>
          (\<exists>x \<in> set (workflows d). w_id x = i \<and> w_status x = status \<and>
             w_created_at x < now - sint (RetentionInterval c))))"

lemma CleanColdWorkflows_safe:
  assumes v: "valid_db (store w)" and run: "CleanColdWorkflows env (postgres env s) config w = (r, w')"
  shows "\<exists>ids. store w' = delete_cascade ids (store w) \<and> length ids \<le> unat (CleanupBatchSize (ColdCleanup config)) \<and>
    (\<forall>i \<in> set ids. 0 < sint (RetentionInterval (ColdCleanup config)) \<and>
      (\<exists>x \<in> set (workflows (store w)). w_id x = i \<and> w_status x = WorkflowCompleted \<and>
        w_created_at x < env_go_now env (ticks w) - sint (RetentionInterval (ColdCleanup config)))) \<and>
    valid_db (store w')"
proof (cases "sint (RetentionInterval (ColdCleanup config)) \<le> 0")
  case True
  with run v show ?thesis by (intro exI [of _ "[]"]) (simp add: CleanColdWorkflows_def)
next
  case False
  with run have "\<exists>r1. deleteWorkflows env WorkflowCompleted
      (env_go_now env (ticks w) - sint (RetentionInterval (ColdCleanup config)))
      (CleanupBatchSize (ColdCleanup config)) w = (r1, w')"
    by (auto simp: CleanColdWorkflows_def DeleteColdWorkflows_def bindE_def wrapE_def time_Add_def sint_minus_pos
        split: prod.splits sum.splits)
  then obtain ids where "store w' = delete_cascade ids (store w)"
    "length ids \<le> unat (CleanupBatchSize (ColdCleanup config))"
    "\<forall>i \<in> set ids. \<exists>x \<in> set (workflows (store w)). w_id x = i \<and> w_status x = WorkflowCompleted \<and>
        w_created_at x < env_go_now env (ticks w) - sint (RetentionInterval (ColdCleanup config))"
    using deleteWorkflows_effect by blast
  with False v show ?thesis by (intro exI [of _ ids]) (simp add: delete_cascade_valid)
qed

lemma CleanDeadWorkflows_safe:
  assumes v: "valid_db (store w)" and run: "CleanDeadWorkflows env (postgres env s) config w = (r, w')"
  shows "\<exists>ids. store w' = delete_cascade ids (store w) \<and> length ids \<le> unat (CleanupBatchSize (DeadCleanup config)) \<and>
    (\<forall>i \<in> set ids. 0 < sint (RetentionInterval (DeadCleanup config)) \<and>
      (\<exists>x \<in> set (workflows (store w)). w_id x = i \<and> w_status x = WorkflowFailed \<and>
        w_created_at x < env_go_now env (ticks w) - sint (RetentionInterval (DeadCleanup config)))) \<and>
    valid_db (store w')"
proof (cases "sint (RetentionInterval (DeadCleanup config)) \<le> 0")
  case True
  with run v show ?thesis by (intro exI [of _ "[]"]) (simp add: CleanDeadWorkflows_def)
next
  case False
  with run have "\<exists>r1. deleteWorkflows env WorkflowFailed
      (env_go_now env (ticks w) - sint (RetentionInterval (DeadCleanup config)))
      (CleanupBatchSize (DeadCleanup config)) w = (r1, w')"
    by (auto simp: CleanDeadWorkflows_def DeleteDeadWorkflows_def bindE_def wrapE_def time_Add_def sint_minus_pos
        split: prod.splits sum.splits)
  then obtain ids where "store w' = delete_cascade ids (store w)"
    "length ids \<le> unat (CleanupBatchSize (DeadCleanup config))"
    "\<forall>i \<in> set ids. \<exists>x \<in> set (workflows (store w)). w_id x = i \<and> w_status x = WorkflowFailed \<and>
        w_created_at x < env_go_now env (ticks w) - sint (RetentionInterval (DeadCleanup config))"
    using deleteWorkflows_effect by blast
  with False v show ?thesis by (intro exI [of _ ids]) (simp add: delete_cascade_valid)
qed

text \<open>
  C28: the cold cleanup deletes only workflows that are completed, the dead cleanup only
  workflows that failed, and both only such as were created before the retention interval,
  at most one batch of them, with exactly their tasks, activities and signals; a retention
  interval of zero or less switches a cleanup off; the database stays valid.
\<close>

theorem cleanup_safe:
  assumes "valid_db (store w)" and "CleanColdWorkflows env (postgres env s) config w = (r, w')"
    and "valid_db (store v)" and "CleanDeadWorkflows env (postgres env s) config v = (t, v')"
  shows "cleaned WorkflowCompleted (ColdCleanup config) (env_go_now env (ticks w)) (store w) (store w') \<and> valid_db (store w') \<and>
    cleaned WorkflowFailed (DeadCleanup config) (env_go_now env (ticks v)) (store v) (store v') \<and> valid_db (store v')"
  using CleanColdWorkflows_safe [OF assms(1,2)] CleanDeadWorkflows_safe [OF assms(3,4)]
  unfolding cleaned_def by blast

definition ref_old_world :: "workflow_status \<Rightarrow> db world" where
  "ref_old_world st = \<lparr>store = ref_db\<lparr>workflows := [(ref_workflow 1 11)\<lparr>w_status := st, w_completed_at := Some 6\<rparr>]\<rparr>,
     ticks = 20\<rparr>"

definition ref_cleanup_config :: worker_config where
  "ref_cleanup_config = DefaultWorkflowWorkerConfig\<lparr>ColdCleanup := \<lparr>CleanDbTimeout = Second, RetentionInterval = 3,
     CleanupBatchSize = 10\<rparr>, DeadCleanup := \<lparr>CleanDbTimeout = Second, RetentionInterval = 3, CleanupBatchSize = 10\<rparr>\<rparr>"

lemma ref_old_valid:
  "valid_db (store (ref_old_world WorkflowCompleted))" "valid_db (store (ref_old_world WorkflowFailed))"
  by (simp_all add: ref_old_world_def valid_db_def ref_db_def keys_ok_def refs_ok_def wf_ids_def ref_workflow_def
      ref_activity_def new_workflow_def new_activity_def new_task_def workflow_ok_def task_ok_def
      activity_ok_def max_int4_def in_int4_def min_int4_def)

definition ref_cold :: "(error + unit) \<times> db world" where
  "ref_cold = CleanColdWorkflows ref_env (postgres ref_env ref_pg) ref_cleanup_config (ref_old_world WorkflowCompleted)"

definition ref_dead :: "(error + unit) \<times> db world" where
  "ref_dead = CleanDeadWorkflows ref_env (postgres ref_env ref_pg) ref_cleanup_config (ref_old_world WorkflowFailed)"

lemma ref_cleanups_delete: "workflows (store (snd ref_cold)) = []" "workflows (store (snd ref_dead)) = []"
  unfolding ref_cold_def ref_dead_def by code_simp+

lemma cleanup_safe_witness:
  "valid_db (store (snd ref_cold)) \<and> workflows (store (snd ref_cold)) = [] \<and>
   valid_db (store (snd ref_dead)) \<and> workflows (store (snd ref_dead)) = []"
  using cleanup_safe [OF ref_old_valid(1) surjective_pairing ref_old_valid(2) surjective_pairing,
      where config = ref_cleanup_config and env = ref_env and s = ref_pg]
  by (simp add: ref_cleanups_delete ref_cold_def [symmetric] ref_dead_def [symmetric])

end
