(* ===== verification/Poller_Properties.thy ===== *)
theory Poller_Properties
  imports Poller Worker_Properties Reachability
begin

text \<open>
  The polling loops: the concurrency limit holds at every moment, acquiring a slot never
  blocks, the inner loop ends, and a stopped worker can always drain and then does nothing any more.
\<close>

section \<open>The concurrency limit\<close>

text \<open>The activity worker.\<close>

lemma activity_worker_bounded:
  assumes "lawful_activity_worker su" and "valid_db (store w0)"
    and "worker_reachable (activity_poll su) (activity_handle su) w0 s w"
  shows "length (inflight s) \<le> nat (sint (Concurrency (Poll (su_config su)))) \<and> valid_db (store w) \<and>
    (\<forall>k b rs w'. loop s = Fetching k \<longrightarrow> activity_poll su k w = ((b, rs), w') \<longrightarrow>
       length (inflight s) + length rs \<le> nat (sint (Concurrency (Poll (su_config su)))))"
proof (intro conjI allI impI)
  note inv = activity_poller.reachable_invariant [OF assms(1,3,2)]
  from inv show "length (inflight s) \<le> nat (sint (Concurrency (Poll (su_config su))))" "valid_db (store w)"
    by (simp_all add: activity_poller.slots_inv_def capacity_of_def)
  fix k b rs w'
  assume "loop s = Fetching k" "activity_poll su k w = ((b, rs), w')"
  from activity_poller.no_blocking_send [OF assms(1,3,2) this]
  show "length (inflight s) + length rs \<le> nat (sint (Concurrency (Poll (su_config su))))"
    by (simp add: capacity_of_def)
qed

definition ref_activity_worker :: "(string, (db, string) activity_handler_wrapper) deployment" where
  "ref_activity_worker = NewActivityWorker ref_env (postgres ref_env ref_pg) NewActivityRegistry DefaultActivityWorkerConfig"

lemma ref_activity_worker_lawful: "lawful_activity_worker ref_activity_worker"
  by (simp add: lawful_activity_worker_def ref_activity_worker_def ref_begin_func_law DefaultActivityWorkerConfig_def
      NewActivityRegistry_def shared_postgres_alone valid_kept_def)

lemma start_ticks: "worker_step poll handle (Start, w) (Start\<lparr>loop := Polling\<rparr>, w)"
  and start_stops: "worker_step poll handle (Start, w) (Start\<lparr>stopped := True\<rparr>, w)"
  by (rule worker_step.tick worker_step.stop; simp add: Start_def)+

text \<open>A worker ticks, reads its free slots and dispatches what its poll returns.\<close>

lemma one_poll:
  assumes "poll 0 w0 = ((True, rs), w1)"
  shows "worker_reachable poll handle w0 (Start\<lparr>loop := Waiting, inflight := rs\<rparr>) w1"
proof -
  have "worker_reachable poll handle w0 (Start\<lparr>loop := Polling\<rparr>) w0"
    by (rule worker_reachable.step [OF worker_reachable.start start_ticks])
  then have "worker_reachable poll handle w0 (Start\<lparr>loop := Fetching 0\<rparr>) w0"
    using worker_step.slots [of "Start\<lparr>loop := Polling\<rparr>"] by (auto simp: Start_def intro: worker_reachable.step)
  then show ?thesis
    using worker_step.drained [of "Start\<lparr>loop := Fetching 0\<rparr>" 0 poll w0 rs w1] assms
    by (auto simp: Start_def intro: worker_reachable.step)
qed

definition ref_polled :: "(bool \<times> activity_record list) \<times> db world" where
  "ref_polled = activity_poll ref_activity_worker 0 ref_world"

lemma ref_polled_one: "fst (fst ref_polled)" "length (snd (fst ref_polled)) = 1"
  unfolding ref_polled_def by code_simp+

lemma ref_polled_run: "activity_poll ref_activity_worker 0 ref_world = ((True, snd (fst ref_polled)), snd ref_polled)"
  using ref_polled_one(1) by (simp add: ref_polled_def prod_eq_iff)

text \<open>The workflow worker, whose handlers replay workflows and act on the store through the engine.\<close>

lemma workflow_worker_bounded:
  assumes "lawful_workflow_worker su" and "valid_db (store w0)"
    and "worker_reachable (workflow_poll su) (workflow_handle su) w0 s w"
  shows "length (inflight s) \<le> nat (sint (Concurrency (Poll (su_config su)))) \<and> valid_db (store w) \<and>
    (\<forall>k b rs w'. loop s = Fetching k \<longrightarrow> workflow_poll su k w = ((b, rs), w') \<longrightarrow>
       length (inflight s) + length rs \<le> nat (sint (Concurrency (Poll (su_config su)))))"
proof (intro conjI allI impI)
  note inv = workflow_poller.reachable_invariant [OF assms(1,3,2)]
  from inv show "length (inflight s) \<le> nat (sint (Concurrency (Poll (su_config su))))" "valid_db (store w)"
    by (simp_all add: workflow_poller.slots_inv_def capacity_of_def)
  fix k b rs w'
  assume "loop s = Fetching k" "workflow_poll su k w = ((b, rs), w')"
  from workflow_poller.no_blocking_send [OF assms(1,3,2) this]
  show "length (inflight s) + length rs \<le> nat (sint (Concurrency (Poll (su_config su))))"
    by (simp add: capacity_of_def)
qed

definition ref_workflow_worker :: "(string, (db, string) workflow_handler_wrapper) deployment" where
  "ref_workflow_worker = NewWorkflowWorker ref_env (postgres ref_env ref_pg)
     (RegisterWorkflow ref_env NewWorkflowRegistry ref_wflow waiting_handler []) DefaultWorkflowWorkerConfig"

lemma ref_workflow_worker_lawful: "lawful_workflow_worker ref_workflow_worker"
proof -
  have "keeps valid_kept (wh_handler h (postgres ref_env ref_pg) run)"
    if "RegisterWorkflow ref_env NewWorkflowRegistry ref_wflow waiting_handler [] name = Some h" for name h run
  proof -
    have "keeps valid_kept (runWorkflow ref_env (pg_mk (id, ref_env, ref_pg)) i input waiting_handler)" for i input
      by (rule valid.pgst.keeps_runWorkflow)
        (simp_all add: ref_begin_func_law ref_wait_group_law waiting_handler_def valid.keeps_throw valid.interferes_id)
    with that show ?thesis
      by (auto simp: RegisterWorkflow_def NewWorkflowRegistry_def valid.keeps_throw split: if_splits sum.split)
  qed
  then show ?thesis
    by (simp add: lawful_workflow_worker_def ref_workflow_worker_def ref_begin_func_law DefaultWorkflowWorkerConfig_def
        shared_postgres_alone valid_kept_def)
qed

definition ref_tasks_polled :: "(bool \<times> workflow_task_record list) \<times> db world" where
  "ref_tasks_polled = workflow_poll ref_workflow_worker 0 ref_world"

lemma ref_tasks_polled_one: "fst (fst ref_tasks_polled)" "length (snd (fst ref_tasks_polled)) = 1"
  unfolding ref_tasks_polled_def by code_simp+

lemma ref_tasks_polled_run:
  "workflow_poll ref_workflow_worker 0 ref_world = ((True, snd (fst ref_tasks_polled)), snd ref_tasks_polled)"
  using ref_tasks_polled_one(1) by (simp add: ref_tasks_polled_def prod_eq_iff)

text \<open>
  C16: neither worker ever runs more handlers than its configured concurrency, in any
  interleaving of ticks, polls, finishing handlers and the stop signal, with other processes that
  change the database between any two of its calls but keep it valid; every batch it
  fetches fits into the free slots, so the sends on the semaphore never block; and the
  database stays valid.
\<close>

theorem workers_bounded:
  assumes "lawful_activity_worker su" and "valid_db (store w0)"
    and "worker_reachable (activity_poll su) (activity_handle su) w0 s w"
    and "lawful_workflow_worker su'" and "valid_db (store v0)"
    and "worker_reachable (workflow_poll su') (workflow_handle su') v0 t v"
  shows "length (inflight s) \<le> nat (sint (Concurrency (Poll (su_config su)))) \<and> valid_db (store w) \<and>
    (\<forall>k b rs w'. loop s = Fetching k \<longrightarrow> activity_poll su k w = ((b, rs), w') \<longrightarrow>
       length (inflight s) + length rs \<le> nat (sint (Concurrency (Poll (su_config su))))) \<and>
    length (inflight t) \<le> nat (sint (Concurrency (Poll (su_config su')))) \<and> valid_db (store v) \<and>
    (\<forall>k b ts v'. loop t = Fetching k \<longrightarrow> workflow_poll su' k v = ((b, ts), v') \<longrightarrow>
       length (inflight t) + length ts \<le> nat (sint (Concurrency (Poll (su_config su')))))"
  by (intro conjI activity_worker_bounded [OF assms(1-3), THEN conjunct1]
      activity_worker_bounded [OF assms(1-3), THEN conjunct2, THEN conjunct1]
      activity_worker_bounded [OF assms(1-3), THEN conjunct2, THEN conjunct2]
      workflow_worker_bounded [OF assms(4-6), THEN conjunct1]
      workflow_worker_bounded [OF assms(4-6), THEN conjunct2, THEN conjunct1]
      workflow_worker_bounded [OF assms(4-6), THEN conjunct2, THEN conjunct2])

lemma workers_bounded_witness:
  "length (inflight (Start\<lparr>loop := Waiting, inflight := snd (fst ref_polled)\<rparr>)) = 1 \<and>
   length (snd (fst ref_polled)) \<le> nat (sint (Concurrency (Poll DefaultActivityWorkerConfig))) \<and>
   length (inflight (Start\<lparr>loop := Waiting, inflight := snd (fst ref_tasks_polled)\<rparr>)) = 1 \<and>
   length (snd (fst ref_tasks_polled)) \<le> nat (sint (Concurrency (Poll DefaultWorkflowWorkerConfig)))"
  using workers_bounded [OF ref_activity_worker_lawful ref_world_valid
      one_poll [where poll = "activity_poll ref_activity_worker", OF ref_polled_run]
      ref_workflow_worker_lawful ref_world_valid
      one_poll [where poll = "workflow_poll ref_workflow_worker", OF ref_tasks_polled_run]]
  by (simp add: ref_polled_one ref_tasks_polled_one ref_activity_worker_def ref_workflow_worker_def)

section \<open>When a poll is repeated\<close>

text \<open>
  A poll says that the queue is not drained only after it dispatched a batch
  as large as it asked for, which is at least one activity. A failed or an empty fetch dispatches nothing.
\<close>

lemma poll_repeats_after_full_batch:
  assumes v: "valid_db (store w)"
    and run: "processActivities (postgres env s) config names k w = ((drained, rs), w')"
  shows "drained \<or> rs \<noteq> [] \<and> length rs = unat (min (free_slots config k) (BatchSize (Poll config)))"
proof (cases drained)
  case False
  let ?n = "min (free_slots config k) (BatchSize (Poll config))"
  from run False have "rs \<noteq> []" "\<not> word_of_nat (length rs) < ?n"
    and list: "ListActiveActivities env names ?n w = (Inr rs, w')"
    by (auto simp: processActivities_def fetchActivities_def Let_def split: if_splits prod.splits sum.splits)
  moreover have le: "length rs \<le> unat ?n" by (rule ListActiveActivities_length [OF v list])
  moreover have "unat (word_of_nat (length rs) :: uint) = length rs"
  proof -
    have "unat ?n < 2 ^ 64" by (rule order_less_le_trans [OF unsigned_less]) simp
    with le have "length rs < 2 ^ 64" by simp
    then show ?thesis by (simp add: unat_of_nat take_bit_nat_eq_self)
  qed
  ultimately show ?thesis by (simp add: word_less_nat_alt not_less)
qed simp

section \<open>The inner loop\<close>

text \<open>A poll that asks to be repeated, and a handler that finishes, in a step of a worker.\<close>

definition repeats :: "'r worker \<Rightarrow> 'r worker \<Rightarrow> bool" where
  "repeats s s' \<longleftrightarrow> (\<exists>k. loop s = Fetching k) \<and> loop s' = Polling"

definition finishes :: "'r worker \<Rightarrow> 'r worker \<Rightarrow> bool" where
  "finishes s s' \<longleftrightarrow> length (inflight s') < length (inflight s)"

definition in_inner_loop :: "'r worker \<Rightarrow> bool" where
  "in_inner_loop s \<longleftrightarrow> loop s \<noteq> Waiting \<and> loop s \<noteq> Exited"

text \<open>The steps that a worker can still make in its inner loop, when no handler finishes.\<close>

definition steps_left :: "nat \<Rightarrow> 'r worker \<Rightarrow> nat" where
  "steps_left cap s = 2 * (cap - length (inflight s)) + of_bool (loop s = Polling) + of_bool (\<not> stopped s)"

lemma steps_left_decreases:
  assumes step: "worker_step poll handle (s, w) (s', w')" and some: "\<And>k w rs w'. poll k w = ((False, rs), w') \<Longrightarrow> rs \<noteq> []"
    and inner: "in_inner_loop s" "in_inner_loop s'" and none: "\<not> finishes s s'" and fits: "length (inflight s') \<le> cap"
  shows "steps_left cap s' < steps_left cap s"
  using step
proof (cases rule: worker_step.cases)
  case (more k rs)
  then have "1 \<le> length rs" using some [of k w rs w'] by (cases rs) auto
  with more fits show ?thesis by (simp add: steps_left_def)
qed (use inner none in \<open>auto simp: steps_left_def in_inner_loop_def finishes_def\<close>)

text \<open>Within \<open>K\<close> steps of a run the loop waits or has returned, or a handler finishes.\<close>

definition leaves_inner_loop :: "nat \<Rightarrow> (nat \<Rightarrow> 'r worker \<times> 'd world) \<Rightarrow> bool" where
  "leaves_inner_loop K run \<longleftrightarrow> (\<exists>n \<le> K. \<not> in_inner_loop (fst (run n))) \<or> (\<exists>n < K. finishes (fst (run n)) (fst (run (Suc n))))"

lemma run_reachable:
  assumes "worker_reachable poll handle w0 (fst (run 0)) (snd (run 0))"
    and steps: "\<And>n. n < K \<Longrightarrow> worker_step poll handle (run n) (run (Suc n))" and "n \<le> K"
  shows "worker_reachable poll handle w0 (fst (run n)) (snd (run n))"
  using assms(3)
proof (induction n)
  case (Suc n)
  then have "worker_step poll handle (fst (run n), snd (run n)) (fst (run (Suc n)), snd (run (Suc n)))"
    using steps [of n] by simp
  with Suc show ?case by (auto intro: worker_reachable.step)
qed (rule assms(1))

lemma inner_loop_left:
  assumes start: "worker_reachable poll handle w0 (fst (run 0)) (snd (run 0))"
    and steps: "\<And>n. n < 2 * cap + 3 \<Longrightarrow> worker_step poll handle (run n) (run (Suc n))"
    and some: "\<And>k w rs w'. poll k w = ((False, rs), w') \<Longrightarrow> rs \<noteq> []"
    and fits: "\<And>s w. worker_reachable poll handle w0 s w \<Longrightarrow> length (inflight s) \<le> cap"
  shows "leaves_inner_loop (2 * cap + 3) run"
proof (rule ccontr)
  assume "\<not> leaves_inner_loop (2 * cap + 3) run"
  then have inner: "\<And>n. n \<le> 2 * cap + 3 \<Longrightarrow> in_inner_loop (fst (run n))"
    and none: "\<And>n. n < 2 * cap + 3 \<Longrightarrow> \<not> finishes (fst (run n)) (fst (run (Suc n)))"
    by (auto simp: leaves_inner_loop_def)
  have "n + steps_left cap (fst (run n)) \<le> steps_left cap (fst (run 0))" if "n \<le> 2 * cap + 3" for n
    using that
  proof (induction n)
    case (Suc n)
    then have step: "worker_step poll handle (fst (run n), snd (run n)) (fst (run (Suc n)), snd (run (Suc n)))"
      using steps [of n] by simp
    have "length (inflight (fst (run (Suc n)))) \<le> cap"
      by (rule fits [OF run_reachable [OF start steps Suc(2)]])
    then have "steps_left cap (fst (run (Suc n))) < steps_left cap (fst (run n))"
      using inner [of n] inner [OF Suc(2)] none [of n] Suc(2) by (intro steps_left_decreases [OF step some]) auto
    with Suc show ?case by simp
  qed simp
  from this [of "2 * cap + 3"] have "2 * cap + 3 \<le> steps_left cap (fst (run 0))" by simp
  moreover have "steps_left cap (fst (run 0)) \<le> 2 * cap + 1 + 1"
    unfolding steps_left_def by (intro add_mono) simp_all
  ultimately show False by simp
qed

lemma stopped_never_repeats: "worker_step poll handle (s, w) (s', w') \<Longrightarrow> stopped s \<Longrightarrow> \<not> repeats s s'"
  by (auto simp: repeats_def elim!: worker_stepE)

lemma polls_repeat_some:
  "activity_poll su k w = ((False, rs), w') \<Longrightarrow> rs \<noteq> []"
  "workflow_poll su' k w = ((False, ts), w') \<Longrightarrow> ts \<noteq> []"
  by (auto simp: activity_poll_def workflow_poll_def processActivities_def processWorkflowTasks_def Let_def split: if_splits prod.splits sum.splits)

text \<open>
  C31: the inner loop of a worker ends, unless handlers keep finishing or the worker is stopped, and
  then it ends too. From any reachable state, after at most twice the configured concurrency and
  three steps, in any interleaving and whatever the fetches return, the worker is back at its
  \<open>select\<close>, where it sees the ticker and the stop signal, or has returned, or a handler has finished
  meanwhile and freed a slot: a poll that asks to be repeated has taken one. And once the worker is stopped
  no poll is repeated any more, so the fetch it is in is the last of its loop however many
  handlers finish.
\<close>

theorem inner_loop_ends:
  assumes "lawful_activity_worker su" and "valid_db (store w0)"
    and "worker_reachable (activity_poll su) (activity_handle su) w0 (fst (run 0)) (snd (run 0))"
    and "\<And>n. n < 2 * nat (sint (Concurrency (Poll (su_config su)))) + 3 \<Longrightarrow> activity_worker_step su (run n) (run (Suc n))"
    and "lawful_workflow_worker su'" and "valid_db (store v0)"
    and "worker_reachable (workflow_poll su') (workflow_handle su') v0 (fst (run' 0)) (snd (run' 0))"
    and "\<And>n. n < 2 * nat (sint (Concurrency (Poll (su_config su')))) + 3 \<Longrightarrow> workflow_worker_step su' (run' n) (run' (Suc n))"
  shows "leaves_inner_loop (2 * nat (sint (Concurrency (Poll (su_config su)))) + 3) run \<and>
    leaves_inner_loop (2 * nat (sint (Concurrency (Poll (su_config su')))) + 3) run' \<and>
    (\<forall>s w s' w'. stopped s \<longrightarrow> activity_worker_step su (s, w) (s', w') \<longrightarrow> \<not> repeats s s') \<and>
    (\<forall>t v t' v'. stopped t \<longrightarrow> workflow_worker_step su' (t, v) (t', v') \<longrightarrow> \<not> repeats t t')"
proof (intro conjI allI impI)
  show "leaves_inner_loop (2 * nat (sint (Concurrency (Poll (su_config su)))) + 3) run"
    using assms(3) assms(4) [unfolded activity_worker_step_def]
    by (rule inner_loop_left [where poll = "activity_poll su" and handle = "activity_handle su"])
      (assumption, erule polls_repeat_some,
        drule activity_worker_bounded [OF assms(1,2)], blast)
  show "leaves_inner_loop (2 * nat (sint (Concurrency (Poll (su_config su')))) + 3) run'"
    using assms(7) assms(8) [unfolded workflow_worker_step_def]
    by (rule inner_loop_left [where poll = "workflow_poll su'" and handle = "workflow_handle su'"])
      (assumption, erule polls_repeat_some,
        drule workflow_worker_bounded [OF assms(5,6)], blast)
qed (auto simp: activity_worker_step_def workflow_worker_step_def dest: stopped_never_repeats)

text \<open>Workers on an empty database go round: a tick, a poll that fetches nothing, and back to the \<open>select\<close>.\<close>

definition ref_idle :: "nat \<Rightarrow> db world" where
  "ref_idle n = \<lparr>store = empty_db, ticks = n\<rparr>"

definition ref_idle_run :: "nat \<Rightarrow> 'r worker \<times> db world" where
  "ref_idle_run n = (Start\<lparr>loop := (if n mod 3 = 0 then Polling else if n mod 3 = 1 then Fetching 0 else Waiting)\<rparr>,
     ref_idle ((n + 1) div 3))"

lemma ref_idle_polls:
  "activity_poll ref_activity_worker 0 (ref_idle n) = ((True, []), ref_idle (Suc n))"
  "workflow_poll ref_workflow_worker 0 (ref_idle n) = ((True, []), ref_idle (Suc n))"
proof -
  have "select_activities (\<lambda>_. True) k q empty_db = []" "select_tasks (\<lambda>_. True) k q empty_db = []" for k q
    by (simp_all add: select_activities_def select_tasks_def candidates_def pre_candidates_def order_by_limit_def empty_db_def)
  then have "ListActiveActivities ref_env [] k (ref_idle n) = (Inr [], ref_idle (Suc n))"
    "ListActiveWorkflowTasks ref_env [] k (ref_idle n) = (Inr [], ref_idle (Suc n))" if "int (unat k) \<le> max_int8" for k
    using that by (simp_all add: ref_idle_def ListActiveActivities_def ListActiveWorkflowTasks_def sql_fetch_activities_def sql_fetch_workflow_tasks_def
        fetch_activities_def fetch_tasks_def claim_activities_def claim_tasks_def claimed_tasks_def bindE_def wrapE_def exec_def Let_def empty_db_def)
  then show "activity_poll ref_activity_worker 0 (ref_idle n) = ((True, []), ref_idle (Suc n))"
    "workflow_poll ref_workflow_worker 0 (ref_idle n) = ((True, []), ref_idle (Suc n))"
    by (simp_all add: activity_poll_def workflow_poll_def ref_activity_worker_def ref_workflow_worker_def processActivities_def
        processWorkflowTasks_def free_slots_def fetchActivities_def fetchWorkflowTasks_def wrapE_def Let_def
        DefaultActivityWorkerConfig_def DefaultWorkflowWorkerConfig_def max_int8_def)
qed

lemma ref_idle_runs:
  "ref_idle_run (3 * k) = (Start\<lparr>loop := Polling\<rparr>, ref_idle k)" "ref_idle_run (Suc (3 * k)) = (Start\<lparr>loop := Fetching 0\<rparr>, ref_idle k)"
  "ref_idle_run (Suc (Suc (3 * k))) = (Start, ref_idle (Suc k))" "ref_idle_run (Suc (Suc (Suc (3 * k)))) = (Start\<lparr>loop := Polling\<rparr>, ref_idle (Suc k))"
  by (simp_all add: ref_idle_run_def Start_def mod_Suc) (rule arg_cong [of _ _ ref_idle], linarith)+

lemma ref_idle_step:
  assumes "\<And>n. poll 0 (ref_idle n) = ((True, []), ref_idle (Suc n))"
  shows "worker_step poll handle (ref_idle_run n) (ref_idle_run (Suc n))"
proof -
  consider k where "n = 3 * k" | k where "n = Suc (3 * k)" | k where "n = Suc (Suc (3 * k))"
  proof -
    have "n = 3 * (n div 3) + n mod 3" "n mod 3 < 3" by simp_all
    then show thesis using that [of "n div 3"] by (cases "n mod 3" rule: nat.exhaust) linarith+
  qed
  then show ?thesis
  proof cases
    case (1 k)
    with worker_step.slots [of "Start\<lparr>loop := Polling\<rparr>" poll handle "ref_idle k"] show ?thesis
      by (simp add: ref_idle_runs) (simp add: Start_def)
  next
    case (2 k)
    with worker_step.drained [of "Start\<lparr>loop := Fetching 0\<rparr>" 0 poll "ref_idle k" "[]" "ref_idle (Suc k)" handle] assms show ?thesis
      by (simp add: ref_idle_runs) (simp add: Start_def)
  next
    case (3 k)
    then show ?thesis by (simp add: ref_idle_runs start_ticks)
  qed
qed

lemma ref_idle_reachable: "worker_reachable poll handle (ref_idle 0) (fst (ref_idle_run 0)) (snd (ref_idle_run 0))"
  using worker_reachable.step [OF worker_reachable.start start_ticks, of poll handle "ref_idle 0"] by (simp add: ref_idle_run_def)

lemma inner_loop_ends_witness:
  "leaves_inner_loop 23 (ref_idle_run :: nat \<Rightarrow> activity_record worker \<times> db world) \<and>
   leaves_inner_loop 23 (ref_idle_run :: nat \<Rightarrow> workflow_task_record worker \<times> db world)"
proof -
  have v: "valid_db (store (ref_idle 0))" by (simp add: ref_idle_def valid_empty_db)
  have step: "activity_worker_step ref_activity_worker (ref_idle_run n) (ref_idle_run (Suc n))"
    "workflow_worker_step ref_workflow_worker (ref_idle_run n) (ref_idle_run (Suc n))" for n
    unfolding activity_worker_step_def workflow_worker_step_def by (rule ref_idle_step, rule ref_idle_polls)+
  have "nat (sint (Concurrency (Poll DefaultActivityWorkerConfig))) = 10"
      "nat (sint (Concurrency (Poll DefaultWorkflowWorkerConfig))) = 10"
    by (simp_all add: DefaultActivityWorkerConfig_def DefaultWorkflowWorkerConfig_def)
  with inner_loop_ends [OF ref_activity_worker_lawful v ref_idle_reachable step(1) ref_workflow_worker_lawful v ref_idle_reachable step(2)]
  show ?thesis by (simp add: ref_activity_worker_def ref_workflow_worker_def)
qed

section \<open>Stopping\<close>

lemma reachable_exited_stopped:
  "worker_reachable poll handle w0 s w \<Longrightarrow> loop s = Exited \<longrightarrow> stopped s"
proof (induction rule: worker_reachable.induct)
  case (step s w s' w')
  from step(2,3) show ?case by (elim worker_stepE) auto
qed (simp add: Start_def)

lemma final:
  assumes "worker_reachable poll handle w0 s w" and "wg_done s"
  shows "\<not> worker_step poll handle (s, w) x"
proof
  assume "worker_step poll handle (s, w) x"
  then obtain s' w' where "worker_step poll handle (s, w) (s', w')" by (cases x) simp
  moreover have "stopped s" "loop s = Exited" "inflight s = []"
    using reachable_exited_stopped [OF assms(1)] assms(2) by (simp_all add: wg_done_def)
  ultimately show False by (elim worker_stepE) auto
qed

text \<open>
  C29: once \<open>Stop\<close> has returned nil, whether its context has expired meanwhile or not, a worker
  takes no further step: it neither fetches nor changes the store. This holds of the activity
  worker and of the workflow worker.
\<close>

theorem stopped_worker_is_final:
  assumes "worker_reachable (activity_poll su) (activity_handle su) w0 s w" and "Stop_returns s expired (Inr ())"
    and "worker_reachable (workflow_poll su') (workflow_handle su') w0' s' w'" and "Stop_returns s' expired' (Inr ())"
  shows "\<not> activity_worker_step su (s, w) x \<and> \<not> workflow_worker_step su' (s', w') x'"
  using final [OF assms(1)] final [OF assms(3)] assms(2,4)
  by (simp add: activity_worker_step_def workflow_worker_step_def)

definition ref_stopped :: "'r worker" where
  "ref_stopped = \<lparr>loop = Exited, stopped = True, inflight = []\<rparr>"

lemma ref_stopped_reachable: "worker_reachable poll handle w0 ref_stopped w0"
proof -
  have "worker_reachable poll handle w0 (Start\<lparr>stopped := True\<rparr>) w0"
    by (rule worker_reachable.step [OF worker_reachable.start start_stops])
  moreover have "worker_step poll handle (Start\<lparr>stopped := True\<rparr>, w0) (ref_stopped, w0)"
    using worker_step.exit [of "Start\<lparr>stopped := True\<rparr>"] by (simp add: Start_def ref_stopped_def)
  ultimately show ?thesis by (rule worker_reachable.step)
qed

lemma stopped_worker_is_final_witness:
  "(\<forall>x. \<not> activity_worker_step ref_activity_worker (ref_stopped, ref_world) x) \<and>
   (\<forall>x. \<not> workflow_worker_step ref_workflow_worker (ref_stopped, ref_world) x)"
proof -
  have "\<not> activity_worker_step ref_activity_worker (ref_stopped, ref_world) x \<and>
      \<not> workflow_worker_step ref_workflow_worker (ref_stopped, ref_world) x'" for x x'
    by (rule stopped_worker_is_final [OF ref_stopped_reachable _ ref_stopped_reachable])
      (simp_all add: wg_done_def ref_stopped_def)
  then show ?thesis by blast
qed

lemma finish_all:
  "\<exists>s' w'. (worker_step poll handle)\<^sup>*\<^sup>* (s, w) (s', w') \<and> loop s' = loop s \<and> inflight s' = []"
proof (induction "inflight s" arbitrary: s w)
  case (Cons r rs)
  obtain res w1 where h: "handle r w = (res, w1)" by fastforce
  let ?s = "s\<lparr>inflight := rs\<rparr>"
  have step: "worker_step poll handle (s, w) (?s, w1)"
    using worker_step.finish [of s "[]" r rs handle w res w1] Cons(2) h by simp
  obtain s' w' where "(worker_step poll handle)\<^sup>*\<^sup>* (?s, w1) (s', w')" "loop s' = loop ?s" "inflight s' = []"
    using Cons(1) [of ?s w1] by auto
  with step show ?case by (intro exI [of _ s'] exI [of _ w']) (simp add: converse_rtranclp_into_rtranclp)
qed auto

lemma fetching_exits:
  assumes "loop s = Fetching k" and "stopped s"
  shows "\<exists>s' w'. (worker_step poll handle)\<^sup>*\<^sup>* (s, w) (s', w') \<and> loop s' = Exited"
proof -
  obtain b rs w1 where p: "poll k w = ((b, rs), w1)" by (metis prod.collapse)
  show ?thesis
  proof (cases b)
    case True
    let ?s = "s\<lparr>loop := Waiting, inflight := inflight s @ rs\<rparr>"
    have "worker_step poll handle (s, w) (?s, w1)"
      using worker_step.drained [OF assms(1)] p True by simp
    moreover have "worker_step poll handle (?s, w1) (?s\<lparr>loop := Exited\<rparr>, w1)"
      by (rule worker_step.exit) (simp_all add: assms(2))
    ultimately have "(worker_step poll handle)\<^sup>*\<^sup>* (s, w) (?s\<lparr>loop := Exited\<rparr>, w1)"
      by (meson r_into_rtranclp rtranclp_trans)
    then show ?thesis by (intro exI [of _ "?s\<lparr>loop := Exited\<rparr>"] exI [of _ w1]) simp
  next
    case False
    then have "worker_step poll handle (s, w) (s\<lparr>loop := Exited, inflight := inflight s @ rs\<rparr>, w1)"
      using p by (intro worker_step.more_stopped [OF assms(1) _ assms(2)]) simp
    then show ?thesis
      by (intro exI [of _ "s\<lparr>loop := Exited, inflight := inflight s @ rs\<rparr>"] exI [of _ w1]) (simp add: r_into_rtranclp)
  qed
qed

lemma stopped_exits:
  assumes "stopped s"
  shows "\<exists>s' w'. (worker_step poll handle)\<^sup>*\<^sup>* (s, w) (s', w') \<and> loop s' = Exited"
proof (cases "loop s")
  case Waiting
  with assms have "worker_step poll handle (s, w) (s\<lparr>loop := Exited\<rparr>, w)" by (intro worker_step.exit)
  then show ?thesis by (intro exI [of _ "s\<lparr>loop := Exited\<rparr>"] exI [of _ w]) (simp add: r_into_rtranclp)
next
  case Polling
  let ?s = "s\<lparr>loop := Fetching (length (inflight s))\<rparr>"
  have step: "worker_step poll handle (s, w) (?s, w)" using Polling by (rule worker_step.slots)
  obtain s' w' where "(worker_step poll handle)\<^sup>*\<^sup>* (?s, w) (s', w')" "loop s' = Exited"
    using fetching_exits [of ?s] assms by fastforce
  with step show ?thesis by (meson converse_rtranclp_into_rtranclp)
next
  case (Fetching k)
  then show ?thesis by (rule fetching_exits) (rule assms)
next
  case Exited
  then show ?thesis by blast
qed

lemma stopped_drains:
  assumes "stopped s"
  shows "\<exists>s' w'. (worker_step poll handle)\<^sup>*\<^sup>* (s, w) (s', w') \<and> wg_done s'"
proof -
  obtain s1 w1 where 1: "(worker_step poll handle)\<^sup>*\<^sup>* (s, w) (s1, w1)" "loop s1 = Exited"
    using stopped_exits [OF assms] by blast
  obtain s2 w2 where "(worker_step poll handle)\<^sup>*\<^sup>* (s1, w1) (s2, w2)" "loop s2 = loop s1" "inflight s2 = []"
    using finish_all by blast
  with 1 show ?thesis
    by (intro exI [of _ s2] exI [of _ w2]) (auto simp: wg_done_def intro: rtranclp_trans)
qed

lemma Stop_returns_busy: "Stop_returns s expired r \<Longrightarrow> \<not> wg_done s \<Longrightarrow> \<exists>err. expired = Some err \<and> r = Inl (Errorf ''context done'' err)"
  by (cases rule: Stop_returns.cases) auto

text \<open>
  C30: from every state of a stopped worker, whatever its polls and handlers answer, the loop
  can return and every handler can finish, so that \<open>Stop\<close> can return nil, for both kinds of worker;
  it is never blocked for good. Before that, it only returns the error of its expired context.
\<close>

theorem stop_can_finish:
  assumes "stopped s" and "stopped s'"
  shows "(\<exists>t v. (activity_worker_step su)\<^sup>*\<^sup>* (s, w) (t, v) \<and> Stop_returns t None (Inr ())) \<and>
    (\<exists>t v. (workflow_worker_step su')\<^sup>*\<^sup>* (s', w') (t, v) \<and> Stop_returns t None (Inr ())) \<and>
    (\<not> wg_done s \<longrightarrow> (\<forall>expired r. Stop_returns s expired r \<longrightarrow>
       (\<exists>err. expired = Some err \<and> r = Inl (Errorf ''context done'' err))))"
  unfolding activity_worker_step_def workflow_worker_step_def
  using stopped_drains [OF assms(1)] stopped_drains [OF assms(2)] Stop_returns_busy by auto

lemma stop_can_finish_witness:
  "(\<exists>t v. (activity_worker_step ref_activity_worker)\<^sup>*\<^sup>*
      (Start\<lparr>loop := Polling, stopped := True, inflight := [ref_activity_record 1]\<rparr>, ref_world) (t, v) \<and> wg_done t) \<and>
   (\<exists>t v. (workflow_worker_step ref_workflow_worker)\<^sup>*\<^sup>*
      (Start\<lparr>loop := Fetching 0, stopped := True\<rparr>, ref_world) (t, v) \<and> wg_done t)"
  using stop_can_finish [of "Start\<lparr>loop := Polling, stopped := True, inflight := [ref_activity_record 1]\<rparr>"
      "Start\<lparr>loop := Fetching 0, stopped := True\<rparr>" ref_activity_worker ref_world ref_workflow_worker ref_world]
  by simp

end
