(* ===== verification/Row_Invariant.thy ===== *)
theory Row_Invariant
  imports Worker_Properties Reachability
begin

text \<open>
  Invariants of the stored activities, whoever writes them. \<open>under row Q\<close> is kept by every statement
  of the engine but two, the insertion and the completion of an activity, for which the writer has to
  know something; \<open>Q\<close> says what it knows. Also what a run of a workflow knows: its two loads and its
  handler, each among other processes.
\<close>

section \<open>Everything the engine keeps\<close>

definition engine_kept :: "db \<Rightarrow> db \<Rightarrow> bool" where
  "engine_kept d d' \<longleftrightarrow> (valid_kept d d' \<and> signals_kept d d') \<and> (activities_kept d d' \<and> workflows_kept d d')"

lemma stmt_keeps_conj: "stmt_keeps R sql \<Longrightarrow> stmt_keeps Q sql \<Longrightarrow> stmt_keeps (\<lambda>d d'. R d d' \<and> Q d d') sql"
  unfolding stmt_keeps_def by blast

lemmas pg_step_stmts =
  pg_frame.insert_workflow pg_frame.complete_workflow pg_frame.fail_workflow pg_frame.clear_error pg_frame.increment
  pg_frame.insert_task pg_frame.fetch_tasks pg_frame.complete_task pg_frame.reschedule_task pg_frame.fail_task
  pg_frame.claim_activities pg_frame.reschedule_activity pg_quiet.insert_activity
  pg_steer.fail_activity pg_steer.insert_signal pg_call.complete_activity

lemma pg_step_conj:
  assumes R: "pg_step R" and Q: "pg_step Q"
  shows "pg_step (\<lambda>d d'. R d d' \<and> Q d d')"
proof -
  note locs = R Q pg_step.axioms [OF R] pg_step.axioms [OF Q]
  note frames = locs pg_quiet.axioms(1) [OF locs(3)] pg_quiet.axioms(1) [OF locs(5)]
    pg_call.axioms(1) [OF locs(4)] pg_call.axioms(1) [OF locs(6)]
  note rel = pg_frame.axioms(1) [OF frames(7)] pg_frame.axioms(1) [OF frames(8)]
  show ?thesis
    by unfold_locales
      (insert step_relation.R_refl [OF rel(1)] step_relation.R_refl [OF rel(2)], blast,
       insert step_relation.R_trans [OF rel(1)] step_relation.R_trans [OF rel(2)], blast,
       (rule stmt_keeps_conj, (rule pg_step_stmts, rule frames, assumption?)+)+)
qed

interpretation kept: pg_step engine_kept
proof -
  have "pg_step (\<lambda>d d'. (valid_kept d d' \<and> signals_kept d d') \<and> (activities_kept d d' \<and> workflows_kept d d'))"
    by (intro pg_step_conj valid.pg_step_axioms signals.pg_step_axioms acts.pg_step_axioms flows.pg_step_axioms)
  then show "pg_step engine_kept" by (simp add: engine_kept_def [abs_def])
qed

lemma engine_keptD:
  "engine_kept d d' \<Longrightarrow> valid_db d \<Longrightarrow> valid_db d'" "engine_kept d d' \<Longrightarrow> set (signals d) \<subseteq> set (signals d')"
  "engine_kept d d' \<Longrightarrow> activities_kept d d'" "engine_kept d d' \<Longrightarrow> workflows_kept d d'"
  by (simp_all add: engine_kept_def valid_kept_def signals_kept_def)

section \<open>Statements that leave activities alone\<close>

definition calm :: "activity_row \<Rightarrow> activity_row \<Rightarrow> bool" where
  "calm a b \<longleftrightarrow>
     a_name b = a_name a \<and> a_idempotency_key b = a_idempotency_key a \<and> a_workflow_id b = a_workflow_id a \<and>
     a_input b = a_input a \<and> (a_status b = ActivityCompleted \<longrightarrow> a_status a = ActivityCompleted \<and> a_output b = a_output a)"

definition rows_calm :: "db \<Rightarrow> db \<Rightarrow> bool" where
  "rows_calm d d' \<longleftrightarrow> (\<forall>b \<in> set (activities d'). \<exists>a \<in> set (activities d). calm a b)"

lemma calm_refl [simp]: "calm a a"
  by (simp add: calm_def)

lemma rows_calm_activities: "activities d' = activities d \<Longrightarrow> rows_calm d d'"
  unfolding rows_calm_def by (auto intro: calm_refl)

lemma rows_calm_update:
  assumes "\<And>a. calm a (f a)"
  shows "rows_calm d (d\<lparr>activities := update_where p f (activities d)\<rparr>)"
  using assms unfolding rows_calm_def by (auto intro: calm_refl bexI split: if_splits)

interpretation calms: pg_steer rows_calm
proof unfold_locales
  fix d1 d2 d3
  assume "rows_calm d1 d2" "rows_calm d2 d3"
  then show "rows_calm d1 d3" unfolding rows_calm_def calm_def by metis
qed (auto simp: stmt_keeps_def sql_reschedule_activity_def sql_fail_activity_def claim_activities_ok claim_activity_def
    calm_def rows_calm_activities dest!: stmt_activities intro!: rows_calm_update)

section \<open>What stays true\<close>

definition henceforth :: "(db \<Rightarrow> bool) \<Rightarrow> db \<Rightarrow> bool" where
  "henceforth Q d \<longleftrightarrow> (\<forall>d'. engine_kept d d' \<longrightarrow> Q d')"

lemma henceforth_now: "henceforth Q d \<Longrightarrow> Q d"
  by (simp add: henceforth_def kept.R_refl)

lemma henceforth_kept: "henceforth Q d \<Longrightarrow> engine_kept d d' \<Longrightarrow> henceforth Q d'"
  unfolding henceforth_def using kept.R_trans by blast

lemma henceforth_stable: "(\<And>d d'. engine_kept d d' \<Longrightarrow> Q d \<Longrightarrow> Q d') \<Longrightarrow> Q d \<Longrightarrow> henceforth Q d"
  unfolding henceforth_def by blast

section \<open>Rows under what a writer knows\<close>

text \<open>
  An invariant of the stored activities, of each in its database. A writer that knows \<open>Q\<close>, which stays
  true, keeps it; one that knows nothing keeps it (\<open>rows_kept\<close>).
\<close>

definition rows_ok :: "(db \<Rightarrow> activity_row \<Rightarrow> bool) \<Rightarrow> db \<Rightarrow> bool" where
  "rows_ok row d \<longleftrightarrow> (\<forall>a \<in> set (activities d). row d a)"

definition under :: "(db \<Rightarrow> activity_row \<Rightarrow> bool) \<Rightarrow> (db \<Rightarrow> bool) \<Rightarrow> db \<Rightarrow> db \<Rightarrow> bool" where
  "under row Q d d' \<longleftrightarrow> engine_kept d d' \<and> (valid_db d \<and> rows_ok row d \<and> henceforth Q d \<longrightarrow> rows_ok row d')"

definition rows_kept :: "(db \<Rightarrow> activity_row \<Rightarrow> bool) \<Rightarrow> db \<Rightarrow> db \<Rightarrow> bool" where
  "rows_kept row d d' \<longleftrightarrow> engine_kept d d' \<and> (valid_db d \<and> rows_ok row d \<longrightarrow> rows_ok row d')"

lemma under_refl: "under row Q d d"
  by (simp add: under_def kept.R_refl)

lemma under_trans: "under row Q d1 d2 \<Longrightarrow> under row Q d2 d3 \<Longrightarrow> under row Q d1 d3"
  unfolding under_def using kept.R_trans henceforth_kept engine_keptD(1) by blast

lemma under_mono: "under row Q d d' \<Longrightarrow> (\<And>d. P d \<Longrightarrow> Q d) \<Longrightarrow> under row P d d'"
  by (auto simp: under_def henceforth_def)

lemma rows_kept_under: "rows_kept row d d' \<Longrightarrow> under row Q d d'"
  by (simp add: rows_kept_def under_def)

lemma under_rows_kept:
  assumes "under row Q d d'" and "\<And>d d'. engine_kept d d' \<Longrightarrow> Q d \<Longrightarrow> Q d'" and "Q d"
  shows "rows_kept row d d'"
  using assms(1) henceforth_stable [of Q d, OF assms(2,3)] by (simp add: rows_kept_def under_def)

lemma rows_kept_eq: "rows_kept row = under row (\<lambda>_. True)"
  by (simp add: fun_eq_iff rows_kept_def under_def henceforth_def)

lemma rows_kept_refl: "rows_kept row d d"
  by (simp add: rows_kept_eq under_refl)

lemma rows_kept_trans: "rows_kept row d1 d2 \<Longrightarrow> rows_kept row d2 d3 \<Longrightarrow> rows_kept row d1 d3"
  unfolding rows_kept_eq by (rule under_trans)

lemma rows_kept_engine: "rows_kept row d d' \<Longrightarrow> engine_kept d d'"
  by (simp add: rows_kept_def)

text \<open>The law of such an invariant: it outlives what the engine does, the completion of its row aside.\<close>

locale row_law =
  fixes row :: "db \<Rightarrow> activity_row \<Rightarrow> bool"
  assumes row_calm: "row d a \<Longrightarrow> calm a b \<Longrightarrow> engine_kept d d' \<Longrightarrow> row d' b"
begin

lemma stmt_under:
  assumes "stmt_keeps engine_kept sql" and "stmt_keeps rows_calm sql"
  shows "stmt_keeps (under row Q) sql"
  unfolding stmt_keeps_def
proof (intro allI impI)
  fix q d x d'
  assume "sql q d = Inr (x, d')"
  with assms have kept: "engine_kept d d'" and "rows_calm d d'" by (simp_all add: stmt_keeps_def)
  then have "rows_ok row d \<Longrightarrow> rows_ok row d'"
    using row_calm unfolding rows_ok_def rows_calm_def by blast
  with kept show "under row Q d d'" by (simp add: under_def)
qed

lemma under_steer: "pg_steer (under row Q)"
  by unfold_locales
    (rule under_refl, rule under_trans, assumption, assumption,
      (rule stmt_under, (rule pg_step_stmts, rule kept.pg_frame_axioms kept.pg_quiet_axioms kept.pg_steer_axioms, assumption?),
        (rule pg_step_stmts, rule calms.pg_frame_axioms calms.pg_steer_axioms, assumption?))+)

text \<open>What the two other statements ask of their writer.\<close>

lemma stmt_under_insert:
  assumes "0 \<le> maxa"
    and new: "\<And>now d. valid_db d \<Longrightarrow> rows_ok row d \<Longrightarrow> Q d \<Longrightarrow> row d (new_activity now i key wid name b p maxa ms at)"
  shows "stmt_keeps (under row Q) (sql_insert_activity i key wid name b p maxa ms at)"
  unfolding stmt_keeps_def
proof (intro allI impI)
  fix q d n d'
  assume sql: "sql_insert_activity i key wid name b p maxa ms at q d = Inr (n, d')"
  have kept: "engine_kept d d'" using kept.insert_activity [OF assms(1)] sql unfolding stmt_keeps_def by blast
  have "rows_ok row d'" if v: "valid_db d" and ok: "rows_ok row d" and Q: "Q d"
    using sql
  proof (cases rule: sql_insert_activity_ok)
    case inserted
    with ok new [OF v ok Q] row_calm [OF _ calm_refl kept] show ?thesis by (auto simp: rows_ok_def)
  qed (use ok in simp)
  with kept show "under row Q d d'" by (simp add: under_def henceforth_now)
qed

lemma stmt_under_complete:
  assumes out: "\<And>d a. valid_db d \<Longrightarrow> Q d \<Longrightarrow> a \<in> set (activities d) \<Longrightarrow> a_id a = i \<Longrightarrow> row d a \<Longrightarrow>
      row d (a\<lparr>a_status := ActivityCompleted, a_output := out\<rparr>)"
  shows "stmt_keeps (under row Q) (sql_complete_activity i out)"
  unfolding stmt_keeps_def
proof (intro allI impI)
  fix q d n d'
  assume sql: "sql_complete_activity i out q d = Inr (n, d')"
  have kept: "engine_kept d d'" using kept.complete_activity sql unfolding stmt_keeps_def by blast
  have "rows_ok row d'" if v: "valid_db d" and ok: "rows_ok row d" and Q: "Q d"
    unfolding rows_ok_def
  proof
    fix b
    assume "b \<in> set (activities d')"
    with sql obtain a where a: "a \<in> set (activities d)" and b: "b = a \<or> a_id a = i \<and> b = a_set_updated_at (q_now q)
        (\<lambda>a. a\<lparr>a_status := ActivityCompleted, a_output := out, a_completed_at := Some (q_now q), a_error_message := None\<rparr>) a"
      by (auto simp: sql_complete_activity_def split: if_splits)
    have row: "row d a" using ok a by (simp add: rows_ok_def)
    from b show "row d' b"
    proof
      assume "b = a"
      then show ?thesis using row_calm [OF row calm_refl kept] by simp
    next
      assume b: "a_id a = i \<and> b = a_set_updated_at (q_now q)
        (\<lambda>a. a\<lparr>a_status := ActivityCompleted, a_output := out, a_completed_at := Some (q_now q), a_error_message := None\<rparr>) a"
      then have "calm (a\<lparr>a_status := ActivityCompleted, a_output := out\<rparr>) b" by (simp add: calm_def)
      moreover have "row d (a\<lparr>a_status := ActivityCompleted, a_output := out\<rparr>)" using out [OF v Q a _ row] b by blast
      ultimately show ?thesis using row_calm [OF _ _ kept] by blast
    qed
  qed
  with kept show "under row Q d d'" by (simp add: under_def henceforth_now)
qed

end

sublocale row_law \<subseteq> steer: pg_steer "under row Q" for Q
  by (rule under_steer)

text \<open>A call of a workflow, whose row the invariant admits when the writer knows enough.\<close>

context row_law
begin

lemma keeps_call:
  assumes others: "interferes (rows_kept row) others"
    and new: "\<And>o' k j now b p maxa ms at d. ao_idempotencyKey o' = activity_IdempotencyKey env act i \<Longrightarrow>
      k = ao_idempotencyKey (apply_opts opts o') \<Longrightarrow> h k = None \<Longrightarrow>
      valid_db d \<Longrightarrow> rows_ok row d \<Longrightarrow> Q d \<Longrightarrow> encode_nullable s ''encode input'' input = Inr b \<Longrightarrow>
      row d (new_activity now j k i (act_Name act) b p maxa ms at)"
  shows "keeps (under row Q) (ExecuteActivity env (NewWorkflowContext i (interleaved others (postgres env s)) h g) act input opts)"
proof (rule steer.keeps_ExecuteActivity_if)
  fix j default o'
  let ?ctx = "NewWorkflowContext i (interleaved others (postgres env s)) h g"
  assume "ao_idempotencyKey default = activity_IdempotencyKey env act (ctx_workflowID ?ctx)"
    and o': "o' = apply_opts opts default" and "ctx_history ?ctx (ao_idempotencyKey o') = None"
  then have "ao_idempotencyKey default = activity_IdempotencyKey env act i" "h (ao_idempotencyKey o') = None"
    by (simp_all add: NewWorkflowContext_def)
  then have "keeps (under row Q) (InsertActivity env s (act_Name act) j (ao_idempotencyKey o') i input o')"
    by (intro steer.keeps_InsertActivity_if stmt_under_insert new [of default]) (simp_all add: o')
  moreover have "interferes (under row Q) others" using others by (rule interferes_mono) (rule rows_kept_under)
  ultimately show "keeps (under row Q) (st_InsertActivity (ctx_storage ?ctx) (act_Name act) j (ao_idempotencyKey o')
      (ctx_workflowID ?ctx) input o')"
    by (simp add: steer.keeps_amid NewWorkflowContext_def)
qed

end

section \<open>The loads of a run\<close>

lemma ListHistory_store: "ListHistoryEventsForWorkflow env s i w = (r, w') \<Longrightarrow> store w' = store w"
  by (cases r) (auto simp: ListHistoryEventsForWorkflow_def bindE_ok bindE_err wrapE_err exec_ok
      dest!: exec_err list_history_same)

lemma ListWorkflowSignals_store: "ListWorkflowSignals env s i w = (r, w') \<Longrightarrow> store w' = store w"
  by (cases r) (auto simp: ListWorkflowSignals_def bindE_ok bindE_err wrapE_err exec_ok
      dest!: exec_err list_signals_same)

lemma wrapE_run: "wrapE p m w = (r, w') \<Longrightarrow> \<exists>r0. m w = (r0, w') \<and> (\<forall>x. r = Inr x \<longrightarrow> r0 = Inr x)"
  by (auto simp: wrapE_def split: prod.splits sum.splits)

text \<open>How a run ends: by the error of its handler, a suspension aside, or by completing its workflow.\<close>

definition run_ends :: "(db, 'v) env \<Rightarrow> (db world \<Rightarrow> db world) \<Rightarrow> uuid \<Rightarrow> (error + unit) \<Rightarrow> db world \<Rightarrow>
    (error + unit) \<Rightarrow> db world \<Rightarrow> bool" where
  "run_ends env others i r2 w2 r w' \<longleftrightarrow> (case r2 of
     Inl e \<Rightarrow> r = (if errors_Is_suspended e then Inr () else Inl e) \<and> w' = w2
   | Inr u \<Rightarrow> wrapE (''complete workflow [id = '' @ env_uuid_string env i @ '']'')
        (amid others (CompleteWorkflow env i)) w2 = (r, w'))"

text \<open>What others do between the reads of a run is any relation between databases that composes.\<close>

locale db_relation = step_relation R for R :: "db \<Rightarrow> db \<Rightarrow> bool"
begin

text \<open>A read among others sees the store at some later moment and leaves it so.\<close>

lemma amid_read:
  assumes "wrapE l (amid others m) w = (r, w')" and "\<And>v x v'. m v = (x, v') \<Longrightarrow> store v' = store v" and "interferes R others"
  shows "\<exists>u. R (store w) (store u) \<and> store w' = store u \<and> (\<forall>x. r = Inr x \<longrightarrow> (\<exists>u'. m u = (Inr x, u')))"
proof (intro exI [of _ "others w"] conjI)
  obtain r0 where run: "m (others w) = (r0, w')" "\<And>x. r = Inr x \<Longrightarrow> r0 = Inr x"
    using wrapE_run [OF assms(1)] by (auto simp: amid_def)
  then show "store w' = store (others w)" "\<forall>x. r = Inr x \<longrightarrow> (\<exists>u'. m (others w) = (Inr x, u'))"
    using assms(2) by blast+
qed (use assms(3) in \<open>simp add: interferes_def\<close>)

lemma workflow_loads_split:
  assumes law: "wait_group_law env" and others: "interferes R others"
    and run: "workflow_loads env (interleaved others (postgres env s)) i w = (r, w')"
  shows "R (store w) (store w') \<and> (\<forall>h g. r = Inr (h, g) \<longrightarrow> (\<exists>u u' v v'.
    R (store w) (store u) \<and> R (store u) (store w') \<and> ListHistoryEventsForWorkflow env s i u = (Inr h, u') \<and>
    R (store w) (store v) \<and> R (store v) (store w') \<and> ListWorkflowSignals env s i v = (Inr g, v')))"
proof -
  let ?f = "wrapE (''list history events for workflow [id = '' @ env_uuid_string env i @ '']'')
      (amid others (ListHistoryEventsForWorkflow env s i))"
  let ?g = "wrapE (''list signals for workflow [id = '' @ env_uuid_string env i @ '']'')
      (amid others (ListWorkflowSignals env s i))"
  obtain r1 where wait: "env_wait_group env ?f ?g w = (r1, w')" and r: "\<And>x. r = Inr x \<Longrightarrow> r1 = Inr x"
    using wrapE_run [OF run [unfolded workflow_loads_def interleaved_simps postgres_simps]] by blast
  from law wait obtain w0 rf wf w1 rg wg where ans: "wait_answer rf rg r1" and w0: "store w0 = store w"
    and order: "?f w0 = (rf, wf) \<and> store w1 = store wf \<and> ?g w1 = (rg, wg) \<and> store w' = store wg \<or>
      ?g w0 = (rg, wg) \<and> store w1 = store wg \<and> ?f w1 = (rf, wf) \<and> store w' = store wf"
    unfolding wait_group_law_def by blast
  have read1: "\<exists>u. R (store x) (store u) \<and> store x' = store u \<and>
      (\<forall>y. z = Inr y \<longrightarrow> (\<exists>u'. ListHistoryEventsForWorkflow env s i u = (Inr y, u')))" if "?f x = (z, x')" for x z x'
    using that ListHistory_store others by (rule amid_read)
  have read2: "\<exists>v. R (store x) (store v) \<and> store x' = store v \<and>
      (\<forall>y. z = Inr y \<longrightarrow> (\<exists>v'. ListWorkflowSignals env s i v = (Inr y, v')))" if "?g x = (z, x')" for x z x'
    using that ListWorkflowSignals_store others by (rule amid_read)
  have "\<exists>u v. R (store w) (store u) \<and> (\<forall>x. rf = Inr x \<longrightarrow> (\<exists>u'. ListHistoryEventsForWorkflow env s i u = (Inr x, u'))) \<and>
      R (store w) (store v) \<and> R (store v) (store w') \<and> R (store u) (store w') \<and>
      (\<forall>x. rg = Inr x \<longrightarrow> (\<exists>v'. ListWorkflowSignals env s i v = (Inr x, v')))"
    using order
  proof (elim disjE conjE)
    assume runs: "?f w0 = (rf, wf)" "store w1 = store wf" "?g w1 = (rg, wg)" "store w' = store wg"
    obtain u where u: "R (store w) (store u)" "store wf = store u"
        "\<forall>x. rf = Inr x \<longrightarrow> (\<exists>u'. ListHistoryEventsForWorkflow env s i u = (Inr x, u'))"
      using read1 [OF runs(1)] w0 by auto
    obtain v where v: "R (store u) (store v)" "store w' = store v"
        "\<forall>x. rg = Inr x \<longrightarrow> (\<exists>v'. ListWorkflowSignals env s i v = (Inr x, v'))"
      using read2 [OF runs(3)] runs(2,4) u(2) by auto
    show ?thesis
      by (rule exI [of _ u], rule exI [of _ v]) (use u v R_trans [OF u(1) v(1)] in \<open>simp add: R_refl\<close>)
  next
    assume runs: "?g w0 = (rg, wg)" "store w1 = store wg" "?f w1 = (rf, wf)" "store w' = store wf"
    obtain v where v: "R (store w) (store v)" "store wg = store v"
        "\<forall>x. rg = Inr x \<longrightarrow> (\<exists>v'. ListWorkflowSignals env s i v = (Inr x, v'))"
      using read2 [OF runs(1)] w0 by auto
    obtain u where u: "R (store v) (store u)" "store w' = store u"
        "\<forall>x. rf = Inr x \<longrightarrow> (\<exists>u'. ListHistoryEventsForWorkflow env s i u = (Inr x, u'))"
      using read1 [OF runs(3)] runs(2,4) v(2) by auto
    show ?thesis
      by (rule exI [of _ u], rule exI [of _ v]) (use u v R_trans [OF v(1) u(1)] in \<open>simp add: R_refl\<close>)
  qed
  moreover have "rf = Inr h \<and> rg = Inr g" if "r = Inr (h, g)" for h g
    using ans r [OF that] by (cases rf; cases rg; auto simp: wait_answer_def)
  ultimately obtain u v where uv: "R (store w) (store u)" "R (store w) (store v)" "R (store v) (store w')" "R (store u) (store w')"
    "\<And>h g. r = Inr (h, g) \<Longrightarrow> \<exists>u'. ListHistoryEventsForWorkflow env s i u = (Inr h, u')"
    "\<And>h g. r = Inr (h, g) \<Longrightarrow> \<exists>v'. ListWorkflowSignals env s i v = (Inr g, v')"
    by blast
  show ?thesis
    using uv R_trans [OF uv(1,4)] by blast
qed

text \<open>A run fails on its loads, or its handler runs on the loaded events.\<close>

lemma runWorkflow_parts:
  assumes law: "wait_group_law env" and others: "interferes R others"
    and run: "runWorkflow env (interleaved others (postgres env s)) i inp handler w = (r, w')"
  obtains (unloaded) "R (store w) (store w')" "r \<noteq> Inr ()"
  | (loaded) h g u u' v v' w1 r2 w2 where
      "R (store w) (store u)" "R (store u) (store w1)" "ListHistoryEventsForWorkflow env s i u = (Inr h, u')"
      "R (store w) (store v)" "R (store v) (store w1)" "ListWorkflowSignals env s i v = (Inr g, v')" "R (store w) (store w1)"
      "handler (NewWorkflowContext i (interleaved others (postgres env s)) h g) inp w1 = (r2, w2)"
      "run_ends env others i r2 w2 r w'"
proof -
  let ?st = "interleaved others (postgres env s)"
  obtain rl w1 where loads: "workflow_loads env ?st i w = (rl, w1)" by fastforce
  note eff = workflow_loads_split [OF law others loads]
  show thesis
  proof (cases rl)
    case (Inl e)
    with loads run have "w' = w1" "r = Inl e" by (auto simp: runWorkflow_def workflow_loads_def bindE_def)
    with eff show thesis using unloaded by simp
  next
    case (Inr x)
    obtain h g where x: "x = (h, g)" by fastforce
    obtain r2 w2 where h: "handler (NewWorkflowContext i ?st h g) inp w1 = (r2, w2)" by fastforce
    have "run_ends env others i r2 w2 r w'"
      using run h by (cases r2)
        (auto simp: runWorkflow_loaded [OF loads [unfolded \<open>rl = Inr x\<close> x]] tryE_def run_ends_def)
    with eff Inr x h show thesis using loaded by blast
  qed
qed

end

sublocale pg_frame \<subseteq> db_relation R ..

context pg_frame
begin

lemma run_ends_keeps:
  assumes "run_ends env others i r2 w2 r w'" and others: "interferes R others"
  shows "R (store w2) (store w')"
proof (cases r2)
  case (Inl e)
  with assms(1) show ?thesis by (simp add: run_ends_def R_refl)
next
  case (Inr u)
  have "keeps R (wrapE l (amid others (CompleteWorkflow env i)))" for l
    by (intro keeps_wrapE keeps_amid keeps_CompleteWorkflow others)
  from keepsD [OF this] Inr assms(1) show ?thesis by (simp add: run_ends_def)
qed

lemma runWorkflow_split:
  assumes law: "wait_group_law env" and others: "interferes R others"
    and run: "runWorkflow env (interleaved others (postgres env s)) i inp handler w = (r, w')"
  obtains (unloaded) "R (store w) (store w')"
  | (loaded) h g u u' v v' w1 r2 w2 where
      "R (store w) (store u)" "R (store u) (store w1)" "ListHistoryEventsForWorkflow env s i u = (Inr h, u')"
      "R (store w) (store v)" "R (store v) (store w1)" "ListWorkflowSignals env s i v = (Inr g, v')" "R (store w) (store w1)"
      "handler (NewWorkflowContext i (interleaved others (postgres env s)) h g) inp w1 = (r2, w2)" "R (store w2) (store w')"
  using runWorkflow_parts [OF assms] run_ends_keeps [OF _ others] by metis

end

lemma keeps_mono: "keeps Q m \<Longrightarrow> (\<And>d d'. Q d d' \<Longrightarrow> R d d') \<Longrightarrow> keeps R m"
  by (simp add: keeps_def)

end
