(* ===== verification/Claimed_Records.thy ===== *)
theory Claimed_Records
  imports Row_Invariant
begin

text \<open>
  The records that a poll hands to the handlers: each agrees, in what never changes of it, with the
  row it was read from, at the moment of the claim and ever after.
\<close>

section \<open>Records and rows\<close>

definition task_of :: "db \<Rightarrow> workflow_task_record \<Rightarrow> bool" where
  "task_of d t \<longleftrightarrow> (\<exists>w \<in> set (workflows d). 
     w_id w = wr_ID (tr_Workflow t) \<and> w_name w = wr_Name (tr_Workflow t) \<and> w_input w = wr_Input (tr_Workflow t))"

definition activity_of :: "db \<Rightarrow> activity_record \<Rightarrow> bool" where
  "activity_of d r \<longleftrightarrow> (\<exists>a \<in> set (activities d). 
     a_id a = ar_ID r \<and> a_idempotency_key a = ar_IdempotencyKey r \<and> a_workflow_id a = ar_WorkflowID r \<and>
     a_name a = ar_Name r \<and> a_input a = ar_Input r)"

lemma task_of_kept: "engine_kept d d' \<Longrightarrow> task_of d t \<Longrightarrow> task_of d' t"
  by (drule engine_keptD(4)) (fastforce simp: task_of_def workflows_kept_def workflow_kept_def)

lemma activity_of_kept: "engine_kept d d' \<Longrightarrow> activity_of d r \<Longrightarrow> activity_of d' r"
  by (drule engine_keptD(3)) (fastforce simp: activity_of_def activities_kept_def activity_kept_def)

section \<open>What the fetches return\<close>

lemma ListActiveWorkflowTasks_of:
  assumes run: "ListActiveWorkflowTasks env names n w = (Inr ts, w')"
  shows "\<forall>t \<in> set ts. task_of (store w') t"
proof
  fix t
  assume t: "t \<in> set ts"
  from run obtain rows q named where fetch: "fetch_tasks named (unat n) q (store w) = Inr (rows, store w')"
    and scan: "scan_all ''scan workflow task'' (scan_workflow_task env) rows = Inr ts"
    by (auto simp: ListActiveWorkflowTasks_def bindE_ok exec_ok sql_fetch_workflow_tasks_def
        sql_fetch_workflow_tasks_with_names_def split: if_splits)
  from scan_all_mem [OF scan t] obtain x y where xy: "(x, y) \<in> set rows" "scan_workflow_task env (x, y) = Inr t" by auto
  then have "wr_ID (tr_Workflow t) = w_id y" "wr_Name (tr_Workflow t) = w_name y" "wr_Input (tr_Workflow t) = w_input y"
    by (auto simp: scan_workflow_task_def scan_workflow_def bindS_def split: sum.splits)
  moreover have "find_workflow (store w') (t_workflow_id x) = Some y"
    using fetch xy(1) by (auto simp: fetch_tasks_ok claimed_tasks_def split: option.splits)
  then have "y \<in> set (workflows (store w'))" using find_workflow_Some by blast
  ultimately show "task_of (store w') t" by (auto simp: task_of_def)
qed

lemma ListActiveActivities_of:
  assumes run: "ListActiveActivities env names n w = (Inr as, w')"
  shows "\<forall>a \<in> set as. activity_of (store w') a"
proof
  fix a
  assume a: "a \<in> set as"
  from run obtain rows q named where fetch: "fetch_activities named (unat n) q (store w) = Inr (rows, store w')"
    and scan: "scan_all ''scan activity'' (scan_activity env) rows = Inr as"
    by (auto simp: ListActiveActivities_def bindE_ok exec_ok sql_fetch_activities_def
        sql_fetch_activities_with_names_def split: if_splits)
  from scan_all_mem [OF scan a] obtain x where x: "x \<in> set rows" "scan_activity env x = Inr a" by auto
  then have "x \<in> set (activities (store w'))" using fetch by (auto simp: fetch_activities_ok claim_activities_ok)
  moreover have "a_id x = ar_ID a" "a_idempotency_key x = ar_IdempotencyKey a" "a_workflow_id x = ar_WorkflowID a"
    "a_name x = ar_Name a" "a_input x = ar_Input a"
    using x(2) by (auto simp: scan_activity_def bindS_def split: sum.splits)
  ultimately show "activity_of (store w') a" by (auto simp: activity_of_def)
qed

lemma workflow_poll_of:
  assumes "su_storage su = interleaved others (postgres env s)" and "workflow_poll su k w = ((b, ts), w')" and "t \<in> set ts"
  shows "task_of (store w') t"
  using assms processWorkflowTasks_ran [of "su_storage su" "su_config su" "su_names su" k w b ts w']
  by (auto simp: workflow_poll_def amid_def dest!: ListActiveWorkflowTasks_of)

lemma activity_poll_of:
  assumes "su_storage su = interleaved others (postgres env s)" and "activity_poll su k w = ((b, as), w')" and "a \<in> set as"
  shows "activity_of (store w') a"
  using assms processActivities_ran [of "su_storage su" "su_config su" "su_names su" k w b as w']
  by (auto simp: activity_poll_def amid_def dest!: ListActiveActivities_of)

end
