(* ===== verification/Claim_Properties.thy ===== *)
theory Claim_Properties
  imports Fetch_Properties Claimed_Records
begin

text \<open>
  What attempts count. Whatever workers claim an activity, in any interleaving with everything else the
  engine does, each claim has an attempt number of its own, so that an activity is never handed to
  a handler more often than its attempts say.
\<close>

section \<open>A history of claims\<close>

text \<open>
  The records that all workers together were given, in the order of their fetches, among any other
  steps that keep what is permanent; a fetch whose answer is lost is one of those.
\<close>

inductive claims :: "(db, 'v) env \<Rightarrow> db world \<Rightarrow> activity_record list \<Rightarrow> db world \<Rightarrow> bool"
  for env :: "(db, 'v) env" and w0 :: "db world"
where
  none: "claims env w0 [] w0"
| fetched: "claims env w0 rs w \<Longrightarrow> ListActiveActivities env names n w = (Inr new, w') \<Longrightarrow> claims env w0 (rs @ new) w'"
| other: "claims env w0 rs w \<Longrightarrow> engine_kept (store w) (store w') \<Longrightarrow> claims env w0 rs w'"

lemma fetch_kept: "ListActiveActivities env names n w = (r, w') \<Longrightarrow> engine_kept (store w) (store w')"
  using keepsD [OF kept.keeps_ListActiveActivities] by blast

text \<open>The activities of one batch are different ones.\<close>

lemma scan_all_map: "scan_all label scan rs = Inr xs \<Longrightarrow> (\<And>r x. scan r = Inr x \<Longrightarrow> f x = g r) \<Longrightarrow> map f xs = map g rs"
  by (induction rs arbitrary: xs) (auto split: sum.splits)

lemma fetched_distinct:
  assumes v: "valid_db (store w)" and run: "ListActiveActivities env names n w = (Inr new, w')"
  shows "distinct (map ar_ID new)"
proof -
  let ?named = "\<lambda>nm. names = [] \<or> nm \<in> set names" and ?q = "snap_at env Pool (ticks w)"
  obtain rows where scan: "scan_all ''scan activity'' (scan_activity env) rows = Inr new"
    and fetch: "fetch_activities ?named (unat n) ?q (store w) = Inr (rows, store w')"
    using run by (rule ListActiveActivities_ok)
  have "map ar_ID new = map a_id rows"
    using scan by (rule scan_all_map) (auto simp: scan_activity_def bindS_def split: sum.splits)
  moreover have "mset (map a_id rows) = mset (map a_id (activity_batch ?named (unat n) ?q (store w)))"
    using fetch_activities_batch(1) [OF fetch] by (rule mset_ranks) simp
  moreover have "distinct (map a_id (activity_batch ?named (unat n) ?q (store w)))"
    using valid_dbD(1) [OF v] by (simp add: activity_batch_def keys_ok_def distinct_map_filter)
  ultimately show ?thesis by (metis mset_eq_imp_distinct_iff)
qed

section \<open>What is known of the claims\<close>

text \<open>A claim is one of the attempts of its activity.\<close>

definition spent :: "db \<Rightarrow> activity_record \<Rightarrow> bool" where
  "spent d r \<longleftrightarrow> (\<exists>a \<in> set (activities d). a_id a = ar_ID r \<and> 1 \<le> uint (ar_Attempts r) \<and> uint (ar_Attempts r) \<le> a_attempts a)"

lemma spent_kept: "engine_kept d d' \<Longrightarrow> spent d r \<Longrightarrow> spent d' r"
  by (drule engine_keptD(3)) (fastforce simp: spent_def activities_kept_def activity_kept_def)

lemma fetched_spent:
  assumes v: "valid_db (store w)" and law: "scan_uint_law env" and run: "ListActiveActivities env names n w = (Inr new, w')"
    and r: "r \<in> set new"
  shows "spent (store w') r" and "spent (store w) x \<Longrightarrow> ar_ID x = ar_ID r \<Longrightarrow> ar_Attempts x \<noteq> ar_Attempts r"
proof -
  from listed_activity [OF v law run r] obtain a where a: "find_activity (store w) (ar_ID r) = Some a"
    "find_activity (store w') (ar_ID r) = Some (claim_activity (env_pg_now env (ticks w)) a)" "uint (ar_Attempts r) = a_attempts a + 1"
    by blast
  have "0 \<le> a_attempts a"
    using valid_dbD(5) [OF v] find_activity_Some [OF a(1)] by (auto simp: list_all_iff activity_ok_def)
  with a show "spent (store w') r"
    unfolding spent_def by (intro bexI [of _ "claim_activity (env_pg_now env (ticks w)) a"]) (auto dest: find_activity_Some simp: claim_activity_def)
  assume "spent (store w) x" "ar_ID x = ar_ID r"
  then obtain b where b: "b \<in> set (activities (store w))" "a_id b = ar_ID r" "uint (ar_Attempts x) \<le> a_attempts b"
    by (auto simp: spent_def)
  have "b = a" using find_activity_mem [OF valid_dbD(1) [OF v] b(1)] b(2) a(1) by simp
  with b(3) a(3) show "ar_Attempts x \<noteq> ar_Attempts r" by auto
qed

definition attempt :: "activity_record \<Rightarrow> uuid \<times> uint" where
  "attempt = (\<lambda>r. (ar_ID r, ar_Attempts r))"

lemma claims_distinct:
  assumes law: "scan_uint_law env" and v0: "valid_db (store w0)" and "claims env w0 rs w"
  shows "valid_db (store w) \<and> (\<forall>r \<in> set rs. spent (store w) r) \<and> distinct (map attempt rs)"
  using assms(3)
proof (induction rule: claims.induct)
  case none
  with v0 show ?case by simp
next
  case (fetched rs w names n new w')
  then have v: "valid_db (store w)" and rs: "\<forall>r \<in> set rs. spent (store w) r" "distinct (map attempt rs)" by blast+
  note kept = fetch_kept [OF fetched(2)]
  have "distinct (map attempt new)"
    using fetched_distinct [OF v fetched(2)] by (auto simp: distinct_map attempt_def inj_on_def)
  moreover have "attempt x \<noteq> attempt r" if "x \<in> set rs" "r \<in> set new" for x r
    using fetched_spent(2) [OF v law fetched(2) that(2)] rs(1) that(1) by (auto simp: attempt_def)
  then have "set (map attempt rs) \<inter> set (map attempt new) = {}" unfolding set_map by (intro Int_emptyI) (metis imageE)
  moreover have "\<forall>r \<in> set (rs @ new). spent (store w') r"
    using fetched_spent(1) [OF v law fetched(2)] spent_kept [OF kept] rs(1) by auto
  ultimately show ?case using rs(2) engine_keptD(1) [OF kept v] by simp
next
  case (other rs w w')
  with engine_keptD(1) spent_kept show ?case by blast
qed

lemma claims_counted:
  assumes law: "scan_uint_law env" and v0: "valid_db (store w0)" and rs: "claims env w0 rs w"
    and a: "a \<in> set (activities (store w))"
  shows "int (length (filter (\<lambda>r. ar_ID r = a_id a) rs)) \<le> a_attempts a"
proof -
  let ?xs = "filter (\<lambda>r. ar_ID r = a_id a) rs"
  note known = claims_distinct [OF law v0 rs]
  then have v: "valid_db (store w)" and spent: "\<forall>r \<in> set ?xs. spent (store w) r" and "distinct (map attempt ?xs)"
    by (auto simp: distinct_map_filter)
  then have dist: "distinct (map (\<lambda>r. uint (ar_Attempts r)) ?xs)"
    by (auto simp: distinct_map attempt_def inj_on_def word_uint_eq_iff)
  have range: "uint (ar_Attempts r) \<in> {1..a_attempts a}" if "r \<in> set ?xs" for r
  proof -
    from spent that have sp: "spent (store w) r" and r: "ar_ID r = a_id a" by simp_all
    from sp [unfolded spent_def] obtain b where b: "b \<in> set (activities (store w))" "a_id b = ar_ID r"
      "1 \<le> uint (ar_Attempts r)" "uint (ar_Attempts r) \<le> a_attempts b" by blast
    have "a_id b = a_id a" using b(2) r by (rule trans)
    then have "b = a"
      using find_activity_mem [OF valid_dbD(1) [OF v] b(1)] find_activity_mem [OF valid_dbD(1) [OF v] a] by (metis option.inject)
    with b(3,4) show ?thesis unfolding atLeastAtMost_iff by blast
  qed
  have "length ?xs = card ((\<lambda>r. uint (ar_Attempts r)) ` set ?xs)"
    using distinct_card [OF dist] by simp
  also have "\<dots> \<le> card {1..a_attempts a}" by (rule card_mono) (use range in auto)
  also have "\<dots> = nat (a_attempts a)" by simp
  finally have "length ?xs \<le> nat (a_attempts a)" .
  moreover have "0 \<le> a_attempts a" using valid_dbD(5) [OF v] a by (auto simp: list_all_iff activity_ok_def)
  ultimately show ?thesis by linarith
qed

text \<open>
  C15: an activity is handed out at most as often as it has attempts. Whatever workers fetch activities, in
  any interleaving with everything else the engine does, under any errors and lost answers: no two
  of the records they were given are of the same attempt of the same activity, and there are at
  most as many records of an activity as its row counts attempts.
\<close>

theorem claims_spend_attempts:
  assumes "scan_uint_law env" and "valid_db (store w0)" and "claims env w0 rs w"
  shows "distinct (map (\<lambda>r. (ar_ID r, ar_Attempts r)) rs) \<and>
    (\<forall>a \<in> set (activities (store w)). int (length (filter (\<lambda>r. ar_ID r = a_id a) rs)) \<le> a_attempts a)"
  using claims_distinct [OF assms] claims_counted [OF assms] by (simp add: attempt_def)

text \<open>An activity that is claimed, rescheduled and claimed again.\<close>

definition ref_given_back :: "(error + unit) \<times> db world" where
  "ref_given_back = ReScheduleActivity ref_env 3 0 ''again'' (snd ref_fetched)"

definition ref_refetched :: "(error + activity_record list) \<times> db world" where
  "ref_refetched = ListActiveActivities ref_env [] 5 (snd ref_given_back)"

lemma ref_claims_run:
  "\<not> isl (fst ref_fetched) \<and> map attempt (projr (fst ref_fetched)) = [(3, 1)]"
  "\<not> isl (fst ref_refetched) \<and> map attempt (projr (fst ref_refetched)) = [(3, 2)]"
  unfolding ref_refetched_def ref_given_back_def ref_fetched_def by code_simp+

lemma run_Inr: "y = x \<Longrightarrow> \<not> isl (fst x) \<Longrightarrow> y = (Inr (projr (fst x)), snd x)"
  by (cases x) auto

lemma count_claims: "length (filter (\<lambda>r. ar_ID r = i) rs) = length (filter (\<lambda>x. fst x = i) (map attempt rs))"
  by (simp add: filter_map comp_def attempt_def)

lemma ref_claims: "claims ref_env ref_world (projr (fst ref_fetched) @ projr (fst ref_refetched)) (snd ref_refetched)"
proof (rule claims.fetched)
  have "claims ref_env ref_world ([] @ projr (fst ref_fetched)) (snd ref_fetched)"
    by (rule claims.fetched [OF claims.none run_Inr [OF ref_fetched_def [symmetric]]]) (rule ref_claims_run(1) [THEN conjunct1])
  moreover have "engine_kept (store (snd ref_fetched)) (store (snd ref_given_back))"
    by (rule keepsD [OF kept.keeps_ReScheduleActivity [of ref_env 3 0 "''again''"], of _ "fst ref_given_back"]) (simp add: ref_given_back_def)
  ultimately show "claims ref_env ref_world (projr (fst ref_fetched)) (snd ref_given_back)"
    unfolding append_Nil by (rule claims.other)
  show "ListActiveActivities ref_env [] 5 (snd ref_given_back) = (Inr (projr (fst ref_refetched)), snd ref_refetched)"
    by (rule run_Inr [OF ref_refetched_def [symmetric]]) (rule ref_claims_run(2) [THEN conjunct1])
qed

definition ref_claimed_twice :: "activity_record list" where
  "ref_claimed_twice = projr (fst ref_fetched) @ projr (fst ref_refetched)"

lemma ref_claimed_attempts: "map attempt ref_claimed_twice = [(3, 1), (3, 2)]"
  using ref_claims_run by (simp add: ref_claimed_twice_def)

lemma claims_spend_attempts_witness:
  "\<exists>a \<in> set (activities (store (snd ref_refetched))). a_id a = 3 \<and> 2 \<le> a_attempts a"
proof -
  have "list_ex (\<lambda>a. a_id a = 3) (activities (store (snd ref_refetched)))"
    unfolding ref_refetched_def ref_given_back_def ref_fetched_def by code_simp
  then obtain a where a: "a \<in> set (activities (store (snd ref_refetched)))" "a_id a = 3" by (auto simp: list_ex_iff)
  have "length (filter (\<lambda>r. ar_ID r = 3) ref_claimed_twice) = 2"
    unfolding count_claims ref_claimed_attempts by simp
  moreover have "int (length (filter (\<lambda>r. ar_ID r = a_id a) ref_claimed_twice)) \<le> a_attempts a"
    using claims_spend_attempts [OF ref_scan_uint_law ref_world_valid ref_claims] a(1) unfolding ref_claimed_twice_def by blast
  ultimately have "2 \<le> a_attempts a" unfolding a(2) by linarith
  with a show ?thesis by blast
qed

section \<open>The claims of a worker\<close>

lemma poll_claims:
  assumes others: "interferes engine_kept others" and st: "su_storage su = interleaved others (postgres env s)"
    and rs: "claims env w0 rs w" and poll: "activity_poll su k w = ((b, new), w')"
  shows "claims env w0 (rs @ new) w'"
proof -
  have "engine_kept (store w) (store (others w))" using others by (simp add: interferes_def)
  with rs have before: "claims env w0 rs (others w)" by (rule claims.other)
  from processActivities_ran [OF poll [unfolded activity_poll_def]] show ?thesis
  proof (elim disjE exE conjE)
    assume "new = []" "w' = w"
    with rs show ?thesis by simp
  next
    fix r
    assume "st_ListActiveActivities (su_storage su) (su_names su) (min (free_slots (su_config su) k) (BatchSize (Poll (su_config su)))) w = (r, w')"
    then have run: "ListActiveActivities env (su_names su) (min (free_slots (su_config su) k) (BatchSize (Poll (su_config su)))) (others w) = (r, w')"
      by (simp add: st amid_def)
    show ?thesis if "new = []" using claims.other [OF before fetch_kept [OF run]] that by simp
    show ?thesis if "r = Inr new" using claims.fetched [OF before run [unfolded that]] .
  qed
qed

text \<open>What a worker has in flight was claimed for it, each record once.\<close>

lemma in_flight_claimed:
  assumes others: "interferes engine_kept others" and st: "su_storage su = interleaved others (postgres env s)"
    and handle: "\<And>r. keeps engine_kept (activity_handle su r)"
    and "worker_reachable (activity_poll su) (activity_handle su) w0 p w"
  shows "\<exists>rs. claims env w0 rs w \<and> mset (inflight p) \<subseteq># mset rs"
  using assms(4)
proof (induction rule: worker_reachable.induct)
  case start
  show ?case by (intro exI [of _ "[]"]) (simp add: claims.none Start_def)
next
  case (step p w p' w')
  then obtain rs where rs: "claims env w0 rs w" "mset (inflight p) \<subseteq># mset rs" by blast
  note polled = poll_claims [OF others st rs(1)]
  from step(2) show ?case
  proof (cases rule: worker_step.cases)
    case (finish rs1 r rs2 res)
    then have "engine_kept (store w) (store w')" using keepsD [OF handle] by blast
    with rs(1) have "claims env w0 rs w'" by (rule claims.other)
    moreover have "mset (inflight p') \<subseteq># mset (inflight p)" using finish by simp
    ultimately show ?thesis using rs(2) subset_mset.order_trans by blast
  next
    case (drained k new)
    with polled rs(2) show ?thesis by (intro exI [of _ "rs @ new"]) simp
  next
    case (more k new)
    with polled rs(2) show ?thesis by (intro exI [of _ "rs @ new"]) simp
  next
    case (more_stopped k new)
    with polled rs(2) show ?thesis by (intro exI [of _ "rs @ new"]) simp
  qed (use rs in auto)
qed

end
