(* ===== verification/Wakeups.thy ===== *)
theory Wakeups
  imports Replay Reachability
begin

text \<open>
  No lost wake-up. A workflow whose run was suspended is resumed by a workflow task. Two
  relations between database states say that one is there when it is needed: whatever
  becomes known to a workflow comes with a new task of that workflow, and an activity that
  fails ends its workflow. Both hold across all calls of the workers.
\<close>

section \<open>Relations\<close>

text \<open>The keys of what a run of a workflow can see: completed activities and signals.\<close>

definition history_keys :: "db \<Rightarrow> uuid \<Rightarrow> uuid set" where
  "history_keys d i = a_idempotency_key ` {a \<in> set (activities d). a_workflow_id a = i \<and> a_status a = ActivityCompleted}"

definition signal_keys :: "db \<Rightarrow> uuid \<Rightarrow> uuid set" where
  "signal_keys d i = s_idempotency_key ` {x \<in> set (signals d). s_workflow_id x = i}"

definition gained_task :: "uuid \<Rightarrow> db \<Rightarrow> db \<Rightarrow> bool" where
  "gained_task i d d' \<longleftrightarrow> (\<exists>t \<in> set (tasks d'). t_workflow_id t = i \<and> t_id t \<notin> t_id ` set (tasks d))"

text \<open>Tasks keep their id and workflow.\<close>

definition task_refs :: "db \<Rightarrow> (uuid \<times> uuid) set" where
  "task_refs d = (\<lambda>t. (t_id t, t_workflow_id t)) ` set (tasks d)"

definition woken :: "db \<Rightarrow> db \<Rightarrow> bool" where
  "woken d d' \<longleftrightarrow> task_refs d \<subseteq> task_refs d' \<and>
     (\<forall>i. history_keys d' i \<subseteq> history_keys d i \<and> signal_keys d' i \<subseteq> signal_keys d i \<or> gained_task i d d')"

lemma gained_taskI: "t \<in> set (tasks d') \<Longrightarrow> t_workflow_id t = i \<Longrightarrow> t_id t \<notin> t_id ` set (tasks d) \<Longrightarrow> gained_task i d d'"
  by (auto simp: gained_task_def)

lemma task_refs_ids: "task_refs d \<subseteq> task_refs d' \<Longrightarrow> t_id ` set (tasks d) \<subseteq> t_id ` set (tasks d')"
  by (fastforce simp: task_refs_def)

lemma task_refs_mem:
  assumes "task_refs d \<subseteq> task_refs d'" and "t \<in> set (tasks d)"
  obtains u where "u \<in> set (tasks d')" "t_id u = t_id t" "t_workflow_id u = t_workflow_id t"
proof -
  have "(t_id t, t_workflow_id t) \<in> task_refs d'" using assms by (auto simp: task_refs_def)
  then show ?thesis using that by (auto simp: task_refs_def)
qed

lemma gained_task_later:
  assumes "gained_task i d1 d2" and "task_refs d2 \<subseteq> task_refs d3"
  shows "gained_task i d1 d3"
proof -
  from assms(1) obtain t where t: "t \<in> set (tasks d2)" "t_workflow_id t = i" "t_id t \<notin> t_id ` set (tasks d1)"
    unfolding gained_task_def by blast
  obtain u where "u \<in> set (tasks d3)" "t_id u = t_id t" "t_workflow_id u = t_workflow_id t"
    using assms(2) t(1) by (rule task_refs_mem)
  with t show ?thesis by (intro gained_taskI [of u]) simp_all
qed

lemma gained_task_earlier:
  assumes "gained_task i d2 d3" and "task_refs d1 \<subseteq> task_refs d2"
  shows "gained_task i d1 d3"
  using assms(1) subsetD [OF task_refs_ids [OF assms(2)]] unfolding gained_task_def by blast

lemma woken_trans:
  assumes "woken d1 d2" and "woken d2 d3"
  shows "woken d1 d3"
proof -
  have refs: "task_refs d1 \<subseteq> task_refs d2" "task_refs d2 \<subseteq> task_refs d3"
    using assms by (simp_all add: woken_def)
  have "history_keys d3 i \<subseteq> history_keys d1 i \<and> signal_keys d3 i \<subseteq> signal_keys d1 i"
    if "\<not> gained_task i d1 d3" for i
  proof -
    have "\<not> gained_task i d1 d2" "\<not> gained_task i d2 d3"
      using that gained_task_later [OF _ refs(2)] gained_task_earlier [OF _ refs(1)] by blast+
    with assms have "history_keys d2 i \<subseteq> history_keys d1 i" "history_keys d3 i \<subseteq> history_keys d2 i"
      "signal_keys d2 i \<subseteq> signal_keys d1 i" "signal_keys d3 i \<subseteq> signal_keys d2 i"
      by (auto simp: woken_def)
    then show ?thesis by auto
  qed
  with subset_trans [OF refs] show ?thesis unfolding woken_def by blast
qed

lemma woken_same:
  "task_refs d \<subseteq> task_refs d' \<Longrightarrow> (\<And>i. history_keys d' i \<subseteq> history_keys d i) \<Longrightarrow> signals d' = signals d \<Longrightarrow> woken d d'"
  by (simp add: woken_def signal_keys_def)

text \<open>A failed activity has ended its workflow.\<close>

definition ended :: "db \<Rightarrow> uuid \<Rightarrow> bool" where
  "ended d i \<longleftrightarrow> (\<exists>x \<in> set (workflows d). w_id x = i \<and> w_status x \<noteq> WorkflowRunning)"

definition failures_end :: "db \<Rightarrow> db \<Rightarrow> bool" where
  "failures_end d d' \<longleftrightarrow> workflows_kept d d' \<and>
     (\<forall>a \<in> set (activities d'). a_status a = ActivityFailed \<longrightarrow> ended d' (a_workflow_id a) \<or>
        (\<exists>b \<in> set (activities d). a_id b = a_id a \<and> a_workflow_id b = a_workflow_id a \<and> a_status b = ActivityFailed))"

lemma ended_kept: "ended d i \<Longrightarrow> workflows_kept d d' \<Longrightarrow> ended d' i"
  by (fastforce simp: ended_def workflows_kept_def workflow_kept_def)

lemma failures_end_trans:
  assumes "failures_end d1 d2" and "failures_end d2 d3"
  shows "failures_end d1 d3"
  unfolding failures_end_def
proof (intro conjI ballI impI)
  show "workflows_kept d1 d3"
    using assms flows.R_trans [of d1 d2 d3] by (simp add: failures_end_def)
  fix a
  assume a: "a \<in> set (activities d3)" "a_status a = ActivityFailed"
  with assms(2) consider "ended d3 (a_workflow_id a)"
    | b where "b \<in> set (activities d2)" "a_id b = a_id a" "a_workflow_id b = a_workflow_id a" "a_status b = ActivityFailed"
    unfolding failures_end_def by blast
  then show "ended d3 (a_workflow_id a) \<or>
      (\<exists>b \<in> set (activities d1). a_id b = a_id a \<and> a_workflow_id b = a_workflow_id a \<and> a_status b = ActivityFailed)"
  proof cases
    case b: 2
    with assms(1) have "ended d2 (a_workflow_id a) \<or>
        (\<exists>c \<in> set (activities d1). a_id c = a_id a \<and> a_workflow_id c = a_workflow_id a \<and> a_status c = ActivityFailed)"
      unfolding failures_end_def by metis
    then show ?thesis using assms(2) ended_kept [of d2 _ d3] by (auto simp: failures_end_def)
  qed simp
qed

section \<open>The calls that make something known\<close>

text \<open>What the three calls do, as far as the relations are concerned.\<close>

definition activity_done :: "uuid \<Rightarrow> uuid \<Rightarrow> db \<Rightarrow> db \<Rightarrow> bool" where
  "activity_done i wid d d' \<longleftrightarrow>
     row_changed find_activity i (\<lambda>a b. a_id b = a_id a \<and> a_workflow_id b = a_workflow_id a \<and> a_status b = ActivityCompleted) d d' \<and>
     task_enqueued wid d d' \<and> workflows d' = workflows d \<and> signals d' = signals d"

definition signal_added :: "uuid \<Rightarrow> db \<Rightarrow> db \<Rightarrow> bool" where
  "signal_added wid d d' \<longleftrightarrow> (\<exists>x. s_workflow_id x = wid \<and> signals d' = signals d @ [x]) \<and>
     task_enqueued wid d d' \<and> workflows d' = workflows d \<and> activities d' = activities d"

text \<open>A worker names the activity it fetched and that activity's workflow.\<close>

definition owned :: "db \<Rightarrow> uuid \<Rightarrow> uuid \<Rightarrow> bool" where
  "owned d i wid \<longleftrightarrow> (\<exists>a \<in> set (activities d). a_id a = i \<and> a_workflow_id a = wid)"

lemma row_changed_mono:
  "row_changed lookup i P d d' \<Longrightarrow> (\<And>a b. P a b \<Longrightarrow> Q a b) \<Longrightarrow> row_changed lookup i Q d d'"
  by (auto simp: row_changed_def)

lemma activity_completed_done: "activity_completed s i wid out d d' \<Longrightarrow> activity_done i wid d d'"
proof -
  assume c: "activity_completed s i wid out d d'"
  then obtain out' where "row_changed find_activity i (\<lambda>a b. \<exists>now. b = a\<lparr>a_status := ActivityCompleted, a_output := out',
      a_completed_at := Some now, a_error_message := None, a_updated_at := a_updated_at b\<rparr>) d d'"
    by (auto simp: activity_completed_def)
  then have "row_changed find_activity i (\<lambda>a b. a_id b = a_id a \<and> a_workflow_id b = a_workflow_id a \<and> a_status b = ActivityCompleted) d d'"
  proof (rule row_changed_mono)
    fix a b :: activity_row
    assume "\<exists>now. b = a\<lparr>a_status := ActivityCompleted, a_output := out', a_completed_at := Some now,
        a_error_message := None, a_updated_at := a_updated_at b\<rparr>"
    then show "a_id b = a_id a \<and> a_workflow_id b = a_workflow_id a \<and> a_status b = ActivityCompleted"
      by (cases a; cases b) simp
  qed
  with c show ?thesis by (simp add: activity_done_def activity_completed_def)
qed

lemma signal_received_added: "signal_received s wid i key name inp d d' \<Longrightarrow> signal_added wid d d'"
  by (auto simp: signal_received_def signal_added_def new_signal_def)

lemma owned_workflow: "valid_db d \<Longrightarrow> owned d i wid \<Longrightarrow> wid \<in> wf_ids d"
  by (auto simp: owned_def valid_db_def refs_ok_def)

lemma CompleteActivity_done:
  assumes "begin_func_law env" and "fresh_uuids env w" and "wid \<in> wf_ids (store w)"
    and "CompleteActivity env s i wid output w = (r, w')"
  shows "store w' = store w \<or> activity_done i wid (store w) (store w')"
proof -
  have "all_or_nothing (activity_done i wid) (store w) r (store w')"
    by (rule tx_all_or_nothing [OF assms(1) assms(4) [unfolded CompleteActivity_def]])
      (rule activity_completed_done [OF CompleteActivity_body [OF fresh_uuids_later [OF assms(2)]]], simp_all add: assms(3))
  then show ?thesis by (auto simp: all_or_nothing_def split: sum.splits)
qed

lemma FailActivity_failed:
  assumes "begin_func_law env" and "FailActivity env i wid msg w = (r, w')"
  shows "store w' = store w \<or> activity_failed i wid msg (store w) (store w')"
proof -
  have "all_or_nothing (activity_failed i wid msg) (store w) r (store w')"
    by (rule tx_all_or_nothing [OF assms(1) assms(2) [unfolded FailActivity_def]]) (rule FailActivity_body)
  then show ?thesis by (auto simp: all_or_nothing_def split: sum.splits)
qed

lemma InsertSignal_added:
  assumes "begin_func_law env" and "fresh_uuids env w" and "InsertSignal env s txer wid i key name input w = (r, w')"
  shows "store w' = store w \<or> signal_added wid (store w) (store w')"
proof -
  have "all_or_nothing (signal_added wid) (store w) r (store w')"
    by (rule tx_all_or_nothing [OF assms(1) assms(3) [unfolded InsertSignal_def]])
      (rule signal_received_added [OF InsertSignal_body [OF fresh_uuids_later [OF assms(2)]]], simp_all)
  then show ?thesis by (auto simp: all_or_nothing_def split: sum.splits)
qed

section \<open>Steps of the workers\<close>

text \<open>
  The calls that clients and workers make: an activity is completed or failed by the name of
  its own workflow, and the ids generated for the tasks are not in use.
\<close>

inductive sound_step :: "(db, 'v) env \<Rightarrow> 'v pg_storage \<Rightarrow> db world \<Rightarrow> db world \<Rightarrow> bool"
  for env :: "(db, 'v) env" and s :: "'v pg_storage"
where
  quiet: "quiet_step env s w w' \<Longrightarrow> sound_step env s w w'"
| complete_activity: "owned (store w) i wid \<Longrightarrow> fresh_uuids env w \<Longrightarrow>
    CompleteActivity env s i wid output w = (r, w') \<Longrightarrow> sound_step env s w w'"
| fail_activity: "owned (store w) i wid \<Longrightarrow> FailActivity env i wid msg w = (r, w') \<Longrightarrow> sound_step env s w w'"
| insert_signal: "fresh_uuids env w \<Longrightarrow> InsertSignal env s txer wid i key name input w = (r, w') \<Longrightarrow> sound_step env s w w'"

definition sound_steps :: "(db, 'v) env \<Rightarrow> 'v pg_storage \<Rightarrow> db world \<Rightarrow> db world \<Rightarrow> bool" where
  "sound_steps env s = (sound_step env s)\<^sup>*\<^sup>*"

inductive_cases sound_stepE: "sound_step env s w w'"

lemma sound_step_engine: "sound_step env s w w' \<Longrightarrow> engine_step env s w w'"
  by (induction rule: sound_step.induct) (blast intro: engine_step.intros)+

lemma sound_steps_engine: "sound_steps env s w w' \<Longrightarrow> engine_steps env s w w'"
  unfolding sound_steps_def engine_steps_def by (rule rtranclp_mono [THEN predicate2D]) (auto dest: sound_step_engine)

lemma sound_steps_valid:
  "sound_steps env s w w' \<Longrightarrow> begin_func_law env \<Longrightarrow> valid_db (store w) \<Longrightarrow> valid_db (store w')"
  by (drule sound_steps_engine, drule (1) valid.engine_steps_keep) (simp add: valid_kept_def)

text \<open>
  The contract of a relation that all these calls keep: the quiet statements keep it one by
  one, the other calls as a whole.
\<close>

locale pg_progress = pg_quiet +
  assumes finished: "valid_db d \<Longrightarrow> valid_db d' \<Longrightarrow> owned d i wid \<Longrightarrow> activity_done i wid d d' \<Longrightarrow> R d d'"
    and failed: "valid_db d \<Longrightarrow> valid_db d' \<Longrightarrow> owned d i wid \<Longrightarrow> activity_failed i wid msg d d' \<Longrightarrow> R d d'"
    and signalled: "valid_db d \<Longrightarrow> valid_db d' \<Longrightarrow> signal_added wid d d' \<Longrightarrow> R d d'"
begin

lemma sound_step_keeps:
  assumes step: "sound_step env s w w'" and law: "begin_func_law env" and v: "valid_db (store w)"
  shows "R (store w) (store w')"
proof -
  have v': "valid_db (store w')"
    using valid.engine_step_keeps [OF sound_step_engine [OF step] law] v by (simp add: valid_kept_def)
  from step show ?thesis
  proof (cases rule: sound_step.cases)
    case quiet
    then show ?thesis using law by (rule quiet_step_keeps)
  next
    case (complete_activity i wid out r)
    from CompleteActivity_done [OF law complete_activity(2) owned_workflow [OF v complete_activity(1)] complete_activity(3)]
    show ?thesis by (elim disjE) (simp add: R_refl, rule finished [OF v v' complete_activity(1)])
  next
    case (fail_activity i wid msg r)
    from FailActivity_failed [OF law fail_activity(2)]
    show ?thesis by (elim disjE) (simp add: R_refl, rule failed [OF v v' fail_activity(1)])
  next
    case (insert_signal txer wid i key name input r)
    from InsertSignal_added [OF law insert_signal]
    show ?thesis by (elim disjE) (simp add: R_refl, rule signalled [OF v v'])
  qed
qed

lemma sound_steps_keep:
  assumes "sound_steps env s w w'" and law: "begin_func_law env" and v: "valid_db (store w)"
  shows "R (store w) (store w')"
  using assms(1) unfolding sound_steps_def
proof (induction rule: rtranclp_induct)
  case (step w1 w2)
  have "valid_db (store w1)" using step(1) sound_steps_valid [OF _ law v] by (simp add: sound_steps_def)
  from R_trans [OF step(3) sound_step_keeps [OF step(2) law this]] show ?case .
qed (rule R_refl)

end

section \<open>No lost wake-up\<close>

lemma stmt_tasks:
  "sql_insert_workflow i k nm inp p maxa ms q d = Inr (u, d') \<Longrightarrow> tasks d' = tasks d"
  "sql_complete_workflow i q d = Inr (n, d') \<Longrightarrow> tasks d' = tasks d"
  "sql_fail_workflow i msg q d = Inr (n, d') \<Longrightarrow> tasks d' = tasks d"
  "sql_clear_workflow_error i q d = Inr (n, d') \<Longrightarrow> tasks d' = tasks d"
  "sql_increment_workflow_attempts i msg q d = Inr (n, d') \<Longrightarrow> tasks d' = tasks d"
  "sql_insert_activity i k wid nm inp p maxa ms at q d = Inr (n, d') \<Longrightarrow> tasks d' = tasks d"
  "claim_activities ids q d = Inr (acts, d') \<Longrightarrow> tasks d' = tasks d"
  "sql_reschedule_activity i at msg q d = Inr (n, d') \<Longrightarrow> tasks d' = tasks d"
  by (auto simp: stmt_defs Let_def split: if_splits option.splits)

lemma task_refs_update [simp]:
  assumes "\<And>t. t_id (f t) = t_id t \<and> t_workflow_id (f t) = t_workflow_id t"
  shows "task_refs (d\<lparr>tasks := update_where p f (tasks d)\<rparr>) = task_refs d"
  unfolding task_refs_def set_map [symmetric] by (simp add: map_update_where_same assms del: set_map)

lemma history_keys_update:
  assumes "\<And>a. a_status (f a) \<noteq> ActivityCompleted"
  shows "history_keys (d\<lparr>activities := update_where p f (activities d)\<rparr>) i \<subseteq> history_keys d i"
  using assms by (auto simp: history_keys_def)

lemma history_keys_cong: "activities d' = activities d \<Longrightarrow> history_keys d' = history_keys d"
  and task_refs_cong: "tasks d' = tasks d \<Longrightarrow> task_refs d' = task_refs d"
  and signal_keys_cong: "signals d' = signals d \<Longrightarrow> signal_keys d' = signal_keys d"
  by (simp_all add: history_keys_def task_refs_def signal_keys_def fun_eq_iff)

lemma stmt_same_activities:
  "sql_insert_activity i k wid nm inp p maxa ms at q d = Inr (n, d') \<Longrightarrow> history_keys d' j \<subseteq> history_keys d j"
  "claim_activities ids q d = Inr (acts, d') \<Longrightarrow> history_keys d' j \<subseteq> history_keys d j"
  "sql_reschedule_activity i at msg q d = Inr (n, d') \<Longrightarrow> history_keys d' j \<subseteq> history_keys d j"
  by (auto simp: history_keys_def new_activity_def claim_activities_ok sql_reschedule_activity_def elim!: sql_insert_activity_ok)

lemma stmt_task_refs:
  "sql_insert_workflow_task i wid at q d = Inr (n, d') \<Longrightarrow> task_refs d \<subseteq> task_refs d'"
  "fetch_tasks named lim q d = Inr (rows, d') \<Longrightarrow> task_refs d \<subseteq> task_refs d'"
  "sql_complete_workflow_task i q d = Inr (n, d') \<Longrightarrow> task_refs d \<subseteq> task_refs d'"
  "sql_reschedule_workflow_task i at q d = Inr (n, d') \<Longrightarrow> task_refs d \<subseteq> task_refs d'"
  "sql_fail_workflow_task i q d = Inr (n, d') \<Longrightarrow> task_refs d \<subseteq> task_refs d'"
  by (auto simp: fetch_tasks_ok claim_tasks_def sql_complete_workflow_task_def sql_reschedule_workflow_task_def
      sql_fail_workflow_task_def claim_task_def elim!: sql_insert_workflow_task_ok) (auto simp: task_refs_def)

lemmas quiet_task_refs = stmt_task_refs stmt_tasks [THEN task_refs_cong, THEN equalityD2]
  and quiet_history = stmt_same_activities stmt_activities [THEN history_keys_cong, THEN fun_cong, THEN equalityD1]

lemma stmt_woken:
  assumes "\<And>q d u d'. sql q d = Inr (u, d') \<Longrightarrow> task_refs d \<subseteq> task_refs d'"
    and "\<And>q d u d' i. sql q d = Inr (u, d') \<Longrightarrow> history_keys d' i \<subseteq> history_keys d i"
    and "\<And>q d u d'. sql q d = Inr (u, d') \<Longrightarrow> signals d' = signals d"
  shows "stmt_keeps woken sql"
  unfolding stmt_keeps_def using assms by (blast intro: woken_same)

lemma task_enqueued_gained:
  assumes "task_enqueued wid d d'"
  shows "gained_task wid d d'" "task_refs d \<subseteq> task_refs d'"
proof -
  from assms obtain x t where "find_workflow d wid = Some x" "pending_task_for x t" "t_id t \<notin> t_id ` set (tasks d)"
    "tasks d' = tasks d @ [t]"
    unfolding task_enqueued_def by blast
  then show "gained_task wid d d'" "task_refs d \<subseteq> task_refs d'"
    by (auto simp: gained_task_def task_refs_def pending_task_for_def dest: find_workflow_Some)
qed

text \<open>A changed activity is the one named; every other row is as it was.\<close>

lemma row_changed_activities:
  assumes v: "keys_ok d" "keys_ok d'" and o: "owned d i wid"
    and ch: "row_changed find_activity i P d d'" and b: "b \<in> set (activities d')"
  obtains (same) "b \<in> set (activities d)"
  | (changed) a where "a \<in> set (activities d)" "a_id a = i" "a_workflow_id a = wid" "P a b"
proof (cases "a_id b = i")
  case True
  from o obtain a where a: "a \<in> set (activities d)" "a_id a = i" "a_workflow_id a = wid" by (auto simp: owned_def)
  have "find_activity d i = Some a" "find_activity d' i = Some b"
    using find_activity_mem [OF v(1) a(1)] find_activity_mem [OF v(2) b] a(2) True by simp_all
  with ch have "P a b" by (simp add: row_changed_def)
  with a show ?thesis by (rule changed)
next
  case False
  then have "find_activity d (a_id b) = Some b"
    using ch find_activity_mem [OF v(2) b] by (simp add: row_changed_def)
  then show ?thesis by (intro same) (simp add: find_activity_Some)
qed

lemma activity_done_history:
  assumes "keys_ok d" "keys_ok d'" and "owned d i wid" and "activity_done i wid d d'" and "j \<noteq> wid"
  shows "history_keys d' j \<subseteq> history_keys d j"
proof
  fix k
  assume "k \<in> history_keys d' j"
  then obtain b where b: "b \<in> set (activities d')" "a_workflow_id b = j" "a_status b = ActivityCompleted" "a_idempotency_key b = k"
    by (auto simp: history_keys_def)
  from assms(4) have ch: "row_changed find_activity i
      (\<lambda>a b. a_id b = a_id a \<and> a_workflow_id b = a_workflow_id a \<and> a_status b = ActivityCompleted) d d'"
    by (simp add: activity_done_def)
  from assms(1-3) ch b(1) show "k \<in> history_keys d j"
  proof (cases rule: row_changed_activities)
    case same
    with b show ?thesis by (auto simp: history_keys_def)
  next
    case changed
    with b assms(5) show ?thesis by simp
  qed
qed

lemma activity_done_woken:
  assumes "valid_db d" "valid_db d'" and "owned d i wid" and "activity_done i wid d d'"
  shows "woken d d'"
proof -
  have "task_enqueued wid d d'" "signals d' = signals d" using assms(4) by (simp_all add: activity_done_def)
  with activity_done_history [OF valid_dbD(1) [OF assms(1)] valid_dbD(1) [OF assms(2)] assms(3,4)] show ?thesis
    unfolding woken_def by (metis task_enqueued_gained signal_keys_cong order_refl)
qed

lemma signal_added_woken:
  assumes "signal_added wid d d'"
  shows "woken d d'"
proof -
  from assms obtain x where x: "s_workflow_id x = wid" "signals d' = signals d @ [x]"
    and t: "task_enqueued wid d d'" and a: "activities d' = activities d"
    by (auto simp: signal_added_def)
  have "signal_keys d' j = signal_keys d j" if "j \<noteq> wid" for j
    using x that by (auto simp: signal_keys_def)
  then have "history_keys d' j \<subseteq> history_keys d j \<and> signal_keys d' j \<subseteq> signal_keys d j \<or> gained_task j d d'" for j
    using task_enqueued_gained(1) [OF t] by (cases "j = wid") (simp_all add: history_keys_cong [OF a])
  with task_enqueued_gained(2) [OF t] show ?thesis by (simp add: woken_def)
qed

lemma activity_failed_woken:
  assumes "valid_db d" "valid_db d'" and "owned d i wid" and f: "activity_failed i wid msg d d'"
  shows "woken d d'"
proof (rule woken_same)
  from f have "tasks d' = tasks d" and sigs: "signals d' = signals d"
    unfolding activity_failed_def by blast+
  then show "task_refs d \<subseteq> task_refs d'" "signals d' = signals d" by (simp_all only: task_refs_def order_refl)
  fix j
  show "history_keys d' j \<subseteq> history_keys d j"
  proof
    fix k
    assume "k \<in> history_keys d' j"
    then obtain b where b: "b \<in> set (activities d')" "a_workflow_id b = j" "a_status b = ActivityCompleted" "a_idempotency_key b = k"
      by (auto simp: history_keys_def)
    from f have ch: "row_changed find_activity i (\<lambda>a b. a_status b = ActivityFailed) d d'"
      unfolding activity_failed_def
    proof (elim conjE row_changed_mono)
      fix a b :: activity_row
      assume "\<exists>now. b = a\<lparr>a_status := ActivityFailed, a_error_message := Some msg, a_completed_at := Some now,
          a_updated_at := a_updated_at b\<rparr>"
      then show "a_status b = ActivityFailed" by (cases a; cases b) simp
    qed
    from valid_dbD(1) [OF assms(1)] valid_dbD(1) [OF assms(2)] assms(3) ch b(1) show "k \<in> history_keys d j"
    proof (cases rule: row_changed_activities)
      case same
      with b show ?thesis by (auto simp: history_keys_def)
    qed (use b in simp)
  qed
qed

interpretation wakes: pg_progress woken
  by unfold_locales
    (rule woken_trans activity_done_woken activity_failed_woken signal_added_woken; assumption
     | rule stmt_woken; (erule quiet_task_refs quiet_history stmt_signals)
     | simp add: woken_def)+

section \<open>Failures end the workflow\<close>

definition failed_refs :: "db \<Rightarrow> (uuid \<times> uuid) set" where
  "failed_refs d = (\<lambda>a. (a_id a, a_workflow_id a)) ` {a \<in> set (activities d). a_status a = ActivityFailed}"

lemma failures_end_refs:
  "workflows_kept d d' \<Longrightarrow> failed_refs d' \<subseteq> failed_refs d \<Longrightarrow> failures_end d d'"
  by (fastforce simp: failures_end_def failed_refs_def)

lemma stmt_failures:
  assumes "stmt_keeps workflows_kept sql" and "\<And>q d u d'. sql q d = Inr (u, d') \<Longrightarrow> failed_refs d' \<subseteq> failed_refs d"
  shows "stmt_keeps failures_end sql"
  using assms unfolding stmt_keeps_def by (blast intro: failures_end_refs)

lemma failed_refs_cong: "activities d' = activities d \<Longrightarrow> failed_refs d' = failed_refs d"
  by (simp add: failed_refs_def)

lemma stmt_failed_refs:
  "sql_insert_activity i k wid nm inp p maxa ms at q d = Inr (n, d') \<Longrightarrow> failed_refs d' \<subseteq> failed_refs d"
  "claim_activities ids q d = Inr (acts, d') \<Longrightarrow> failed_refs d' \<subseteq> failed_refs d"
  "sql_reschedule_activity i at msg q d = Inr (n, d') \<Longrightarrow> failed_refs d' \<subseteq> failed_refs d"
  by (auto simp: failed_refs_def new_activity_def claim_activities_ok sql_reschedule_activity_def elim!: sql_insert_activity_ok)

lemmas quiet_failures = stmt_failed_refs stmt_activities [THEN failed_refs_cong, THEN equalityD1]

lemma no_new_failure:
  assumes "row_changed find_activity i (\<lambda>a b. a_status b = ActivityCompleted) d d'"
    and "keys_ok d" "keys_ok d'" "owned d i wid"
  shows "failed_refs d' \<subseteq> failed_refs d"
proof -
  have "b \<in> set (activities d)" if b: "b \<in> set (activities d')" "a_status b = ActivityFailed" for b
    using assms(2-4,1) b(1)
  proof (cases rule: row_changed_activities)
    case changed
    with b show ?thesis by simp
  qed
  then show ?thesis by (auto simp: failed_refs_def)
qed

lemma workflow_failed_kept:
  assumes v: "keys_ok d" and f: "workflow_failed wid msg d d'"
  shows "workflows_kept d d'" "ended d' wid"
proof -
  from f have ch: "row_changed find_workflow wid (\<lambda>a b. workflow_kept a b \<and> w_status b = WorkflowFailed) d d'"
    unfolding workflow_failed_def
  proof (rule row_changed_mono)
    fix a b :: workflow_row
    assume "\<exists>now. b = a\<lparr>w_status := WorkflowFailed, w_error_message := Some msg, w_completed_at := Some now,
        w_updated_at := w_updated_at b\<rparr>"
    then show "workflow_kept a b \<and> w_status b = WorkflowFailed" by (cases a; cases b) (simp add: workflow_kept_def)
  qed
  then show "ended d' wid"
    by (auto simp: row_changed_def ended_def dest!: find_workflow_Some)
  show "workflows_kept d d'"
    unfolding workflows_kept_def
  proof
    fix x
    assume x: "x \<in> set (workflows d)"
    then have l: "find_workflow d (w_id x) = Some x" by (rule find_workflow_mem [OF v])
    show "\<exists>y \<in> set (workflows d'). workflow_kept x y"
    proof (cases "w_id x = wid")
      case True
      with ch l obtain b where "find_workflow d' wid = Some b" "workflow_kept x b" by (auto simp: row_changed_def)
      then show ?thesis by (blast dest: find_workflow_Some)
    next
      case False
      with ch l have "find_workflow d' (w_id x) = Some x" by (simp add: row_changed_def)
      then show ?thesis using workflow_kept_refl by (blast dest: find_workflow_Some)
    qed
  qed
qed

lemma activity_failed_ends:
  assumes v: "valid_db d" "valid_db d'" and o: "owned d i wid" and f: "activity_failed i wid msg d d'"
  shows "failures_end d d'"
proof -
  from f have wf: "workflow_failed wid msg d d'" by (simp add: activity_failed_def)
  from f have ch: "row_changed find_activity i (\<lambda>a b. a_workflow_id b = a_workflow_id a) d d'"
    unfolding activity_failed_def
  proof (elim conjE row_changed_mono)
    fix a b :: activity_row
    assume "\<exists>now. b = a\<lparr>a_status := ActivityFailed, a_error_message := Some msg, a_completed_at := Some now,
        a_updated_at := a_updated_at b\<rparr>"
    then show "a_workflow_id b = a_workflow_id a" by (cases a; cases b) simp
  qed
  note kept = workflow_failed_kept [OF valid_dbD(1) [OF v(1)] wf]
  have "b \<in> set (activities d) \<or> ended d' (a_workflow_id b)" if b: "b \<in> set (activities d')" for b
    using valid_dbD(1) [OF v(1)] valid_dbD(1) [OF v(2)] o ch b
  proof (cases rule: row_changed_activities)
    case changed
    with kept(2) show ?thesis by simp
  qed simp
  with kept(1) show ?thesis unfolding failures_end_def by blast
qed

interpretation ends: pg_progress failures_end
proof unfold_locales
  fix d d' i wid
  assume "valid_db d" "valid_db d'" "owned d i wid" and a: "activity_done i wid d d'"
  moreover have "row_changed find_activity i (\<lambda>a b. a_status b = ActivityCompleted) d d'"
    using a unfolding activity_done_def by (elim conjE row_changed_mono) simp
  ultimately have "failed_refs d' \<subseteq> failed_refs d" by (intro no_new_failure) (simp_all add: valid_dbD)
  moreover have "workflows_kept d d'" using a by (simp add: activity_done_def workflows_kept_superset)
  ultimately show "failures_end d d'" by (rule failures_end_refs [rotated])
next
  fix d d' wid
  assume "signal_added wid d d'"
  then show "failures_end d d'"
    by (intro failures_end_refs) (auto simp: signal_added_def workflows_kept_superset failed_refs_def)
next
  fix d1 d2 d3
  assume "failures_end d1 d2" "failures_end d2 d3"
  then show "failures_end d1 d3" by (rule failures_end_trans)
next
  fix d
  show "failures_end d d" by (intro failures_end_refs) (simp_all add: flows.R_refl)
qed (rule activity_failed_ends; assumption | rule stmt_failures, rule flows.quiet_stmts flows.insert_activity flows.claim_activities; (assumption | erule quiet_failures))+

end
