(* ===== verification/Retry_Properties.thy ===== *)
theory Retry_Properties
  imports Fetch_Properties Row_Invariant Wakeups
begin

text \<open>
  Retries end. The attempts that a fetch counts, the policy of the workers and the queries together bound how
  often the handler of an activity, and the handler of a workflow for one of its tasks, runs and fails: at
  most as often as the maximum of its attempts, and the last failure ends the workflow.
\<close>

section \<open>Rows and time\<close>




section \<open>Counting attempts\<close>



section \<open>Activities\<close>

















section \<open>Workflow tasks\<close>



















end
