(* ===== verification/Wakeup_Properties.thy ===== *)
theory Wakeup_Properties
  imports Wakeups Engine_Properties Lifecycle_Properties
begin

text \<open>
  A suspended workflow is resumed: what a later run can see beyond an earlier one comes with
  a task of its own, and an activity that a run waits for is still to be done, or has
  produced such a task, or has ended the workflow. The exception is an activity of
  another workflow with the same key.
\<close>

lemma ListHistory_keys:
  assumes "keys_ok (store w)" and "ListHistoryEventsForWorkflow env s i w = (Inr h, w')"
  shows "dom h = history_keys (store w) i"
  using ListHistory_lookup(1) [OF assms] by (fastforce simp: history_keys_def)

lemma ListWorkflowSignals_keys:
  assumes "keys_ok (store w)" and "ListWorkflowSignals env s i w = (Inr g, w')"
  shows "dom g = signal_keys (store w) i"
  using ListWorkflowSignals_lookup(1) [OF assms] by (fastforce simp: signal_keys_def)

text \<open>
  C7: no lost wake-up. When a run of a workflow finds an event in its history, or a
  signal, that an earlier load did not find, then between the two loads a task of that
  workflow was added.
\<close>

theorem new_input_has_task:
  assumes "begin_func_law env" and "valid_db (store w)" and "sound_steps env s w w'"
  shows "(\<forall>h h' w1 w2 k. ListHistoryEventsForWorkflow env s i w = (Inr h, w1) \<longrightarrow>
       ListHistoryEventsForWorkflow env s i w' = (Inr h', w2) \<longrightarrow> h k = None \<longrightarrow> h' k \<noteq> None \<longrightarrow>
       gained_task i (store w) (store w')) \<and>
    (\<forall>g g' w1 w2 k. ListWorkflowSignals env s i w = (Inr g, w1) \<longrightarrow>
       ListWorkflowSignals env s i w' = (Inr g', w2) \<longrightarrow> g k = None \<longrightarrow> g' k \<noteq> None \<longrightarrow>
       gained_task i (store w) (store w'))"
proof -
  have keys: "keys_ok (store w)" "keys_ok (store w')"
    using assms(2) sound_steps_valid [OF assms(3,1,2)] by (simp_all add: valid_dbD)
  have "woken (store w) (store w')" by (rule wakes.sound_steps_keep [OF assms(3,1,2)])
  then have woken: "history_keys (store w') i \<subseteq> history_keys (store w) i \<and> signal_keys (store w') i \<subseteq> signal_keys (store w) i \<or>
      gained_task i (store w) (store w')"
    by (simp add: woken_def)
  show ?thesis
  proof (intro conjI allI impI)
    fix h h' w1 w2 k
    assume "ListHistoryEventsForWorkflow env s i w = (Inr h, w1)" "ListHistoryEventsForWorkflow env s i w' = (Inr h', w2)"
      "h k = None" "h' k \<noteq> None"
    then have "k \<notin> history_keys (store w) i" "k \<in> history_keys (store w') i"
      by (simp_all add: ListHistory_keys [OF keys(1), symmetric] ListHistory_keys [OF keys(2), symmetric] domIff)
    with woken show "gained_task i (store w) (store w')" by blast
  next
    fix g g' w1 w2 k
    assume "ListWorkflowSignals env s i w = (Inr g, w1)" "ListWorkflowSignals env s i w' = (Inr g', w2)"
      "g k = None" "g' k \<noteq> None"
    then have "k \<notin> signal_keys (store w) i" "k \<in> signal_keys (store w') i"
      by (simp_all add: ListWorkflowSignals_keys [OF keys(1), symmetric] ListWorkflowSignals_keys [OF keys(2), symmetric] domIff)
    with woken show "gained_task i (store w) (store w')" by blast
  qed
qed

lemma ref_done_step: "sound_steps ref_env ref_pg ref_world ref_done_world"
  unfolding sound_steps_def
proof (rule r_into_rtranclp, rule sound_step.complete_activity [OF _ ref_world_fresh ref_done_run])
  show "owned (store ref_world) 3 1"
    using find_activity_Some [OF ref_find_activity] by (auto simp: owned_def)
qed

lemma ref_before_run:
  "ListHistoryEventsForWorkflow ref_env ref_pg 1 ref_world = (Inr Map.empty, ref_world\<lparr>ticks := Suc (ticks ref_world)\<rparr>)"
  by (simp add: ListHistoryEventsForWorkflow_def bindE_def wrapE_def exec_def sql_list_history_def Let_def
      ref_world_def ref_db_def ref_activity_def new_activity_def)

lemma ref_done_known: "ref_history 31 \<noteq> None"
proof -
  have "\<exists>a \<in> set (activities (store ref_done_world)). a_workflow_id a = 1 \<and> a_status a = ActivityCompleted \<and> a_idempotency_key a = 31"
    unfolding ref_done_world_def by code_simp
  then show ?thesis using ListHistory_lookup(1) [OF ref_done_keys ref_history_run] by auto
qed

lemma new_input_has_task_witness: "gained_task 1 (store ref_world) (store ref_done_world)"
  using new_input_has_task [OF ref_begin_func_law ref_world_valid ref_done_step, of 1] ref_before_run ref_history_run
    ref_done_known
  by blast

section \<open>What a suspended call waits for\<close>
















section \<open>An activity of another workflow\<close>

lemma activity_keys_kept:
  assumes "activities_kept d d'" and "k \<in> a_idempotency_key ` set (activities d)"
  shows "k \<in> a_idempotency_key ` set (activities d')"
proof -
  from assms(2) obtain a where "a \<in> set (activities d)" "k = a_idempotency_key a" by blast
  with assms(1) obtain b where "b \<in> set (activities d')" "a_idempotency_key b = k"
    by (auto simp: activities_kept_def activity_kept_def)
  then show ?thesis by blast
qed

lemma foreign_key_unknown:
  assumes law: "begin_func_law env" and v: "valid_db (store w)" and a: "a \<in> set (activities (store w))"
    and other: "a_workflow_id a \<noteq> i" and steps: "engine_steps env s w w'"
    and load: "ListHistoryEventsForWorkflow env s i w' = (Inr h, w1)"
  shows "h (a_idempotency_key a) = None" "a_idempotency_key a \<in> a_idempotency_key ` set (activities (store w'))"
proof -
  have v': "keys_ok (store w')"
    using valid.engine_steps_keep [OF steps law] v by (simp add: valid_kept_def valid_dbD)
  obtain b where b: "b \<in> set (activities (store w'))" "a_idempotency_key b = a_idempotency_key a" "a_workflow_id b \<noteq> i"
    using acts.engine_steps_keep [OF steps law] a other by (auto simp: activities_kept_def activity_kept_def)
  have "c = b" if "c \<in> set (activities (store w'))" "a_idempotency_key c = a_idempotency_key a" for c
    using activity_by_key [OF v' that(1) b(1)] that(2) b(2) by simp
  with b(3) have "a_idempotency_key a \<notin> history_keys (store w') i" by (auto simp: history_keys_def)
  then show "h (a_idempotency_key a) = None"
    unfolding ListHistory_keys [OF v' load, symmetric] by (simp add: domIff)
  show "a_idempotency_key a \<in> a_idempotency_key ` set (activities (store w'))" using b by (metis imageI)
qed

lemma InsertActivity_known:
  assumes "InsertActivity env s name i key wid input o' w = (r, w')" and "key \<in> a_idempotency_key ` set (activities (store w))"
  shows "store w' = store w"
  using InsertActivity_effect(1) [OF assms(1)] assms(2) by (auto simp: activity_inserted_def)

lemma ExecuteActivity_pending_run:
  assumes "ctx_history ctx (activity_call_key env ctx act opts w) = None" and "ctx_storage ctx = postgres env s"
    and "InsertActivity env s (act_Name act) (env_new_v7 env (ticks w)) (activity_call_key env ctx act opts w)
      (ctx_workflowID ctx) input (activity_call_options env ctx act opts w) (w\<lparr>ticks := Suc (ticks w)\<rparr>) = (Inr (), w')"
  shows "ExecuteActivity env ctx act input opts w = (Inl ErrWorkflowSuspended, w')"
  using assms
  by (simp add: ExecuteActivity_def ExecuteActivityAsync_def activity_call_key_def activity_call_options_def bindE_def wrapE_def
      Let_def Get_def)

lemma InsertActivity_conflict:
  assumes "env_outcome env (ticks w) = Served" and "encode_nullable s ''encode input'' input = Inr inp"
    and "in_int4 (sint (ao_Priority ao))" "in_int4 (uint (ao_MaxAttempts ao))" and "key \<in> a_idempotency_key ` set (activities (store w))"
  shows "\<exists>w'. InsertActivity env s name i key wid input ao w = (Inr (), w')"
  using assms by (simp add: InsertActivity_def bindE_ok exec_ok sql_insert_activity_def)

text \<open>
  C38: keys are unique over all workflows, but a history is of one. A call whose key
  is that of another workflow's activity never returns a value, in no later run, and
  stores nothing. When the service answers its insert, and the input and the options can be stored, the insert
  meets the key and reports no error, so the call suspends the workflow, in every run: it waits for ever,
  even when the activity is completed.
\<close>

theorem foreign_key_never_answered:
  assumes law: "begin_func_law env" and v: "valid_db (store w)"
    and a: "a \<in> set (activities (store w))" "a_workflow_id a \<noteq> i"
    and steps: "engine_steps env s w w'" and load: "ListHistoryEventsForWorkflow env s i w' = (Inr h, w1)"
    and ctx: "ctx = NewWorkflowContext i (postgres env s) h g"
    and later: "engine_steps env s w1 w2" and key: "activity_call_key env ctx act opts w2 = a_idempotency_key a"
    and call: "ExecuteActivity env ctx act input opts w2 = (r, w3)"
  shows "(\<exists>e. r = Inl e) \<and> store w3 = store w2 \<and>
    (env_outcome env (Suc (ticks w2)) = Served \<and> (\<exists>inp. encode_nullable s ''encode input'' input = Inr inp) \<and>
     in_int4 (sint (ao_Priority (activity_call_options env ctx act opts w2))) \<and>
     in_int4 (uint (ao_MaxAttempts (activity_call_options env ctx act opts w2))) \<longrightarrow> r = Inl ErrWorkflowSuspended)"
proof -
  note unknown = foreign_key_unknown [OF law v a steps load]
  have ctx': "ctx_history ctx (activity_call_key env ctx act opts w2) = None" "ctx_storage ctx = postgres env s"
    using unknown(1) key ctx by (simp_all add: NewWorkflowContext_def)
  have same: "store w1 = store w'"
    using ListHistory_lookup(2) [OF _ load] valid.engine_steps_keep [OF steps law] v by (simp add: valid_kept_def valid_dbD)
  have used: "a_idempotency_key a \<in> a_idempotency_key ` set (activities (store w2))"
    using activity_keys_kept [OF acts.engine_steps_keep [OF later law]] unknown(2) same by simp
  moreover obtain j o' r1 where "InsertActivity env s (act_Name act) j (activity_call_key env ctx act opts w2)
      (ctx_workflowID ctx) input o' (w2\<lparr>ticks := Suc (ticks w2)\<rparr>) = (r1, w3)"
    using ctx' call by (rule ExecuteActivity_inserts)
  ultimately have "store w3 = store w2" using InsertActivity_known key by fastforce
  moreover have "r = Inl ErrWorkflowSuspended" if served: "env_outcome env (Suc (ticks w2)) = Served"
      and cols: "encode_nullable s ''encode input'' input = Inr inp"
      "in_int4 (sint (ao_Priority (activity_call_options env ctx act opts w2)))"
      "in_int4 (uint (ao_MaxAttempts (activity_call_options env ctx act opts w2)))" for inp
  proof -
    obtain w4 where "InsertActivity env s (act_Name act) (env_new_v7 env (ticks w2)) (activity_call_key env ctx act opts w2)
        (ctx_workflowID ctx) input (activity_call_options env ctx act opts w2) (w2\<lparr>ticks := Suc (ticks w2)\<rparr>) = (Inr (), w4)"
      using InsertActivity_conflict [where w = "w2\<lparr>ticks := Suc (ticks w2)\<rparr>", OF _ cols] served used key by fastforce
    from ExecuteActivity_pending_run [OF ctx' this] call show ?thesis by simp
  qed
  ultimately show ?thesis using ExecuteActivity_pending [OF ctx'(1) call] by blast
qed

lemma ref_other_load:
  "ListHistoryEventsForWorkflow ref_env ref_pg 2 ref_world = (Inr Map.empty, ref_world\<lparr>ticks := Suc (ticks ref_world)\<rparr>)"
  by (simp add: ListHistoryEventsForWorkflow_def bindE_def wrapE_def exec_def sql_list_history_def Let_def
      ref_world_def ref_db_def ref_activity_def new_activity_def)

definition ref_other_call :: "(error + string) \<times> db world" where
  "ref_other_call = ExecuteActivity ref_env (NewWorkflowContext 2 (postgres ref_env ref_pg) Map.empty Map.empty) ref_act None
     [WithActivityIdempotencyKey 31] (ref_world\<lparr>ticks := Suc (ticks ref_world)\<rparr>)"

lemma foreign_key_never_answered_witness: "fst ref_other_call = Inl ErrWorkflowSuspended"
proof -
  have "ref_activity 3 31 \<in> set (activities (store ref_world))" "a_workflow_id (ref_activity 3 31) \<noteq> 2"
    using find_activity_Some [OF ref_find_activity] by simp_all
  moreover have "engine_steps ref_env ref_pg w w" for w by (simp add: engine_steps_def)
  moreover have "ExecuteActivity ref_env (NewWorkflowContext 2 (postgres ref_env ref_pg) Map.empty Map.empty) ref_act None
      [WithActivityIdempotencyKey 31] (ref_world\<lparr>ticks := Suc (ticks ref_world)\<rparr>) = (fst ref_other_call, snd ref_other_call)"
    by (simp add: ref_other_call_def)
  moreover have "activity_call_key ref_env ctx ref_act [WithActivityIdempotencyKey 31] w = a_idempotency_key (ref_activity 3 31)" for ctx w
    by (simp add: ref_call_key)
  moreover have "in_int4 (sint (ao_Priority (activity_call_options ref_env ctx ref_act [WithActivityIdempotencyKey 31] w)))"
    "in_int4 (uint (ao_MaxAttempts (activity_call_options ref_env ctx ref_act [WithActivityIdempotencyKey 31] w)))"
    "encode_nullable ref_pg ''encode input'' None = Inr None" for ctx w
    by (simp_all add: activity_call_options_def WithActivityIdempotencyKey_def ao_Priority_def ao_MaxAttempts_def in_int4_def
        min_int4_def max_int4_def encode_nullable_def)
  ultimately show ?thesis
    using foreign_key_never_answered [OF ref_begin_func_law ref_world_valid _ _ _ ref_other_load refl] ref_env_simps(1) by blast
qed

end
