(* ===== verification/Durable.thy ===== *)
theory Durable
  imports Row_Invariant
begin

text \<open>
  Durable execution. A workflow handler is replayed from its start whenever its workflow has a task;
  this theory says what that amounts to for any handler that acts through the workflow context only.
  Such a handler is a script, which asks for an activity or a signal and goes on with the answer.
  Its direct execution, the reference, asks for each result once and gets it at once.
\<close>

section \<open>Scripts\<close>

text \<open>
  A handler ends with a result, reads the clock, executes an activity or receives a signal. The error
  of a call it returns, wrapped.
\<close>

datatype 'v script =
    Finish "error + unit"
  | Clock "instant \<Rightarrow> 'v script"
  | Call activity 'v "activity_option list" "error \<Rightarrow> error" "'v \<Rightarrow> 'v script"
  | Await signal "signal_option list" "error \<Rightarrow> error" "'v \<Rightarrow> 'v script"

primrec perform :: "'v script \<Rightarrow> ('d, 'v) env \<Rightarrow> ('d, 'v) workflow_context \<Rightarrow> ('d, unit) io" where
  "perform (Finish r) env ctx = liftE r"
| "perform (Clock k) env ctx = bindE (time_Now env) (\<lambda>t. perform (k t) env ctx)"
| "perform (Call act v opts wrap k) env ctx =
     tryE (ExecuteActivity env ctx act (Some v) opts) (\<lambda>e. throw (wrap e)) (\<lambda>out. perform (k out) env ctx)"
| "perform (Await sig opts wrap k) env ctx =
     tryE (ReceiveSignal env ctx sig opts) (\<lambda>e. throw (wrap e)) (\<lambda>out. perform (k out) env ctx)"

text \<open>The key of a call, of options that change it the same way whatever the other options are.\<close>

definition activity_key :: "('d, 'v) env \<Rightarrow> uuid \<Rightarrow> activity \<Rightarrow> activity_option list \<Rightarrow> uuid" where
  "activity_key env i act opts = ao_idempotencyKey (apply_opts opts
     \<lparr>ao_idempotencyKey = activity_IdempotencyKey env act i, ao_priority = 0, ao_maxAttempts = 1,
      ao_stuckTimeout = Minute * 5, ao_scheduledAt = 0\<rparr>)"

definition signal_key :: "('d, 'v) env \<Rightarrow> uuid \<Rightarrow> signal \<Rightarrow> signal_option list \<Rightarrow> uuid" where
  "signal_key env i sig opts = so_idempotencyKey (apply_opts opts (defaultSignalOptionsFor (signal_IdempotencyKey env sig i)))"

definition stable_key :: "activity_option list \<Rightarrow> bool" where
  "stable_key opts \<longleftrightarrow> (\<forall>o1 o2. ao_idempotencyKey o1 = ao_idempotencyKey o2 \<longrightarrow>
     ao_idempotencyKey (apply_opts opts o1) = ao_idempotencyKey (apply_opts opts o2))"

lemma stable_key_call:
  "stable_key opts \<Longrightarrow> ao_idempotencyKey o' = activity_IdempotencyKey env act i \<Longrightarrow>
     ao_idempotencyKey (apply_opts opts o') = activity_key env i act opts"
  unfolding activity_key_def stable_key_def by (metis activity_options.select_convs(1))

lemma activity_call_key_eq:
  "stable_key opts \<Longrightarrow> activity_call_key env (NewWorkflowContext i st h g) act opts w = activity_key env i act opts"
  unfolding activity_call_key_def by (rule stable_key_call) (simp_all add: NewWorkflowContext_def)

section \<open>The direct execution\<close>

text \<open>
  The calls of a script, with the key, the name and the input of an activity, and its result, when the
  activities and signals answer with \<open>out\<close> and \<open>sg\<close>, as they are stored.
\<close>

datatype 'v step = Activity_Step uuid string 'v | Signal_Step uuid

definition answer :: "'v decoder \<Rightarrow> gotype \<Rightarrow> (uuid \<Rightarrow> bytes option) \<Rightarrow> uuid \<Rightarrow> error + 'v" where
  "answer dec t out k = Get \<lparr>fut_event = Some (NewEvent k (out k) dec), fut_out = t\<rparr>"

definition asks :: "'v step \<Rightarrow> (error \<Rightarrow> error) \<Rightarrow> error + 'v \<Rightarrow> ('v \<Rightarrow> 'v step list \<times> (error + unit)) \<Rightarrow>
    'v step list \<times> (error + unit)" where
  "asks c wrap r k = (case r of Inl e \<Rightarrow> ([c], Inl (wrap e)) | Inr v \<Rightarrow> (c # fst (k v), snd (k v)))"

primrec direct :: "'v script \<Rightarrow> ('d, 'v) env \<Rightarrow> uuid \<Rightarrow> 'v decoder \<Rightarrow> (uuid \<Rightarrow> bytes option) \<Rightarrow> (uuid \<Rightarrow> bytes option) \<Rightarrow>
    'v step list \<times> (error + unit)" where
  "direct (Finish r) env i dec out sg = ([], r)"
| "direct (Clock k) env i dec out sg = direct (k 0) env i dec out sg"
| "direct (Call act v opts wrap k) env i dec out sg =
     (let key = activity_key env i act opts
      in asks (Activity_Step key (act_Name act) v) wrap (answer dec (act_Out act) out key)
           (\<lambda>x. direct (k x) env i dec out sg))"
| "direct (Await sig opts wrap k) env i dec out sg =
     (let key = signal_key env i sig opts
      in asks (Signal_Step key) wrap (answer dec (sig_In sig) sg key) (\<lambda>x. direct (k x) env i dec out sg))"

text \<open>
  What the engine asks of a handler: options leave the keys alone, the error of a call is returned so
  that a suspension is still seen, and what is read from the clock goes into options only.
\<close>

primrec settled :: "'v script \<Rightarrow> ('d, 'v) env \<Rightarrow> uuid \<Rightarrow> 'v decoder \<Rightarrow> bool" where
  "settled (Finish r) env i dec \<longleftrightarrow> True"
| "settled (Clock k) env i dec \<longleftrightarrow> (\<forall>t. settled (k t) env i dec) \<and>
     (\<forall>t out sg. direct (k t) env i dec out sg = direct (k 0) env i dec out sg)"
| "settled (Call act v opts wrap k) env i dec \<longleftrightarrow> stable_key opts \<and>
     (\<forall>e. errors_Is_suspended (wrap e) = errors_Is_suspended e) \<and> (\<forall>x. settled (k x) env i dec)"
| "settled (Await sig opts wrap k) env i dec \<longleftrightarrow>
     (\<forall>e. errors_Is_suspended (wrap e) = errors_Is_suspended e) \<and> (\<forall>x. settled (k x) env i dec)"

section \<open>A run follows the direct execution\<close>

fun known :: "'v events \<Rightarrow> 'v events \<Rightarrow> 'v step \<Rightarrow> bool" where
  "known h g (Activity_Step k name v) \<longleftrightarrow> h k \<noteq> None"
| "known h g (Signal_Step k) \<longleftrightarrow> g k \<noteq> None"

definition agree :: "'v decoder \<Rightarrow> (uuid \<Rightarrow> bytes option) \<Rightarrow> 'v events \<Rightarrow> bool" where
  "agree dec out h \<longleftrightarrow> (\<forall>k e. h k = Some e \<longrightarrow> e = NewEvent k (out k) dec)"

text \<open>What a run does at the first call that its events do not answer.\<close>

fun halts :: "('d, 'v) env \<Rightarrow> ('d, 'v) workflow_context \<Rightarrow> 'v step \<Rightarrow> 'd \<Rightarrow> (error + unit) \<Rightarrow> 'd world \<Rightarrow> bool" where
  "halts env ctx (Activity_Step k name v) d r w' \<longleftrightarrow> (\<exists>act opts w e f.
     act_Name act = name \<and> stable_key opts \<and> activity_key env (ctx_workflowID ctx) act opts = k \<and> store w = d \<and>
     ExecuteActivity env ctx act (Some v) opts w = (Inl e, w') \<and> r = Inl f \<and> errors_Is_suspended f = errors_Is_suspended e)"
| "halts env ctx (Signal_Step k) d r w' \<longleftrightarrow> store w' = d \<and> (\<exists>f. r = Inl f \<and> errors_Is_suspended f)"

definition follows :: "('d, 'v) env \<Rightarrow> ('d, 'v) workflow_context \<Rightarrow> 'v step list \<times> (error + unit) \<Rightarrow>
    'd \<Rightarrow> (error + unit) \<Rightarrow> 'd world \<Rightarrow> bool" where
  "follows env ctx p d r w' \<longleftrightarrow>
     (\<forall>c \<in> set (fst p). known (ctx_history ctx) (ctx_signals ctx) c) \<and> r = snd p \<and> store w' = d \<or>
     (\<exists>n < length (fst p). (\<forall>m < n. known (ctx_history ctx) (ctx_signals ctx) (fst p ! m)) \<and>
        \<not> known (ctx_history ctx) (ctx_signals ctx) (fst p ! n) \<and> halts env ctx (fst p ! n) d r w')"

lemma follows_unknown:
  assumes "\<not> known (ctx_history ctx) (ctx_signals ctx) c" and "halts env ctx c d r w'"
  shows "follows env ctx (asks c wrap x k) d r w'"
  using assms unfolding follows_def asks_def by (intro disjI2 exI [of _ 0]) (simp split: sum.split)

lemma follows_known:
  assumes c: "known (ctx_history ctx) (ctx_signals ctx) c"
    and "\<And>e. x = Inl e \<Longrightarrow> r = Inl (wrap e) \<and> store w' = d" and "\<And>v. x = Inr v \<Longrightarrow> follows env ctx (k v) d r w'"
  shows "follows env ctx (asks c wrap x k) d r w'"
proof (cases x)
  case (Inl e)
  with assms show ?thesis by (simp add: follows_def asks_def)
next
  case (Inr v)
  with assms(3) have "follows env ctx (k v) d r w'" by blast
  then show ?thesis
    unfolding follows_def [of _ _ "k v"]
  proof (elim disjE exE conjE)
    fix n
    assume "n < length (fst (k v))" "\<forall>m<n. known (ctx_history ctx) (ctx_signals ctx) (fst (k v) ! m)"
      "\<not> known (ctx_history ctx) (ctx_signals ctx) (fst (k v) ! n)" "halts env ctx (fst (k v) ! n) d r w'"
    with c show "follows env ctx (asks c wrap x k) d r w'"
      unfolding follows_def asks_def Inr by (intro disjI2 exI [of _ "Suc n"]) (auto simp: nth_Cons split: nat.split)
  qed (use c in \<open>simp add: follows_def asks_def Inr\<close>)
qed

lemma ReceiveSignal_key:
  "ReceiveSignal env (NewWorkflowContext i st h g) sig opts w =
     (case g (signal_key env i sig opts) of None \<Rightarrow> Inl ErrWorkflowSuspended
      | Some e \<Rightarrow> Get \<lparr>fut_event = Some e, fut_out = sig_In sig\<rparr>, w)"
  by (simp add: ReceiveSignal_def ReceiveSignalAsync_def signal_key_def NewWorkflowContext_def bindE_def Let_def Get_def
      split: option.split)

lemma perform_follows:
  assumes "settled s env i dec" and h: "agree dec out h" and g: "agree dec sg g"
    and "perform s env (NewWorkflowContext i st h g) w = (r, w')"
  shows "follows env (NewWorkflowContext i st h g) (direct s env i dec out sg) (store w) r w'"
  using assms(1,4)
proof (induction s arbitrary: w)
  case (Finish x)
  then show ?case by (simp add: follows_def)
next
  case (Clock k)
  let ?t = "env_go_now env (ticks w)"
  have "direct (k ?t) env i dec out sg = direct (k 0) env i dec out sg" "settled (k ?t) env i dec" using Clock.prems(1) by simp_all
  with Clock.IH [OF rangeI, of ?t] Clock.prems(2) show ?case by (auto simp: bindE_def)
next
  case (Call act v opts wrap k)
  let ?ctx = "NewWorkflowContext i st h g" and ?key = "activity_key env i act opts"
  have st: "stable_key opts" using Call.prems(1) by simp
  show ?case
  proof (cases "h ?key")
    case None
    then have "ctx_history ?ctx (activity_call_key env ?ctx act opts w) = None"
      by (simp add: activity_call_key_eq [OF st]) (simp add: NewWorkflowContext_def)
    with Call.prems(2) obtain e where "ExecuteActivity env ?ctx act (Some v) opts w = (Inl e, w')" "r = Inl (wrap e)"
      by (auto simp: tryE_def split: prod.splits sum.splits dest: ExecuteActivity_pending)
    with Call.prems(1) have "halts env ?ctx (Activity_Step ?key (act_Name act) v) (store w) r w'"
      by (auto simp: NewWorkflowContext_def)
    with None show ?thesis
      by (simp add: Let_def) (rule follows_unknown; simp add: NewWorkflowContext_def)
  next
    case (Some e)
    with h have e: "e = NewEvent ?key (out ?key) dec" by (simp add: agree_def)
    from Some have "ExecuteActivity env ?ctx act (Some v) opts w = (answer dec (act_Out act) out ?key, w)"
      unfolding answer_def e [symmetric]
      by (intro ExecuteActivity_history, simp add: activity_call_key_eq [OF st]) (simp add: NewWorkflowContext_def)
    with Call.prems Call.IH [OF rangeI] show ?thesis
      by (simp add: Let_def) (rule follows_known; use Some in \<open>auto simp: NewWorkflowContext_def tryE_def\<close>)
  qed
next
  case (Await sig opts wrap k)
  let ?ctx = "NewWorkflowContext i st h g" and ?key = "signal_key env i sig opts"
  show ?case
  proof (cases "g ?key")
    case None
    with Await.prems have "halts env ?ctx (Signal_Step ?key) (store w) r w'"
      by (auto simp: tryE_def ReceiveSignal_key)
    with None show ?thesis
      by (simp add: Let_def) (rule follows_unknown; simp add: NewWorkflowContext_def)
  next
    case (Some e)
    with g have e: "e = NewEvent ?key (sg ?key) dec" by (simp add: agree_def)
    with Some have "ReceiveSignal env ?ctx sig opts w = (answer dec (sig_In sig) sg ?key, w)"
      by (simp add: ReceiveSignal_key answer_def)
    with Await.prems Await.IH [OF rangeI] show ?thesis
      by (simp add: Let_def) (rule follows_known; use Some in \<open>auto simp: NewWorkflowContext_def tryE_def\<close>)
  qed
qed

end
