(* ===== verification/Durable_Course.thy ===== *)
theory Durable_Course
  imports Durable
begin

text \<open>
  Durable execution of one workflow, whose handler is a script, on a database that others use too: what
  is stored for it is a part of its direct execution. A run of the workflow keeps that, and so does
  a worker's handling of its task or of one of its activities.
\<close>

section \<open>What is stored of a course\<close>

text \<open>A workflow, its script, and what its activities and signals answer, by their keys.\<close>

record 'v course =
  cs_id :: uuid
  cs_script :: "'v script"
  cs_out :: "uuid \<Rightarrow> bytes option"
  cs_sig :: "uuid \<Rightarrow> bytes option"

definition course :: "(db, 'v) env \<Rightarrow> 'v pg_storage \<Rightarrow> 'v course \<Rightarrow> 'v step list \<times> (error + unit)" where
  "course env s c = direct (cs_script c) env (cs_id c) (pg_Decoder s) (cs_out c) (cs_sig c)"

definition signals_as :: "'v course \<Rightarrow> db \<Rightarrow> bool" where
  "signals_as c d \<longleftrightarrow> (\<forall>x \<in> set (signals d). s_workflow_id x = cs_id c \<longrightarrow> s_input x = cs_sig c (s_idempotency_key x))"

fun stored :: "uuid \<Rightarrow> db \<Rightarrow> 'v step \<Rightarrow> bool" where
  "stored i d (Activity_Step k name v) \<longleftrightarrow> (\<exists>a \<in> set (activities d). a_workflow_id a = i \<and> a_idempotency_key a = k)"
| "stored i d (Signal_Step k) \<longleftrightarrow> (\<exists>x \<in> set (signals d). s_workflow_id x = i \<and> s_idempotency_key x = k)"

text \<open>A stored activity is a call of the direct execution, all earlier calls of which are stored.\<close>

definition call_row :: "(db, 'v) env \<Rightarrow> 'v pg_storage \<Rightarrow> 'v course \<Rightarrow> db \<Rightarrow> activity_row \<Rightarrow> bool" where
  "call_row env s c d a \<longleftrightarrow> (\<exists>n < length (fst (course env s c)). \<exists>v.
     fst (course env s c) ! n = Activity_Step (a_idempotency_key a) (a_name a) v \<and>
     encode_nullable s ''encode input'' (Some v) = Inr (a_input a) \<and>
     (\<forall>m < n. stored (cs_id c) d (fst (course env s c) ! m)))"

definition course_row :: "(db, 'v) env \<Rightarrow> 'v pg_storage \<Rightarrow> 'v course \<Rightarrow> db \<Rightarrow> activity_row \<Rightarrow> bool" where
  "course_row env s c d a \<longleftrightarrow> a_workflow_id a = cs_id c \<and> signals_as c d \<longrightarrow>
     (a_status a = ActivityCompleted \<longrightarrow> a_output a = cs_out c (a_idempotency_key a)) \<and> call_row env s c d a"

lemma signals_as_before: "engine_kept d d' \<Longrightarrow> signals_as c d' \<Longrightarrow> signals_as c d"
  by (drule engine_keptD(2)) (auto simp: signals_as_def)

lemma stored_kept: "engine_kept d d' \<Longrightarrow> stored i d x \<Longrightarrow> stored i d' x"
proof (cases x)
  case (Activity_Step k name v)
  assume "engine_kept d d'" "stored i d x"
  with Activity_Step show ?thesis
    by (auto dest!: engine_keptD(3) simp: activities_kept_def activity_kept_def) fastforce
next
  case (Signal_Step k)
  assume "engine_kept d d'" "stored i d x"
  with Signal_Step show ?thesis by (auto dest: engine_keptD(2))
qed

lemma course_row_calm:
  assumes "course_row env s c d a" and calm: "calm a b" and kept: "engine_kept d d'"
  shows "course_row env s c d' b"
  using assms(1) calm signals_as_before [OF kept] stored_kept [OF kept]
  unfolding course_row_def call_row_def calm_def by metis

interpretation course: row_law "course_row env s c" for env :: "(db, 'v) env" and s :: "'v pg_storage" and c :: "'v course"
  by unfold_locales (rule course_row_calm)

section \<open>What a run knows\<close>

lemma loaded_history:
  assumes "valid_db (store u)" and ok: "rows_ok (course_row env s c) (store u)"
    and load: "ListHistoryEventsForWorkflow env s (cs_id c) u = (Inr h, u')"
  shows "signals_as c (store u) \<Longrightarrow> agree (pg_Decoder s) (cs_out c) h"
    and "h k \<noteq> None \<Longrightarrow> stored (cs_id c) (store u) (Activity_Step k name v)"
  using ok ListHistory_lookup(1) [OF valid_dbD(1) [OF assms(1)] load]
  by (auto simp: agree_def rows_ok_def course_row_def)

lemma loaded_signals:
  assumes "valid_db (store u)" and load: "ListWorkflowSignals env s (cs_id c) u = (Inr g, u')"
  shows "signals_as c (store u) \<Longrightarrow> agree (pg_Decoder s) (cs_sig c) g"
    and "g k \<noteq> None \<Longrightarrow> stored (cs_id c) (store u) (Signal_Step k)"
  using ListWorkflowSignals_lookup(1) [OF valid_dbD(1) [OF assms(1)] load]
  by (auto simp: agree_def signals_as_def)

lemma loaded_known:
  fixes x :: "'v step"
  assumes "\<And>k name (v :: 'v). h k \<noteq> None \<Longrightarrow> stored i d1 (Activity_Step k name v)" and "\<And>k. g k \<noteq> None \<Longrightarrow> stored i d2 (Signal_Step k :: 'v step)"
    and "known h g x"
  shows "stored i d1 x \<or> stored i d2 x"
  using assms by (cases x) (metis known.simps)+

text \<open>A script keeps what its calls keep.\<close>

context step_relation
begin

lemma keeps_perform:
  assumes "\<And>act v opts. keeps R (ExecuteActivity env ctx act (Some v) opts)"
  shows "keeps R (perform s env ctx)"
proof (induction s)
  case (Finish r)
  show ?case unfolding perform.simps by (rule keeps_liftE)
next
  case (Clock k)
  then show ?case unfolding perform.simps by (intro keeps_bindE keeps_time_Now) blast
next
  case (Call act v opts wrap k)
  then show ?case unfolding perform.simps by (intro keeps_tryE assms keeps_throw) blast
next
  case (Await sig opts wrap k)
  then show ?case unfolding perform.simps by (intro keeps_tryE keeps_ReceiveSignal keeps_throw) blast
qed

end

section \<open>A run on loaded events\<close>

text \<open>
  The part of a run after its loads, with the history of \<open>u\<close> and the signals of \<open>v\<close>. What it knows
  is what was stored then.
\<close>

definition since :: "db \<Rightarrow> db \<Rightarrow> db \<Rightarrow> bool" where
  "since d1 d2 d \<longleftrightarrow> engine_kept d1 d \<and> engine_kept d2 d"

lemma since_kept: "engine_kept d d' \<Longrightarrow> since d1 d2 d \<Longrightarrow> since d1 d2 d'"
  unfolding since_def using kept.R_trans by blast

lemma handler_keeps:
  assumes settled: "settled (cs_script c) env (cs_id c) (pg_Decoder s)" and others: "interferes (rows_kept (course_row env s c)) others"
    and u: "valid_db (store u)" "rows_ok (course_row env s c) (store u)" "ListHistoryEventsForWorkflow env s (cs_id c) u = (Inr h, u')"
    and v: "valid_db (store v)" "ListWorkflowSignals env s (cs_id c) v = (Inr g, v')"
    and run: "perform (cs_script c) env (NewWorkflowContext (cs_id c) (interleaved others (postgres env s)) h g) w = (r, w')"
  shows "under (course_row env s c) (since (store u) (store v)) (store w) (store w')"
proof (cases "signals_as c (store u) \<and> signals_as c (store v)")
  case False
  let ?ctx = "NewWorkflowContext (cs_id c) (interleaved others (postgres env s)) h g"
  show ?thesis
    using run
  proof (rule keepsD [rotated], intro course.steer.keeps_perform course.keeps_call [OF others])
    fix k j now b p maxa ms at d and act :: activity
    assume "since (store u) (store v) d"
    then have "\<not> signals_as c d" using False signals_as_before unfolding since_def by blast
    then show "course_row env s c d (new_activity now j k (cs_id c) (act_Name act) b p maxa ms at)"
      by (simp add: course_row_def new_activity_def)
  qed
next
  case True
  let ?ctx = "NewWorkflowContext (cs_id c) (interleaved others (postgres env s)) h g"
  have "follows env ?ctx (course env s c) (store w) r w'"
    unfolding course_def using settled loaded_history(1) [OF u True [THEN conjunct1]]
      loaded_signals(1) [OF v True [THEN conjunct2]] run by (rule perform_follows)
  then show ?thesis
    unfolding follows_def
  proof (elim disjE exE conjE)
    fix n
    assume n: "n < length (fst (course env s c))" "\<forall>m<n. known (ctx_history ?ctx) (ctx_signals ?ctx) (fst (course env s c) ! m)"
      and halts: "halts env ?ctx (fst (course env s c) ! n) (store w) r w'"
    show ?thesis
    proof (cases "fst (course env s c) ! n")
      case (Signal_Step k)
      with halts show ?thesis by (simp add: under_refl)
    next
      case (Activity_Step k name x)
      with halts obtain act opts w1 e where call: "act_Name act = name" "stable_key opts"
        "activity_key env (cs_id c) act opts = k" "store w1 = store w" "ExecuteActivity env ?ctx act (Some x) opts w1 = (Inl e, w')"
        by (auto simp: NewWorkflowContext_def)
      have "keeps (under (course_row env s c) (since (store u) (store v))) (ExecuteActivity env ?ctx act (Some x) opts)"
      proof (rule course.keeps_call [OF others])
        fix o' k' j now b p maxa ms at d
        assume "ao_idempotencyKey o' = activity_IdempotencyKey env act (cs_id c)" "k' = ao_idempotencyKey (apply_opts opts o')"
        then have k': "k' = k" using stable_key_call [OF call(2), of o' env act "cs_id c"] call(3) by simp
        assume d: "since (store u) (store v) d" and b: "encode_nullable s ''encode input'' (Some x) = Inr b"
        have "stored (cs_id c) d (fst (course env s c) ! m)" if "m < n" for m
        proof -
          have "known h g (fst (course env s c) ! m)" using n(2) that by (simp add: NewWorkflowContext_def)
          with loaded_history(2) [OF u] loaded_signals(2) [OF v] have "stored (cs_id c) (store u) (fst (course env s c) ! m) \<or> stored (cs_id c) (store v) (fst (course env s c) ! m)"
            by (rule loaded_known)
          with d stored_kept show ?thesis by (auto simp: since_def)
        qed
        with n(1) b show "course_row env s c d (new_activity now j k' (cs_id c) (act_Name act) b p maxa ms at)"
          unfolding k' by (auto simp: course_row_def call_row_def new_activity_def Activity_Step call(1) intro!: exI [of _ n])
      qed
      from keepsD [OF this call(5)] show ?thesis by (simp add: call(4))
    qed
  qed (simp add: under_refl)
qed

text \<open>A run keeps the invariant, whatever becomes of it.\<close>

lemma run_keeps:
  assumes wait: "wait_group_law env" and settled: "settled (cs_script c) env (cs_id c) (pg_Decoder s)"
    and law: "begin_func_law env" and others: "interferes (rows_kept (course_row env s c)) others"
  shows "keeps (rows_kept (course_row env s c)) (runWorkflow env (interleaved others (postgres env s)) (cs_id c) input
    (\<lambda>ctx _. perform (cs_script c) env ctx))"
  unfolding keeps_def
proof
  fix w
  let ?row = "course_row env s c" and ?st = "interleaved others (postgres env s)"
  let ?run = "runWorkflow env ?st (cs_id c) input (\<lambda>ctx _. perform (cs_script c) env ctx)"
  obtain r w' where run: "?run w = (r, w')" by fastforce
  have e: "pg_lawful engine_kept (others, env, s)"
    using law interferes_mono [OF others, of engine_kept] rows_kept_engine by simp
  have "keeps engine_kept (runWorkflow env (pg_mk (others, env, s)) (cs_id c) input (\<lambda>ctx _. perform (cs_script c) env ctx))"
    by (intro kept.pgst.keeps_runWorkflow [OF e wait] kept.keeps_perform kept.pgst.keeps_ExecuteActivity [OF e])
  then have kept: "engine_kept (store w) (store w')" using keepsD run by simp
  have "rows_ok ?row (store w')" if valid: "valid_db (store w)" and ok: "rows_ok ?row (store w)"
  proof -
    have know: "valid_db d \<and> rows_ok ?row d" if "rows_kept ?row (store w) d" for d
      using that valid ok engine_keptD(1) by (auto simp: rows_kept_def)
    have frame: "pg_frame (rows_kept ?row)" unfolding rows_kept_eq by (rule course.steer.pg_frame_axioms)
    from frame wait others run show ?thesis
    proof (cases rule: pg_frame.runWorkflow_split [consumes 4, case_names unloaded loaded])
      case unloaded
      then show ?thesis using know by blast
    next
      case (loaded h g u u' v v' w1 r2 w2)
      have "under ?row (since (store u) (store v)) (store w1) (store w2)"
        using settled others know [OF loaded(1)] loaded(3) know [OF loaded(4)] loaded(6,8)
        by (intro handler_keeps) simp_all
      then have "rows_kept ?row (store w1) (store w2)"
        by (rule under_rows_kept) (erule (1) since_kept, simp add: since_def rows_kept_engine [OF loaded(2)] rows_kept_engine [OF loaded(5)])
      then have "rows_kept ?row (store w) (store w')"
        using loaded(7,9) rows_kept_trans by blast
      then show ?thesis using know by blast
    qed
  qed
  with kept run show "rows_kept ?row (store w) (store (snd (?run w)))" by (simp add: rows_kept_def)
qed

text \<open>
  The completion of an activity keeps it when the activity answers as the course says: a call of
  the course, under its key, by its name and on its input.
\<close>

definition is_call :: "(db, 'v) env \<Rightarrow> 'v pg_storage \<Rightarrow> 'v course \<Rightarrow> uuid \<Rightarrow> string \<Rightarrow> bytes option \<Rightarrow> bool" where
  "is_call env s c k name b \<longleftrightarrow>
     (\<exists>v. Activity_Step k name v \<in> set (fst (course env s c)) \<and> encode_nullable s ''encode input'' (Some v) = Inr b)"

lemma call_row_is_call: "call_row env s c d a \<Longrightarrow> is_call env s c (a_idempotency_key a) (a_name a) (a_input a)"
  unfolding call_row_def is_call_def by (metis nth_mem)

definition answers_as :: "(db, 'v) env \<Rightarrow> 'v pg_storage \<Rightarrow> 'v course \<Rightarrow> uuid \<Rightarrow> bytes option \<Rightarrow> db \<Rightarrow> bool" where
  "answers_as env s c i out d \<longleftrightarrow> (\<exists>a \<in> set (activities d). a_id a = i \<and>
     (a_workflow_id a = cs_id c \<and> is_call env s c (a_idempotency_key a) (a_name a) (a_input a) \<longrightarrow> out = cs_out c (a_idempotency_key a)))"

lemma answers_as_kept: "engine_kept d d' \<Longrightarrow> answers_as env s c i out d \<Longrightarrow> answers_as env s c i out d'"
  by (drule engine_keptD(3)) (fastforce simp: answers_as_def activities_kept_def activity_kept_def)

lemma completion_keeps:
  assumes law: "begin_func_law env"
    and out: "\<And>b d. encode_nullable s ''encode output'' res = Inr b \<Longrightarrow> Q d \<Longrightarrow> answers_as env s c i b d"
  shows "keeps (under (course_row env s c) Q) (CompleteActivity env s i wid res)"
proof (intro course.steer.keeps_CompleteActivity_if course.stmt_under_complete law)
  fix b d a
  assume d: "valid_db d" "Q d" and enc: "encode_nullable s ''encode output'' res = Inr b"
    and a: "a \<in> set (activities d)" "a_id a = i" and row: "course_row env s c d a"
  from out [OF enc d(2)] obtain x where x: "x \<in> set (activities d)" "a_id x = i"
    "a_workflow_id x = cs_id c \<and> is_call env s c (a_idempotency_key x) (a_name x) (a_input x) \<longrightarrow> b = cs_out c (a_idempotency_key x)"
    by (auto simp: answers_as_def)
  have "x = a"
    using find_activity_mem [OF valid_dbD(1) [OF d(1)] x(1)] find_activity_mem [OF valid_dbD(1) [OF d(1)] a(1)] x(2) a(2) by simp
  with x(3) row show "course_row env s c d (a\<lparr>a_status := ActivityCompleted, a_output := b\<rparr>)"
    using call_row_is_call [of env s c d a] by (auto simp: course_row_def call_row_def)
qed

section \<open>What both workers keep\<close>

lemma task_keeps:
  assumes law: "begin_func_law env" and wait: "wait_group_law env"
    and settled: "settled (cs_script c) env (cs_id c) (pg_Decoder s)" and others: "interferes (rows_kept (course_row env s c)) others"
    and reg: "\<And>h. registry (wr_Name (tr_Workflow t)) = Some h \<Longrightarrow> \<exists>input.
      wh_handler h (interleaved others (postgres env s)) (ToWorkflowRun t (pg_Decoder s)) =
        runWorkflow env (interleaved others (postgres env s)) (cs_id c) input (\<lambda>ctx _. perform (cs_script c) env ctx)"
  shows "keeps (rows_kept (course_row env s c)) (handleWorkflowTask env (interleaved others (postgres env s)) config registry t)"
proof -
  have e: "pg_lawful (rows_kept (course_row env s c)) (others, env, s)" using law others by simp
  have frame: "kept_frame (rows_kept (course_row env s c)) pg_mk (pg_lawful (rows_kept (course_row env s c)))"
    unfolding rows_kept_eq by (rule course.steer.pg_kept_frame)
  have "keeps (rows_kept (course_row env s c)) (handleWorkflowTask env (pg_mk (others, env, s)) config registry t)"
  proof (rule kept_frame.keeps_handleWorkflowTask [OF frame e])
    fix h
    assume "registry (wr_Name (tr_Workflow t)) = Some h"
    from reg [OF this] run_keeps [OF wait settled law others]
    show "keeps (rows_kept (course_row env s c)) (wh_handler h (pg_mk (others, env, s))
        (ToWorkflowRun t (st_Decoder (pg_mk (others, env, s)))))"
      by auto
  qed
  then show ?thesis by simp
qed

lemma activity_keeps:
  assumes law: "begin_func_law env" and others: "interferes (rows_kept (course_row env s c)) others"
    and pure: "\<And>h. registry (ar_Name a) = Some h \<Longrightarrow> keeps (rows_kept (course_row env s c)) (ah_handler h (ToActivityRun a (pg_Decoder s)))"
    and out: "\<And>h output b v v'. registry (ar_Name a) = Some h \<Longrightarrow> ah_handler h (ToActivityRun a (pg_Decoder s)) v = (Inr output, v') \<Longrightarrow>
      encode_nullable s ''encode output'' output = Inr b \<Longrightarrow> answers_as env s c (ar_ID a) b (store w)"
    and run: "handleActivity env (interleaved others (postgres env s)) config registry a w = (r, w')"
  shows "rows_kept (course_row env s c) (store w) (store w')"
proof -
  let ?row = "course_row env s c"
  define Q where "Q d \<longleftrightarrow> (\<forall>h output b v v'. registry (ar_Name a) = Some h \<longrightarrow> ah_handler h (ToActivityRun a (pg_Decoder s)) v = (Inr output, v') \<longrightarrow>
      encode_nullable s ''encode output'' output = Inr b \<longrightarrow> answers_as env s c (ar_ID a) b d)" for d
  have i: "interferes (under ?row Q) others" using others by (rule interferes_mono) (rule rows_kept_under)
  with law have e: "pg_lawful (under ?row Q) (others, env, s)" by simp
  have frame: "kept_frame (under ?row Q) pg_mk (pg_lawful (under ?row Q))" by (rule course.steer.pg_kept_frame)
  have "keeps (under ?row Q) (handleActivity env (pg_mk (others, env, s)) config registry a)"
  proof (rule kept_frame.keeps_handleActivity_if [OF frame e])
    show "keeps (under ?row Q) (ah_handler h (ToActivityRun a (st_Decoder (pg_mk (others, env, s)))))"
      if "registry (ar_Name a) = Some h" for h
      using keeps_mono [OF pure [OF that], of "under ?row Q"] rows_kept_under by simp
    fix h res v v'
    assume h: "registry (ar_Name a) = Some h" "ah_handler h (ToActivityRun a (st_Decoder (pg_mk (others, env, s)))) v = (Inr res, v')"
    have "keeps (under ?row Q) (CompleteActivity env s (ar_ID a) (ar_WorkflowID a) res)"
      by (rule completion_keeps [OF law]) (use h in \<open>auto simp: Q_def\<close>)
    then show "keeps (under ?row Q) (st_CompleteActivity (pg_mk (others, env, s)) (ar_ID a) (ar_WorkflowID a) res)"
      by (simp add: course.steer.keeps_amid i)
  qed
  from keepsD [OF this] run have "under ?row Q (store w) (store w')" by simp
  then show ?thesis
  proof (rule under_rows_kept)
    show "Q d'" if kept: "engine_kept d d'" and q: "Q d" for d d'
      unfolding Q_def
    proof (intro allI impI)
      fix h res b v v'
      assume "registry (ar_Name a) = Some h" "ah_handler h (ToActivityRun a (pg_Decoder s)) v = (Inr res, v')"
        "encode_nullable s ''encode output'' res = Inr b"
      with q have "answers_as env s c (ar_ID a) b d" unfolding Q_def by blast
      with kept show "answers_as env s c (ar_ID a) b d'" by (rule answers_as_kept)
    qed
    show "Q (store w)" unfolding Q_def using out by blast
  qed
qed

text \<open>
  Both together: neither a worker that runs the workflow nor one that runs its activities stores
  anything for it but calls of the direct execution, or records another result.
\<close>

lemma durable_stored:
  assumes "begin_func_law env" and "wait_group_law env" and "settled (cs_script c) env (cs_id c) (pg_Decoder s)"
    and "interferes (rows_kept (course_row env s c)) others"
    and "\<And>h. registry (wr_Name (tr_Workflow t)) = Some h \<Longrightarrow> \<exists>input.
      wh_handler h (interleaved others (postgres env s)) (ToWorkflowRun t (pg_Decoder s)) =
        runWorkflow env (interleaved others (postgres env s)) (cs_id c) input (\<lambda>ctx _. perform (cs_script c) env ctx)"
    and "handleWorkflowTask env (interleaved others (postgres env s)) config registry t w = (r, w')"
    and "\<And>h. registry' (ar_Name a) = Some h \<Longrightarrow> keeps (rows_kept (course_row env s c)) (ah_handler h (ToActivityRun a (pg_Decoder s)))"
    and "\<And>h res b x x'. registry' (ar_Name a) = Some h \<Longrightarrow> ah_handler h (ToActivityRun a (pg_Decoder s)) x = (Inr res, x') \<Longrightarrow>
      encode_nullable s ''encode output'' res = Inr b \<Longrightarrow> answers_as env s c (ar_ID a) b (store v)"
    and "handleActivity env (interleaved others (postgres env s)) config' registry' a v = (q, v')"
  shows "rows_kept (course_row env s c) (store w) (store w') \<and> rows_kept (course_row env s c) (store v) (store v')"
proof
  show "rows_kept (course_row env s c) (store w) (store w')"
    by (rule keepsD [OF task_keeps assms(6)]) (fact assms(1-5))+
  show "rows_kept (course_row env s c) (store v) (store v')"
    by (rule activity_keeps [OF assms(1,4) _ _ assms(9)]) (fact assms(7,8))+
qed

text \<open>A workflow that charges once.\<close>

definition ref_script :: "string script" where
  "ref_script = Call ref_act ''100'' [WithActivityIdempotencyKey 31] (Errorf ''charge'') (\<lambda>out. Finish (Inr ()))"

definition ref_course :: "string course" where
  "ref_course = \<lparr>cs_id = 1, cs_script = ref_script, cs_out = (\<lambda>k. Some ''paid''), cs_sig = (\<lambda>k. None)\<rparr>"

lemma ref_course_simps [simp]:
  "cs_id ref_course = 1" "cs_script ref_course = ref_script" "cs_out ref_course k = Some ''paid''" "cs_sig ref_course k = None"
  by (simp_all add: ref_course_def)

lemma ref_settled: "settled ref_script ref_env 1 (pg_Decoder ref_pg)"
  by (simp add: ref_script_def stable_key_def WithActivityIdempotencyKey_def)

lemma ref_course_eq: "course ref_env ref_pg ref_course = ([Activity_Step 31 ''charge'' ''100''], Inr ())"
  by (simp add: course_def ref_script_def activity_key_def WithActivityIdempotencyKey_def asks_def answer_def Let_def
      NewEvent_def pg_Decoder_def ref_unmarshal_def ref_act_def NewActivity_def Get_def IntoValue_def)

definition ref_script_handler :: "(db, string) workflow_fn" where
  "ref_script_handler ctx input = perform ref_script ref_env ctx"

definition ref_charge :: "(db, string) activity_fn" where
  "ref_charge input = ret (Some ''paid'')"

lemma ref_answers: "i \<in> set (map a_id (activities d)) \<Longrightarrow> answers_as ref_env ref_pg ref_course i (Some ''paid'') d"
  by (auto simp: answers_as_def)

end
