(* ===== verification/Durable_Properties.thy ===== *)
theory Durable_Properties
  imports Durable_Course
begin

text \<open>
  What a run of a workflow achieves, when its handler is a script on a database that others use too: when
  its calls get answered, it completes after as many runs as it has calls, and one.
\<close>

section \<open>What a run achieves\<close>

text \<open>
  A call is answered when its activity is completed or its signal has arrived. What is relied on of
  others: no answer is taken back, by a slow worker that fails or reschedules what another completed.
\<close>

fun answered :: "uuid \<Rightarrow> db \<Rightarrow> 'v step \<Rightarrow> bool" where
  "answered i d (Activity_Step k name v) \<longleftrightarrow>
     (\<exists>a \<in> set (activities d). a_workflow_id a = i \<and> a_idempotency_key a = k \<and> a_status a = ActivityCompleted)"
| "answered i d (Signal_Step k) \<longleftrightarrow> (\<exists>x \<in> set (signals d). s_workflow_id x = i \<and> s_idempotency_key x = k)"

definition answers_kept :: "(db, 'v) env \<Rightarrow> 'v pg_storage \<Rightarrow> 'v course \<Rightarrow> db \<Rightarrow> db \<Rightarrow> bool" where
  "answers_kept env s c d d' \<longleftrightarrow> rows_kept (course_row env s c) d d' \<and>
     (\<forall>x \<in> set (fst (course env s c)). answered (cs_id c) d x \<longrightarrow> answered (cs_id c) d' x)"

interpretation progress: db_relation "answers_kept env s c"
  for env :: "(db, 'v) env" and s :: "'v pg_storage" and c :: "'v course"
proof
  show "answers_kept env s c d d" for d
    by (simp add: answers_kept_def rows_kept_refl)
  show "answers_kept env s c d1 d2 \<Longrightarrow> answers_kept env s c d2 d3 \<Longrightarrow> answers_kept env s c d1 d3" for d1 d2 d3
    unfolding answers_kept_def using rows_kept_trans by blast
qed

text \<open>
  Errors from outside, of the driver and of the encoder, do not wrap the engine's own
  \<open>ErrWorkflowSuspended\<close>.
\<close>

definition foreign_errors :: "(db, 'v) env \<Rightarrow> 'v pg_storage \<Rightarrow> bool" where
  "foreign_errors env s \<longleftrightarrow>
     (\<forall>n e. env_outcome env n = Refused e \<or> env_outcome env n = Lost e \<longrightarrow> \<not> errors_Is_suspended e) \<and>
     (\<forall>v e. enc_Encode (pg_encoder s) v = Inl e \<longrightarrow> \<not> errors_Is_suspended e)"

lemma exec_foreign: "foreign_errors env s \<Longrightarrow> exec env ex sql w = (Inl e, w') \<Longrightarrow> \<not> errors_Is_suspended e"
  by (auto simp: exec_def Let_def foreign_errors_def split: outcome.splits sum.splits)

lemma InsertActivity_foreign:
  assumes "foreign_errors env s" and "InsertActivity env s name i key wid input o' w = (Inl e, w')"
  shows "\<not> errors_Is_suspended e"
proof -
  have "\<not> errors_Is_suspended e'" if "encode_nullable s l input = Inl e'" for l e'
    using assms(1) that by (auto simp: encode_nullable_def foreign_errors_def split: option.splits sum.splits)
  with assms(2) show ?thesis
    by (auto simp: InsertActivity_def bindE_err wrapE_err dest!: exec_foreign [OF assms(1)])
qed

lemma suspended_call_stored:
  assumes "foreign_errors env s" and none: "ctx_history ctx (activity_call_key env ctx act opts w) = None"
    and st: "ctx_storage ctx = interleaved others (postgres env s)"
    and run: "ExecuteActivity env ctx act input opts w = (Inl e, w')" and e: "errors_Is_suspended e"
  shows "activity_call_key env ctx act opts w \<in> a_idempotency_key ` set (activities (store w'))"
proof -
  from run none st obtain i o' v r1 where ins: "InsertActivity env s (act_Name act) i (activity_call_key env ctx act opts w)
      (ctx_workflowID ctx) input o' v = (r1, w')"
    and "Inl e = Inl (case r1 of Inl e \<Rightarrow> Errorf (''insert activity [name = '' @ act_Name act @ '']'') e | Inr _ \<Rightarrow> ErrWorkflowSuspended)"
    by (auto simp: ExecuteActivity_def ExecuteActivityAsync_def activity_call_key_def bindE_def wrapE_def Let_def
        amid_def Get_def split: prod.splits sum.splits)
  with e InsertActivity_foreign [OF assms(1)] have "r1 = Inr ()" by (cases r1) auto
  with ins show ?thesis by (blast intro: InsertActivity_effect(2))
qed

lemma loaded_answers:
  assumes "valid_db (store u)" and "ListHistoryEventsForWorkflow env s i u = (Inr h, u')"
    and "valid_db (store v)" and "ListWorkflowSignals env s i v = (Inr g, v')"
    and "answered i (store u) x" and "answered i (store v) x"
  shows "known h g x"
proof (cases x)
  case (Activity_Step k name y)
  with assms(5) obtain a where "a \<in> set (activities (store u))" "a_workflow_id a = i" "a_idempotency_key a = k"
    "a_status a = ActivityCompleted" by auto
  then have "h k = Some (NewEvent k (a_output a) (pg_Decoder s))"
    unfolding ListHistory_lookup(1) [OF valid_dbD(1) [OF assms(1)] assms(2)] by blast
  with Activity_Step show ?thesis by simp
next
  case (Signal_Step k)
  with assms(6) obtain z where "z \<in> set (signals (store v))" "s_workflow_id z = i" "s_idempotency_key z = k" by auto
  then have "g k = Some (NewEvent k (s_input z) (pg_Decoder s))"
    unfolding ListWorkflowSignals_lookup(1) [OF valid_dbD(1) [OF assms(3)] assms(4)] by blast
  with Signal_Step show ?thesis by simp
qed

lemma completed_status:
  assumes "valid_db (store w')" and "CompleteWorkflow env i w = (Inr (), w')"
  shows "\<forall>y \<in> set (workflows (store w')). w_id y = i \<longrightarrow> w_status y = WorkflowCompleted"
proof -
  from CompleteWorkflow_effect [OF assms(2)] obtain a b now where b: "find_workflow (store w') i = Some b"
    and "b = a\<lparr>w_status := WorkflowCompleted, w_completed_at := Some now, w_error_message := None, w_updated_at := w_updated_at b\<rparr>"
    unfolding all_or_nothing_def workflow_completed_def row_changed_def by auto
  from this(2) have "w_status b = WorkflowCompleted" by (cases a; cases b) simp
  with b find_workflow_mem [OF valid_dbD(1) [OF assms(1)]] show ?thesis by fastforce
qed

text \<open>
  A run that returns nil completed its workflow, at the end of the direct execution, or stopped at a call
  that was not answered when the run began and that is stored now.
\<close>

lemma run_outcome:
  assumes wait: "wait_group_law env" and settled: "settled (cs_script c) env (cs_id c) (pg_Decoder s)"
    and others: "interferes (answers_kept env s c) others" and foreign: "foreign_errors env s"
    and plain: "\<forall>e. snd (course env s c) = Inl e \<longrightarrow> \<not> errors_Is_suspended e"
    and w: "valid_db (store w)" "rows_ok (course_row env s c) (store w)"
    and run: "runWorkflow env (interleaved others (postgres env s)) (cs_id c) input (\<lambda>ctx _. perform (cs_script c) env ctx) w = (Inr (), w')"
    and sig: "signals_as c (store w')"
  obtains (finished) "snd (course env s c) = Inr ()" "\<forall>x \<in> set (fst (course env s c)). stored (cs_id c) (store w') x"
      "\<forall>y \<in> set (workflows (store w')). w_id y = cs_id c \<longrightarrow> w_status y = WorkflowCompleted"
  | (halted) n where "n < length (fst (course env s c))" "\<not> answered (cs_id c) (store w) (fst (course env s c) ! n)"
      "\<And>k name v. fst (course env s c) ! n = Activity_Step k name v \<Longrightarrow> k \<in> a_idempotency_key ` set (activities (store w'))"
proof -
  let ?path = "fst (course env s c)" and ?i = "cs_id c" and ?row = "course_row env s c"
  have rows: "interferes (rows_kept ?row) others" using others by (rule interferes_mono) (simp add: answers_kept_def)
  have know: "valid_db d \<and> rows_ok ?row d" if "answers_kept env s c (store w) d" for d
    using that w engine_keptD(1) by (auto simp: answers_kept_def rows_kept_def)
  have engine: "engine_kept d d'" if "answers_kept env s c d d'" for d d'
    using that by (auto simp: answers_kept_def intro: rows_kept_engine)
  from wait others run show thesis
  proof (cases rule: progress.runWorkflow_parts [consumes 3, case_names unloaded loaded])
    case unloaded
    then show thesis by simp
  next
    case (loaded h g u u' v v' w1 r2 w2)
    let ?ctx = "NewWorkflowContext ?i (interleaved others (postgres env s)) h g"
    have u: "valid_db (store u)" "rows_ok ?row (store u)" and v: "valid_db (store v)"
      using know [OF loaded(1)] know [OF loaded(4)] by blast+
    have "under ?row (since (store u) (store v)) (store w1) (store w2)"
      by (rule handler_keeps [OF settled rows u loaded(3) v loaded(6,8)])
    moreover have "under ?row (\<lambda>_. True) (store w2) (store w')"
      using pg_frame.run_ends_keeps [OF course.steer.pg_frame_axioms loaded(9)] rows by (simp add: rows_kept_eq)
    ultimately have kept: "engine_kept (store w1) (store w')" using kept.R_trans by (auto simp: under_def)
    have after: "engine_kept (store u) (store w')" "engine_kept (store v) (store w')"
      using kept.R_trans [OF engine kept] loaded(2,5) by blast+
    have "follows env ?ctx (course env s c) (store w1) r2 w2"
      unfolding course_def
      by (rule perform_follows [OF settled loaded_history(1) [OF u loaded(3) signals_as_before [OF after(1) sig]]
        loaded_signals(1) [OF v loaded(6) signals_as_before [OF after(2) sig]] loaded(8)])
    then show thesis
      unfolding follows_def
    proof (elim disjE exE conjE)
      assume all: "\<forall>x \<in> set ?path. known (ctx_history ?ctx) (ctx_signals ?ctx) x" and r2: "r2 = snd (course env s c)"
      from loaded(9) have r2_ok: "r2 = Inr ()" and "CompleteWorkflow env ?i (others w2) = (Inr (), w')"
        using plain r2 by (auto simp: run_ends_def amid_def split: sum.splits if_splits)
      moreover have "valid_db (store w')" using u(1) engine_keptD(1) [OF after(1)] by blast
      moreover have "stored ?i (store w') x" if x: "x \<in> set ?path" for x
      proof -
        have "known h g x" using all x by (simp add: NewWorkflowContext_def)
        with loaded_history(2) [OF u loaded(3)] loaded_signals(2) [OF v loaded(6)]
        have "stored ?i (store u) x \<or> stored ?i (store v) x" by (rule loaded_known)
        with stored_kept after show ?thesis by blast
      qed
      ultimately show thesis using r2 by (intro finished completed_status) simp_all
    next
      fix n
      assume n: "n < length ?path" and unknown: "\<not> known (ctx_history ?ctx) (ctx_signals ?ctx) (?path ! n)"
        and halts: "halts env ?ctx (?path ! n) (store w1) r2 w2"
      have "\<not> answered ?i (store w) (?path ! n)"
      proof
        assume a: "answered ?i (store w) (?path ! n)"
        have "?path ! n \<in> set ?path" using n by simp
        with a loaded(1,4) have "answered ?i (store u) (?path ! n)" "answered ?i (store v) (?path ! n)"
          unfolding answers_kept_def by blast+
        then have "known h g (?path ! n)" by (rule loaded_answers [OF u(1) loaded(3) v loaded(6)])
        with unknown show False by (simp add: NewWorkflowContext_def)
      qed
      moreover have "k \<in> a_idempotency_key ` set (activities (store w'))" if "?path ! n = Activity_Step k name x" for k name x
      proof -
        from halts that obtain act opts w0 e f where call: "stable_key opts" "activity_key env ?i act opts = k"
          "ExecuteActivity env ?ctx act (Some x) opts w0 = (Inl e, w2)" "r2 = Inl f" "errors_Is_suspended f = errors_Is_suspended e"
          by (auto simp: NewWorkflowContext_def)
        from loaded(9) call(4,5) have e: "errors_Is_suspended e" and w': "w' = w2" by (auto simp: run_ends_def split: if_splits)
        have key: "activity_call_key env ?ctx act opts w0 = k" by (simp add: activity_call_key_eq [OF call(1)] call(2))
        have "ctx_history ?ctx (activity_call_key env ?ctx act opts w0) = None"
          using unknown that unfolding key by (simp add: NewWorkflowContext_def)
        from suspended_call_stored [OF foreign this _ call(3) e] show ?thesis
          unfolding w' key by (simp add: NewWorkflowContext_def)
      qed
      ultimately show thesis using n by (rule halted [rotated])
    qed
  qed
qed

section \<open>As many runs as calls, and one\<close>

text \<open>
  The runs of a course that return nil. Before each, every activity that is stored has been completed and
  every signal has arrived; in between and during the runs the engine does anything else.
\<close>

definition caught_up :: "(db, 'v) env \<Rightarrow> 'v pg_storage \<Rightarrow> 'v course \<Rightarrow> db \<Rightarrow> bool" where
  "caught_up env s c d \<longleftrightarrow> (\<forall>x \<in> set (fst (course env s c)).
     case x of Activity_Step k name v \<Rightarrow> stored (cs_id c) d x \<longrightarrow> answered (cs_id c) d x | Signal_Step k \<Rightarrow> answered (cs_id c) d x)"

lemma caught_upD:
  assumes "caught_up env s c d" and "x \<in> set (fst (course env s c))" and "\<not> answered (cs_id c) d x"
  shows "\<exists>k name v. x = Activity_Step k name v \<and> \<not> stored (cs_id c) d x"
  using bspec [OF assms(1) [unfolded caught_up_def] assms(2)] assms(3) by (cases x) (simp_all del: answered.simps stored.simps)

inductive rounds :: "(db, 'v) env \<Rightarrow> 'v pg_storage \<Rightarrow> 'v course \<Rightarrow> (db world \<Rightarrow> db world) \<Rightarrow> (db, 'v) workflow_fn \<Rightarrow> 'v \<Rightarrow>
    nat \<Rightarrow> db world \<Rightarrow> db world \<Rightarrow> bool"
  for env :: "(db, 'v) env" and s :: "'v pg_storage" and c :: "'v course" and others :: "db world \<Rightarrow> db world"
    and handler :: "(db, 'v) workflow_fn" and input :: 'v
where
  start: "rounds env s c others handler input 0 w w"
| round: "rounds env s c others handler input n w0 w \<Longrightarrow> rows_kept (course_row env s c) (store w) (store v) \<Longrightarrow>
    caught_up env s c (store v) \<Longrightarrow>
    runWorkflow env (interleaved others (postgres env s)) (cs_id c) input handler v = (Inr (), w') \<Longrightarrow>
    rounds env s c others handler input (Suc n) w0 w'"

inductive_cases rounds_SucE: "rounds env s c others handler input (Suc n) w0 w"

text \<open>The handler is a script on its input.\<close>

definition performs :: "('d, 'v) env \<Rightarrow> ('d, 'v) workflow_fn \<Rightarrow> 'v \<Rightarrow> 'v script \<Rightarrow> bool" where
  "performs env handler input S \<longleftrightarrow> (\<forall>ctx. handler ctx input = perform S env ctx)"

lemma runWorkflow_script:
  "performs env handler input S \<Longrightarrow> runWorkflow env st i input handler = runWorkflow env st i input (\<lambda>ctx _. perform S env ctx)"
  by (simp add: runWorkflow_def performs_def)

text \<open>No other workflow uses a key of the course.\<close>

definition own_keys :: "(db, 'v) env \<Rightarrow> 'v pg_storage \<Rightarrow> 'v course \<Rightarrow> db \<Rightarrow> bool" where
  "own_keys env s c d \<longleftrightarrow> (\<forall>x \<in> set (fst (course env s c)). \<forall>a \<in> set (activities d).
     case x of Activity_Step k name v \<Rightarrow> a_idempotency_key a = k \<longrightarrow> a_workflow_id a = cs_id c | Signal_Step k \<Rightarrow> True)"

lemma own_keys_before: "engine_kept d d' \<Longrightarrow> own_keys env s c d' \<Longrightarrow> own_keys env s c d"
  by (drule engine_keptD(3)) (fastforce simp: own_keys_def activities_kept_def activity_kept_def split: step.splits)

definition missing :: "(db, 'v) env \<Rightarrow> 'v pg_storage \<Rightarrow> 'v course \<Rightarrow> db \<Rightarrow> nat" where
  "missing env s c d = length (filter (\<lambda>x. \<not> stored (cs_id c) d x) (fst (course env s c)))"

lemma missing_0: "missing env s c d = 0 \<longleftrightarrow> (\<forall>x \<in> set (fst (course env s c)). stored (cs_id c) d x)"
  by (simp add: missing_def filter_empty_conv)

lemma missing_le:
  assumes "engine_kept d d'"
  shows "missing env s c d' \<le> missing env s c d"
proof -
  have "filter (\<lambda>x. \<not> stored (cs_id c) d' x) xs = filter (\<lambda>x. \<not> stored (cs_id c) d' x) (filter (\<lambda>x. \<not> stored (cs_id c) d x) xs)" for xs
    using stored_kept [OF assms] by (auto intro: filter_cong)
  then show ?thesis unfolding missing_def by (metis length_filter_le)
qed

lemma missing_less:
  assumes "engine_kept d d'" and "x \<in> set (fst (course env s c))" and "\<not> stored (cs_id c) d x" and "stored (cs_id c) d' x"
  shows "missing env s c d' < missing env s c d"
proof -
  let ?xs = "filter (\<lambda>x. \<not> stored (cs_id c) d x) (fst (course env s c))"
  have "filter (\<lambda>x. \<not> stored (cs_id c) d' x) (fst (course env s c)) = filter (\<lambda>x. \<not> stored (cs_id c) d' x) ?xs"
    using stored_kept [OF assms(1)] by (auto intro: filter_cong)
  moreover have "length (filter (\<lambda>x. \<not> stored (cs_id c) d' x) ?xs) < length ?xs"
    by (rule length_filter_less [of x]) (simp_all add: assms)
  ultimately show ?thesis by (simp add: missing_def)
qed

lemma run_missing:
  assumes wait: "wait_group_law env" and settled: "settled (cs_script c) env (cs_id c) (pg_Decoder s)"
    and others: "interferes (answers_kept env s c) others" and foreign: "foreign_errors env s"
    and plain: "\<forall>e. snd (course env s c) = Inl e \<longrightarrow> \<not> errors_Is_suspended e"
    and v: "valid_db (store v)" "rows_ok (course_row env s c) (store v)" "caught_up env s c (store v)"
    and run: "runWorkflow env (interleaved others (postgres env s)) (cs_id c) input (\<lambda>ctx _. perform (cs_script c) env ctx) v = (Inr (), w')"
    and kept: "engine_kept (store v) (store w')" and w': "signals_as c (store w')" "own_keys env s c (store w')"
  shows "missing env s c (store w') = 0 \<or> missing env s c (store w') < missing env s c (store v)"
    and "missing env s c (store v) = 0 \<Longrightarrow> snd (course env s c) = Inr () \<and>
      (\<forall>y \<in> set (workflows (store w')). w_id y = cs_id c \<longrightarrow> w_status y = WorkflowCompleted)"
proof -
  have "(missing env s c (store w') = 0 \<or> missing env s c (store w') < missing env s c (store v)) \<and>
    (missing env s c (store v) = 0 \<longrightarrow> snd (course env s c) = Inr () \<and>
      (\<forall>y \<in> set (workflows (store w')). w_id y = cs_id c \<longrightarrow> w_status y = WorkflowCompleted))"
    using wait settled others foreign plain v(1,2) run w'(1)
  proof (cases rule: run_outcome [consumes 9, case_names finished halted])
    case finished
    then show ?thesis by (simp add: missing_0)
  next
    case (halted n)
    let ?x = "fst (course env s c) ! n"
    have x: "?x \<in> set (fst (course env s c))" using halted(1) by simp
    from caught_upD [OF v(3) this halted(2)] obtain k name y where
      act: "?x = Activity_Step k name y" and new: "\<not> stored (cs_id c) (store v) ?x" by blast
    from halted(3) [OF act] obtain a where a: "a \<in> set (activities (store w'))" "a_idempotency_key a = k" by auto
    with w'(2) x act have "a_workflow_id a = cs_id c" unfolding own_keys_def by fastforce
    with a have "stored (cs_id c) (store w') ?x" unfolding act by auto
    with missing_less [OF kept x new] have "missing env s c (store w') < missing env s c (store v)" .
    then show ?thesis by simp
  qed
  then show "missing env s c (store w') = 0 \<or> missing env s c (store w') < missing env s c (store v)"
    "missing env s c (store v) = 0 \<Longrightarrow> snd (course env s c) = Inr () \<and>
      (\<forall>y \<in> set (workflows (store w')). w_id y = cs_id c \<longrightarrow> w_status y = WorkflowCompleted)"
    by blast+
qed

text \<open>Each round stores one more call, until none is missing.\<close>

lemma rounds_progress:
  assumes law: "begin_func_law env" and wait: "wait_group_law env" and settled: "settled (cs_script c) env (cs_id c) (pg_Decoder s)"
    and others: "interferes (answers_kept env s c) others" and foreign: "foreign_errors env s"
    and plain: "\<forall>e. snd (course env s c) = Inl e \<longrightarrow> \<not> errors_Is_suspended e"
    and w0: "valid_db (store w0)" "rows_ok (course_row env s c) (store w0)"
    and handler: "performs env handler input (cs_script c)"
    and rounds: "rounds env s c others handler input n w0 w"
  shows "rows_kept (course_row env s c) (store w0) (store w) \<and>
    (signals_as c (store w) \<and> own_keys env s c (store w) \<longrightarrow>
      missing env s c (store w) = 0 \<or> missing env s c (store w) + n \<le> length (fst (course env s c)))"
  using rounds w0
proof (induction rule: rounds.induct)
  case (start w)
  show ?case by (simp add: rows_kept_refl missing_def length_filter_le)
next
  case (round n w0 w v w')
  let ?row = "course_row env s c" and ?path = "fst (course env s c)"
  have rows: "interferes (rows_kept ?row) others" using others by (rule interferes_mono) (simp add: answers_kept_def)
  from round have before: "rows_kept ?row (store w0) (store w)" and IH: "signals_as c (store w) \<Longrightarrow> own_keys env s c (store w) \<Longrightarrow>
      missing env s c (store w) = 0 \<or> missing env s c (store w) + n \<le> length ?path" by blast+
  note ran = round(4) [unfolded runWorkflow_script [OF handler]]
  have run: "rows_kept ?row (store v) (store w')" using keepsD [OF run_keeps [OF wait settled law rows] ran] .
  have wv: "rows_kept ?row (store w0) (store v)" using before round(2) by (rule rows_kept_trans)
  then have v: "valid_db (store v)" "rows_ok ?row (store v)"
    using round.prems engine_keptD(1) by (auto simp: rows_kept_def)
  have "missing env s c (store w') = 0 \<or> missing env s c (store w') + Suc n \<le> length ?path"
    if w': "signals_as c (store w')" "own_keys env s c (store w')"
  proof -
    note run_missing(1) [OF wait settled others foreign plain v round(3) ran rows_kept_engine [OF run] w']
    moreover have "engine_kept (store w) (store w')" using kept.R_trans rows_kept_engine round(2) run by blast
    then have "missing env s c (store w) = 0 \<or> missing env s c (store w) + n \<le> length ?path"
      using IH signals_as_before own_keys_before w' by blast
    moreover have "missing env s c (store v) \<le> missing env s c (store w)" "missing env s c (store w') \<le> missing env s c (store v)"
      using missing_le rows_kept_engine round(2) run by blast+
    ultimately show ?thesis by linarith
  qed
  with rows_kept_trans [OF wv run] show ?case by blast
qed

text \<open>After more such runs than calls the course is run to its end.\<close>

lemma completes:
  assumes "begin_func_law env" and "wait_group_law env" and "settled (cs_script c) env (cs_id c) (pg_Decoder s)"
    and "interferes (answers_kept env s c) others" and "foreign_errors env s"
    and "\<forall>e. snd (course env s c) = Inl e \<longrightarrow> \<not> errors_Is_suspended e"
    and "valid_db (store w0)" and "rows_ok (course_row env s c) (store w0)"
    and "performs env handler input (cs_script c)"
    and "rounds env s c others handler input n w0 w" and "length (fst (course env s c)) < n"
    and "signals_as c (store w)" and "own_keys env s c (store w)"
  shows "snd (course env s c) = Inr () \<and> (\<forall>x \<in> set (fst (course env s c)). stored (cs_id c) (store w) x) \<and>
    (\<forall>y \<in> set (workflows (store w)). w_id y = cs_id c \<longrightarrow> w_status y = WorkflowCompleted) \<and> rows_ok (course_row env s c) (store w)"
proof -
  note steps = rounds_progress [OF assms(1-9)]
  from assms(11) obtain m where n: "n = Suc m" by (cases n) auto
  from assms(10) [unfolded n] obtain w1 v where before: "rounds env s c others handler input m w0 w1"
    and wv: "rows_kept (course_row env s c) (store w1) (store v)" and up: "caught_up env s c (store v)"
    and "runWorkflow env (interleaved others (postgres env s)) (cs_id c) input handler v = (Inr (), w)"
    by (rule rounds_SucE) blast
  note run = this(4) [unfolded runWorkflow_script [OF assms(9)]]
  have rows: "interferes (rows_kept (course_row env s c)) others" using assms(4) by (rule interferes_mono) (simp add: answers_kept_def)
  have last: "rows_kept (course_row env s c) (store v) (store w)" using keepsD [OF run_keeps [OF assms(2,3,1) rows] run] .
  have "rows_kept (course_row env s c) (store w0) (store v)" using steps [OF before] wv rows_kept_trans by blast
  then have v: "valid_db (store v)" "rows_ok (course_row env s c) (store v)"
    using assms(7,8) engine_keptD(1) by (auto simp: rows_kept_def)
  have "engine_kept (store w1) (store w)" using kept.R_trans rows_kept_engine wv last by blast
  then have "missing env s c (store w1) = 0 \<or> missing env s c (store w1) + m \<le> length (fst (course env s c))"
    using steps [OF before] signals_as_before own_keys_before assms(12,13) by blast
  then have "missing env s c (store w1) = 0" using assms(11) n by linarith
  then have none: "missing env s c (store v) = 0" "missing env s c (store w) = 0"
    using missing_le [OF rows_kept_engine [OF wv], of env s c] missing_le [OF rows_kept_engine [OF last], of env s c] by simp_all
  have "rows_ok (course_row env s c) (store w)" using v last by (simp add: rows_kept_def)
  with run_missing(2) [OF assms(2-6) v up run rows_kept_engine [OF last] assms(12,13) none(1)] none(2)
  show ?thesis by (simp add: missing_0)
qed

text \<open>
  C3: a workflow whose calls get answered completes. Let its handler perform a script, on a database that
  others use too, and let every run begin when the stored activities are completed and the signals have arrived.
  When more runs have returned nil than the direct execution has calls, that execution ends with nil and
  the workflow is completed, with every call stored.
\<close>

theorem durable_completes:
  assumes "begin_func_law env" and "wait_group_law env" and "settled (cs_script c) env (cs_id c) (pg_Decoder s)"
    and "interferes (answers_kept env s c) others" and "foreign_errors env s"
    and "\<forall>e. snd (course env s c) = Inl e \<longrightarrow> \<not> errors_Is_suspended e"
    and "valid_db (store w0)" and "rows_ok (course_row env s c) (store w0)"
    and "performs env handler input (cs_script c)"
    and "rounds env s c others handler input n w0 w" and "length (fst (course env s c)) < n"
    and "signals_as c (store w)" and "own_keys env s c (store w)"
  shows "snd (course env s c) = Inr () \<and> (\<forall>x \<in> set (fst (course env s c)). stored (cs_id c) (store w) x) \<and>
    (\<forall>y \<in> set (workflows (store w)). w_id y = cs_id c \<longrightarrow> w_status y = WorkflowCompleted)"
  using completes [OF assms] by blast

text \<open>The workflow that charges once: it is suspended, its activity is completed, and it completes.\<close>

definition ref_bare :: "db world" where
  "ref_bare = \<lparr>store = ref_db\<lparr>activities := []\<rparr>, ticks = 10\<rparr>"

definition ref_course_run :: "db world \<Rightarrow> (error + unit) \<times> db world" where
  "ref_course_run = runWorkflow ref_env (postgres ref_env ref_pg) 1 ''input'' ref_script_handler"

definition ref_stored_id :: uuid where
  "ref_stored_id = a_id (hd (activities (store (snd (ref_course_run ref_bare)))))"

definition ref_answered :: "(error + unit) \<times> db world" where
  "ref_answered = CompleteActivity ref_env ref_pg ref_stored_id 1 (Some ''paid'') (snd (ref_course_run ref_bare))"

lemma ref_course_runs: "fst (ref_course_run ref_bare) = Inr ()" "fst (ref_course_run (snd ref_answered)) = Inr ()"
  unfolding ref_answered_def ref_stored_id_def ref_course_run_def by code_simp+

lemma ref_stored_answers: "answers_as ref_env ref_pg ref_course ref_stored_id (Some ''paid'') (store (snd (ref_course_run ref_bare)))"
proof (rule ref_answers)
  show "ref_stored_id \<in> set (map a_id (activities (store (snd (ref_course_run ref_bare)))))"
    unfolding ref_stored_id_def ref_course_run_def by code_simp
qed

lemma ref_caught_up: "caught_up ref_env ref_pg ref_course (store ref_bare)" "caught_up ref_env ref_pg ref_course (store (snd ref_answered))"
proof -
  show "caught_up ref_env ref_pg ref_course (store ref_bare)"
    by (simp add: caught_up_def ref_course_eq ref_bare_def)
  have "answered 1 (store (snd ref_answered)) (Activity_Step 31 ''charge'' ''100'')"
    unfolding ref_answered_def ref_stored_id_def ref_course_run_def by code_simp
  then show "caught_up ref_env ref_pg ref_course (store (snd ref_answered))"
    by (simp add: caught_up_def ref_course_eq)
qed

lemma ref_answered_kept:
  "rows_kept (course_row ref_env ref_pg ref_course) (store (snd (ref_course_run ref_bare))) (store (snd ref_answered))"
proof (rule under_rows_kept)
  show "under (course_row ref_env ref_pg ref_course) (answers_as ref_env ref_pg ref_course ref_stored_id (Some ''paid''))
      (store (snd (ref_course_run ref_bare))) (store (snd ref_answered))"
    by (rule keepsD [OF completion_keeps [where res = "Some ''paid''" and i = ref_stored_id and wid = 1, OF ref_begin_func_law],
          where r = "fst ref_answered"]) (auto simp: encode_nullable_def ref_answered_def)
qed (erule (1) answers_as_kept, rule ref_stored_answers)

lemma ref_rounds:
  "rounds ref_env ref_pg ref_course id ref_script_handler ''input'' 2 ref_bare (snd (ref_course_run (snd ref_answered)))"
proof -
  have run: "runWorkflow ref_env (interleaved id (postgres ref_env ref_pg)) (cs_id ref_course) ''input''
      ref_script_handler w = (Inr (), snd (ref_course_run w))"
    if "fst (ref_course_run w) = Inr ()" for w
    using that by (simp add: ref_course_run_def prod_eq_iff)
  have "rounds ref_env ref_pg ref_course id ref_script_handler ''input'' (Suc 0) ref_bare (snd (ref_course_run ref_bare))"
    by (rule rounds.round [OF rounds.start rows_kept_refl ref_caught_up(1) run [OF ref_course_runs(1)]])
  from rounds.round [OF this ref_answered_kept ref_caught_up(2) run [OF ref_course_runs(2)]]
  show ?thesis by (simp add: numeral_2_eq_2)
qed

lemma ref_course_end:
  "signals_as ref_course (store (snd (ref_course_run (snd ref_answered))))"
  "own_keys ref_env ref_pg ref_course (store (snd (ref_course_run (snd ref_answered))))"
  unfolding own_keys_def ref_course_eq signals_as_def ref_answered_def ref_stored_id_def ref_course_run_def by code_simp+

lemma durable_completes_witness:
  "stored 1 (store (snd (ref_course_run (snd ref_answered)))) (Activity_Step 31 ''charge'' ''100'') \<and>
   list_all (\<lambda>y. w_status y = WorkflowCompleted)
     (filter (\<lambda>y. w_id y = 1) (workflows (store (snd (ref_course_run (snd ref_answered))))))"
proof -
  have "valid_db (store ref_bare)"
    using ref_db_valid by (simp add: ref_bare_def valid_db_def keys_ok_def refs_ok_def wf_ids_def ref_db_def)
  moreover have "rows_ok (course_row ref_env ref_pg ref_course) (store ref_bare)" by (simp add: rows_ok_def ref_bare_def)
  moreover have "interferes (answers_kept ref_env ref_pg ref_course) id" by (rule progress.interferes_id)
  moreover have "foreign_errors ref_env ref_pg" by (simp add: foreign_errors_def)
  ultimately have "snd (course ref_env ref_pg ref_course) = Inr () \<and>
      (\<forall>x \<in> set (fst (course ref_env ref_pg ref_course)). stored (cs_id ref_course) (store (snd (ref_course_run (snd ref_answered)))) x) \<and>
      (\<forall>y \<in> set (workflows (store (snd (ref_course_run (snd ref_answered))))). w_id y = cs_id ref_course \<longrightarrow> w_status y = WorkflowCompleted)"
    by (intro durable_completes [OF ref_begin_func_law ref_wait_group_law _ _ _ _ _ _ _ ref_rounds _ ref_course_end])
      (simp_all add: ref_settled ref_course_eq performs_def ref_script_handler_def)
  then show ?thesis by (simp add: ref_course_eq list_all_iff)
qed

end
