(* ===== verification/Durable_Workers.thy ===== *)
theory Durable_Workers
  imports Durable_Course Claimed_Records Poller_Properties
begin

text \<open>
  Durable execution by the polling loops of the two workers: in every interleaving of their ticks, polls,
  handlers and stop signals, with other processes on the database, what they store of a workflow
  is a part of its direct execution. Each gives the other what it relies on.
\<close>

section \<open>The workflow in the database\<close>

definition enqueued :: "uuid \<Rightarrow> string \<Rightarrow> bytes option \<Rightarrow> db \<Rightarrow> bool" where
  "enqueued i name inp d \<longleftrightarrow> (\<exists>y \<in> set (workflows d). w_id y = i \<and> w_name y = name \<and> w_input y = inp)"

lemma enqueued_kept: "engine_kept d d' \<Longrightarrow> enqueued i name inp d \<Longrightarrow> enqueued i name inp d'"
  by (drule engine_keptD(4)) (fastforce simp: enqueued_def workflows_kept_def workflow_kept_def)

text \<open>Every claimed task of the workflow carries its name and its input.\<close>

lemma enqueued_task:
  assumes "valid_db d" and "enqueued i name inp d" and "task_of d t" and "wr_ID (tr_Workflow t) = i"
  shows "wr_Name (tr_Workflow t) = name \<and> wr_Input (tr_Workflow t) = inp"
proof -
  from assms(2) obtain x where x: "x \<in> set (workflows d)" "w_id x = i" "w_name x = name" "w_input x = inp"
    by (auto simp: enqueued_def)
  from assms(3,4) obtain y where y: "y \<in> set (workflows d)" "w_id y = i" "w_name y = wr_Name (tr_Workflow t)"
    "w_input y = wr_Input (tr_Workflow t)" by (auto simp: task_of_def)
  have "x = y"
    using find_workflow_mem [OF valid_dbD(1) [OF assms(1)] x(1)] find_workflow_mem [OF valid_dbD(1) [OF assms(1)] y(1)] x(2) y(2)
    by simp
  with x y show ?thesis by simp
qed

section \<open>What the workers are deployed with\<close>

text \<open>
  A workflow worker runs the script of the course for the tasks of its workflow, and for the tasks of
  other workflows any handler that keeps what is stored of the course.
\<close>

definition runs_course :: "'v pg_storage \<Rightarrow> 'v course \<Rightarrow> string \<Rightarrow> bytes option \<Rightarrow>
    ('v, (db, 'v) workflow_handler_wrapper) deployment \<Rightarrow> bool" where
  "runs_course s c name inp su \<longleftrightarrow> (\<forall>t h. su_registry su (wr_Name (tr_Workflow t)) = Some h \<longrightarrow>
     (if wr_ID (tr_Workflow t) = cs_id c
      then wr_Name (tr_Workflow t) = name \<and> wr_Input (tr_Workflow t) = inp \<longrightarrow>
        (\<exists>input. wh_handler h (su_storage su) (ToWorkflowRun t (pg_Decoder s)) =
           runWorkflow (su_env su) (su_storage su) (cs_id c) input (\<lambda>ctx _. perform (cs_script c) (su_env su) ctx))
      else keeps (rows_kept (course_row (su_env su) s c)) (wh_handler h (su_storage su) (ToWorkflowRun t (pg_Decoder s)))))"

text \<open>
  An activity worker answers the calls of the course as the course says, when it answers; its
  handlers may call the engine.
\<close>

definition answers_course :: "'v pg_storage \<Rightarrow> 'v course \<Rightarrow> ('v, (db, 'v) activity_handler_wrapper) deployment \<Rightarrow> bool" where
  "answers_course s c su \<longleftrightarrow> (\<forall>a h. su_registry su (ar_Name a) = Some h \<longrightarrow>
     keeps (rows_kept (course_row (su_env su) s c)) (ah_handler h (ToActivityRun a (pg_Decoder s))) \<and>
     (ar_WorkflowID a = cs_id c \<and> is_call (su_env su) s c (ar_IdempotencyKey a) (ar_Name a) (ar_Input a) \<longrightarrow>
        (\<forall>v out v' b. ah_handler h (ToActivityRun a (pg_Decoder s)) v = (Inr out, v') \<longrightarrow>
           encode_nullable s ''encode output'' out = Inr b \<longrightarrow> b = cs_out c (ar_IdempotencyKey a))))"

text \<open>The script of another workflow, whatever it is, stores nothing for this one.\<close>

lemma other_script_keeps:
  fixes s :: "'v pg_storage"
  assumes law: "begin_func_law env" "wait_group_law env" and others: "interferes (rows_kept (course_row env s c)) others"
    and i: "i \<noteq> cs_id c"
  shows "keeps (rows_kept (course_row env s c)) (runWorkflow env (interleaved others (postgres env s)) i input
    (\<lambda>ctx v. perform (f v) env ctx))"
proof -
  let ?R = "under (course_row env s c) (\<lambda>_. True)"
  have e: "pg_lawful ?R (others, env, s)" using law others by (simp add: rows_kept_eq)
  have "keeps ?R (runWorkflow env (pg_mk (others, env, s)) i input (\<lambda>ctx v. perform (f v) env ctx))"
  proof (rule kept_frame.keeps_runWorkflow [OF course.steer.pg_kept_frame e law(2)], rule course.steer.keeps_perform)
    fix ctx :: "(db, 'v) workflow_context" and act :: activity and x :: 'v and opts
    assume "ctx_storage ctx = pg_mk (others, env, s)" "ctx_workflowID ctx = i"
    then have ctx: "ctx = NewWorkflowContext i (interleaved others (postgres env s)) (ctx_history ctx) (ctx_signals ctx)"
      by (simp add: NewWorkflowContext_def)
    show "keeps ?R (ExecuteActivity env ctx act (Some x) opts)"
      by (subst ctx, rule course.keeps_call [OF others]) (use i in \<open>simp add: course_row_def new_activity_def\<close>)
  qed
  then show ?thesis by (simp add: rows_kept_eq)
qed

text \<open>So a registered workflow that is a script for each input runs its courses.\<close>

lemma registered_runs_course:
  assumes law: "begin_func_law env" "wait_group_law env" and others: "interferes (rows_kept (course_row env s c)) others"
    and su: "su_env su = env" "su_storage su = interleaved others (postgres env s)"
      "su_registry su = RegisterWorkflow env NewWorkflowRegistry wflow (\<lambda>ctx v. perform (f v) env ctx) []"
    and inp: "pg_Decoder s (wf_In wflow) inp = Inr v" "f v = cs_script c"
  shows "runs_course s c (wf_Name wflow) inp su"
  unfolding runs_course_def
proof (intro allI impI)
  fix t :: workflow_task_record and h
  assume "su_registry su (wr_Name (tr_Workflow t)) = Some h"
  then have h: "wh_handler h = (\<lambda>st run. case wrun_IntoInput run (wf_In wflow) of
      Inl e \<Rightarrow> throw (Errorf (''decode workflow payload [id = '' @ env_uuid_string env (wrun_WorkflowID run) @ '']'') e)
    | Inr input \<Rightarrow> runWorkflow env st (wrun_WorkflowID run) input (\<lambda>ctx v. perform (f v) env ctx))"
    by (auto simp: su(3) RegisterWorkflow_def NewWorkflowRegistry_def split: if_splits)
  have run: "runWorkflow env st i v (\<lambda>ctx v. perform (f v) env ctx) = runWorkflow env st i v (\<lambda>ctx _. perform (f v) env ctx)" for st i
    by (simp add: runWorkflow_def)
  show "if wr_ID (tr_Workflow t) = cs_id c
    then wr_Name (tr_Workflow t) = wf_Name wflow \<and> wr_Input (tr_Workflow t) = inp \<longrightarrow>
      (\<exists>input. wh_handler h (su_storage su) (ToWorkflowRun t (pg_Decoder s)) =
         runWorkflow (su_env su) (su_storage su) (cs_id c) input (\<lambda>ctx _. perform (cs_script c) (su_env su) ctx))
    else keeps (rows_kept (course_row (su_env su) s c)) (wh_handler h (su_storage su) (ToWorkflowRun t (pg_Decoder s)))"
    using inp run other_script_keeps [OF law others]
    by (auto simp: h su(1,2) ToWorkflowRun_def NewWorkflowRun_def wrun_IntoInput_def rows_kept_eq
        intro: course.steer.keeps_throw split: sum.split)
qed

section \<open>What the workers keep\<close>

interpretation rows: db_relation "rows_kept row" for row :: "db \<Rightarrow> activity_row \<Rightarrow> bool"
  by unfold_locales (rule rows_kept_refl, rule rows_kept_trans)

lemma course_polls_keep:
  assumes law: "begin_func_law env" and others: "interferes (rows_kept (course_row env s c)) others"
  shows "su_storage su = interleaved others (postgres env s) \<Longrightarrow> workflow_poll su k w = ((b, ts), w') \<Longrightarrow>
      rows_kept (course_row env s c) (store w) (store w') \<and> (\<forall>t \<in> set ts. task_of (store w') t)"
    and "su_storage su' = interleaved others (postgres env s) \<Longrightarrow> activity_poll su' k w = ((b, as), w') \<Longrightarrow>
      rows_kept (course_row env s c) (store w) (store w') \<and> (\<forall>a \<in> set as. activity_of (store w') a)"
proof -
  have e: "pg_lawful (rows_kept (course_row env s c)) (others, env, s)" using law others by simp
  have frame: "kept_frame (rows_kept (course_row env s c)) pg_mk (pg_lawful (rows_kept (course_row env s c)))"
    unfolding rows_kept_eq by (rule course.steer.pg_kept_frame)
  show "rows_kept (course_row env s c) (store w) (store w') \<and> (\<forall>t \<in> set ts. task_of (store w') t)"
    if st: "su_storage su = interleaved others (postgres env s)" and poll: "workflow_poll su k w = ((b, ts), w')"
    using kept_frame.processWorkflowTasks_keeps [OF frame e] workflow_poll_of [OF st poll] poll [unfolded workflow_poll_def st]
    by auto
  show "rows_kept (course_row env s c) (store w) (store w') \<and> (\<forall>a \<in> set as. activity_of (store w') a)"
    if st: "su_storage su' = interleaved others (postgres env s)" and poll: "activity_poll su' k w = ((b, as), w')"
    using kept_frame.processActivities_keeps [OF frame e] activity_poll_of [OF st poll] poll [unfolded activity_poll_def st]
    by auto
qed

lemma course_task_handled:
  assumes law: "begin_func_law env" "wait_group_law env" and settled: "settled (cs_script c) env (cs_id c) (pg_Decoder s)"
    and others: "interferes (rows_kept (course_row env s c)) others"
    and su: "su_env su = env" "su_storage su = interleaved others (postgres env s)" "runs_course s c name inp su"
    and w: "valid_db (store w)" "enqueued (cs_id c) name inp (store w)" "task_of (store w) t"
    and run: "workflow_handle su t w = (r, w')"
  shows "rows_kept (course_row env s c) (store w) (store w')"
proof -
  let ?R = "rows_kept (course_row env s c)" and ?st = "interleaved others (postgres env s)"
  have "keeps ?R (workflow_handle su t)"
  proof (cases "wr_ID (tr_Workflow t) = cs_id c")
    case True
    have "\<exists>input. wh_handler h ?st (ToWorkflowRun t (pg_Decoder s)) =
        runWorkflow env ?st (cs_id c) input (\<lambda>ctx _. perform (cs_script c) env ctx)"
      if "su_registry su (wr_Name (tr_Workflow t)) = Some h" for h
      using su(3) that True enqueued_task [OF w True] unfolding runs_course_def su(1,2) by auto
    then show ?thesis
      unfolding workflow_handle_def su(1,2) by (rule task_keeps [OF law settled others])
  next
    case False
    have e: "pg_lawful ?R (others, env, s)" using law others by simp
    have frame: "kept_frame ?R pg_mk (pg_lawful ?R)" unfolding rows_kept_eq by (rule course.steer.pg_kept_frame)
    have "keeps ?R (wh_handler h (pg_mk (others, env, s)) (ToWorkflowRun t (st_Decoder (pg_mk (others, env, s)))))"
      if "su_registry su (wr_Name (tr_Workflow t)) = Some h" for h
      using su(3) that False unfolding runs_course_def su(1,2) by simp
    from kept_frame.keeps_handleWorkflowTask [OF frame e this] show ?thesis
      by (simp add: workflow_handle_def su(1,2))
  qed
  from keepsD [OF this run] show ?thesis .
qed

lemma course_activity_handled:
  assumes law: "begin_func_law env" and others: "interferes (rows_kept (course_row env s c)) others"
    and su: "su_env su = env" "su_storage su = interleaved others (postgres env s)" "answers_course s c su"
    and a: "activity_of (store w) a" and run: "activity_handle su a w = (r, w')"
  shows "rows_kept (course_row env s c) (store w) (store w')"
proof (rule activity_keeps [OF law others _ _ run [unfolded activity_handle_def su(1,2)]])
  fix h
  assume h: "su_registry su (ar_Name a) = Some h"
  then show "keeps (rows_kept (course_row env s c)) (ah_handler h (ToActivityRun a (pg_Decoder s)))"
    using su(3) unfolding answers_course_def su(1) by blast
  fix out b v v'
  assume "ah_handler h (ToActivityRun a (pg_Decoder s)) v = (Inr out, v')" "encode_nullable s ''encode output'' out = Inr b"
  then have b: "b = cs_out c (ar_IdempotencyKey a)" if "ar_WorkflowID a = cs_id c" "is_call env s c (ar_IdempotencyKey a) (ar_Name a) (ar_Input a)"
    using su(3) h that unfolding answers_course_def su(1) by blast
  from a obtain x where "x \<in> set (activities (store w))" "a_id x = ar_ID a" "a_idempotency_key x = ar_IdempotencyKey a"
    "a_workflow_id x = ar_WorkflowID a" "a_name x = ar_Name a" "a_input x = ar_Input a" by (auto simp: activity_of_def)
  with b show "answers_as env s c (ar_ID a) b (store w)" unfolding answers_as_def by auto
qed

text \<open>
  C2: what is stored of a workflow is a part of its direct execution, whatever happens. Its handler is a
  script, on a database that others use too, and its activities answer as the course says, when they do.
  Let a workflow worker and an activity worker run, in any interleaving of ticks, polls, finishing handlers,
  stop signals and other processes, under any errors and lost answers, with any number of claims of the same
  tasks, beside any other workflows. As long as the workflow's signals are those of the course, all
  that is stored of its activities are calls of the direct execution, each under its own key, by
  its name and on its input, after all earlier calls, and a completed one has recorded its result.
  Both workers give each other, and the others, what they rely on.
\<close>

theorem durable_workers:
  assumes "begin_func_law env" and "wait_group_law env" and "settled (cs_script c) env (cs_id c) (pg_Decoder s)"
    and "interferes (rows_kept (course_row env s c)) others"
    and "su_env ws = env" and "su_storage ws = interleaved others (postgres env s)" and "runs_course s c name inp ws"
    and "su_env as = env" and "su_storage as = interleaved others (postgres env s)" and "answers_course s c as"
    and "valid_db (store w0)" and "enqueued (cs_id c) name inp (store w0)"
    and "worker_reachable (workflow_poll ws) (workflow_handle ws) w0 p w"
    and "worker_reachable (activity_poll as) (activity_handle as) v0 q v"
  shows "rows_kept (course_row env s c) (store w0) (store w) \<and> rows_kept (course_row env s c) (store v0) (store v)"
proof
  let ?R = "rows_kept (course_row env s c)"
  have know: "valid_db d \<and> enqueued (cs_id c) name inp d" if "?R (store w0) d" for d
    using assms(11,12) rows_kept_engine [OF that] engine_keptD(1) enqueued_kept by blast
  show "?R (store w0) (store w)"
    using rows.worker_reachable_records [OF assms(13), where ok = task_of] course_polls_keep(1) [OF assms(1,4,6)]
      course_task_handled [OF assms(1-7)] know task_of_kept rows_kept_engine by blast
  show "?R (store v0) (store v)"
    using rows.worker_reachable_records [OF assms(14), where ok = activity_of] course_polls_keep(2) [OF assms(1,4,9)]
      course_activity_handled [OF assms(1,4,8-10)] activity_of_kept rows_kept_engine by blast
qed

text \<open>So do the clients that enqueue workflows and send signals.\<close>

lemma clients_keep:
  assumes "begin_func_law env" and "interferes (rows_kept (course_row env s c)) others"
  shows "keeps (rows_kept (course_row env s c)) (EnqueueWorkflow env (interleaved others (postgres env s)) txer wflow key input opts)"
    and "keeps (rows_kept (course_row env s c)) (SendSignal env (interleaved others (postgres env s)) txer wid sig input' opts')"
proof -
  have e: "pg_lawful (rows_kept (course_row env s c)) (others, env, s)" using assms by simp
  have frame: "kept_frame (rows_kept (course_row env s c)) pg_mk (pg_lawful (rows_kept (course_row env s c)))"
    unfolding rows_kept_eq by (rule course.steer.pg_kept_frame)
  show "keeps (rows_kept (course_row env s c)) (EnqueueWorkflow env (interleaved others (postgres env s)) txer wflow key input opts)"
    "keeps (rows_kept (course_row env s c)) (SendSignal env (interleaved others (postgres env s)) txer wid sig input' opts')"
    using kept_frame.keeps_EnqueueWorkflow [OF frame e] kept_frame.keeps_SendSignal [OF frame e] by simp_all
qed

text \<open>A worker that polls once and finishes the one task it got.\<close>

lemma one_handled:
  assumes "poll 0 w0 = ((True, [r]), w1)" and "handle r w1 = (res, w2)"
  shows "worker_reachable poll handle w0 Start w2"
  using worker_step.finish [of "Start\<lparr>loop := Waiting, inflight := [r]\<rparr>" "[]" r "[]" handle w1 res w2 poll] assms(2)
  by (auto simp: Start_def intro: worker_reachable.step [OF one_poll [where poll = poll, OF assms(1)]])

definition ref_ws :: "(string, (db, string) workflow_handler_wrapper) deployment" where
  "ref_ws = NewWorkflowWorker ref_env (postgres ref_env ref_pg)
     (RegisterWorkflow ref_env NewWorkflowRegistry ref_wflow ref_script_handler []) DefaultWorkflowWorkerConfig"

definition ref_as :: "(string, (db, string) activity_handler_wrapper) deployment" where
  "ref_as = NewActivityWorker ref_env (postgres ref_env ref_pg)
     (RegisterActivity ref_env NewActivityRegistry ref_act ref_charge []) DefaultActivityWorkerConfig"

definition ref_task_claimed :: "(bool \<times> workflow_task_record list) \<times> db world" where
  "ref_task_claimed = workflow_poll ref_ws 0 ref_world"

definition ref_task_done :: "(error + unit) \<times> db world" where
  "ref_task_done = workflow_handle ref_ws (hd (snd (fst ref_task_claimed))) (snd ref_task_claimed)"

definition ref_activity_claimed :: "(bool \<times> activity_record list) \<times> db world" where
  "ref_activity_claimed = activity_poll ref_as 0 (snd ref_task_done)"

definition ref_activity_done :: "(error + unit) \<times> db world" where
  "ref_activity_done = activity_handle ref_as (hd (snd (fst ref_activity_claimed))) (snd ref_activity_claimed)"

lemma ref_claimed_two:
  "fst (fst ref_task_claimed) \<and> length (snd (fst ref_task_claimed)) = 1"
  "fst (fst ref_activity_claimed) \<and> length (snd (fst ref_activity_claimed)) = 1"
  unfolding ref_activity_claimed_def ref_task_done_def ref_task_claimed_def by code_simp+

lemma ref_claimed_one: "fst (fst x) \<and> length (snd (fst x)) = 1 \<Longrightarrow> x = ((True, [hd (snd (fst x))]), snd x)"
  by (cases x) (auto simp: length_Suc_conv)

lemma ref_reached:
  "worker_reachable (workflow_poll ref_ws) (workflow_handle ref_ws) ref_world Start (snd ref_task_done)"
  "worker_reachable (activity_poll ref_as) (activity_handle ref_as) (snd ref_task_done) Start (snd ref_activity_done)"
  using ref_claimed_one [OF ref_claimed_two(1)] ref_claimed_one [OF ref_claimed_two(2)]
  by (auto simp: ref_task_claimed_def ref_task_done_def ref_activity_claimed_def ref_activity_done_def prod_eq_iff intro!: one_handled)

lemma ref_charge_paid: "activities (store (snd ref_activity_done)) \<noteq> [] \<and>
    list_all (\<lambda>a. a_status a = ActivityCompleted \<and> a_output a = Some ''paid'') (activities (store (snd ref_activity_done)))"
  unfolding ref_activity_done_def ref_activity_claimed_def ref_task_done_def ref_task_claimed_def by code_simp

lemma ref_runs_course: "runs_course ref_pg ref_course ''order'' (Some ''input'') ref_ws"
proof -
  have "runs_course ref_pg ref_course (wf_Name ref_wflow) (Some ''input'') ref_ws"
  proof (rule registered_runs_course [where f = "\<lambda>_. ref_script" and others = id, OF ref_begin_func_law ref_wait_group_law])
    show "interferes (rows_kept (course_row ref_env ref_pg ref_course)) id" by (rule rows.interferes_id)
    show "pg_Decoder ref_pg (wf_In ref_wflow) (Some ''input'') = Inr ''input''" by (simp add: pg_Decoder_def ref_unmarshal_def)
  qed (simp_all add: ref_ws_def ref_script_handler_def [abs_def])
  then show ?thesis by (simp add: ref_wflow_def NewWorkflow_def)
qed

lemma ref_answers_course: "answers_course ref_pg ref_course ref_as"
proof -
  have "ah_handler h (ToActivityRun a (pg_Decoder ref_pg)) = ret (Some ''paid'') \<or>
      (\<exists>e. ah_handler h (ToActivityRun a (pg_Decoder ref_pg)) = throw e)" if "su_registry ref_as (ar_Name a) = Some h" for a h
    using that
    by (cases "arun_IntoInput (ToActivityRun a (pg_Decoder ref_pg)) (act_In ref_act)")
      (auto simp: ref_as_def RegisterActivity_def NewActivityRegistry_def ref_charge_def split: if_splits)
  then show ?thesis
    unfolding answers_course_def by (fastforce simp: encode_nullable_def intro: rows.keeps_ret rows.keeps_throw)
qed

lemma ref_enqueued: "enqueued (cs_id ref_course) ''order'' (Some ''input'') (store ref_world)"
  by (simp add: enqueued_def ref_world_def ref_db_def ref_workflow_def new_workflow_def)

lemma durable_workers_witness:
  "rows_kept (course_row ref_env ref_pg ref_course) (store ref_world) (store (snd ref_task_done)) \<and>
   rows_kept (course_row ref_env ref_pg ref_course) (store (snd ref_task_done)) (store (snd ref_activity_done)) \<and>
   list_all (\<lambda>a. a_status a = ActivityCompleted \<and> a_output a = Some ''paid'') (activities (store (snd ref_activity_done)))"
proof -
  have "settled (cs_script ref_course) ref_env (cs_id ref_course) (pg_Decoder ref_pg)" by (simp add: ref_settled)
  moreover have "interferes (rows_kept (course_row ref_env ref_pg ref_course)) id" by (rule rows.interferes_id)
  ultimately show ?thesis
    using durable_workers [where others = id, OF ref_begin_func_law ref_wait_group_law _ _ _ _ ref_runs_course _ _ ref_answers_course
        ref_world_valid ref_enqueued ref_reached] ref_charge_paid
    by (simp add: ref_ws_def ref_as_def)
qed

end
