(* ===== verification/Order_Properties.thy ===== *)
theory Order_Properties
  imports Example_Order Engine_Properties
begin

text \<open>
  The order workflow: what a run does in each phase of an order, the two workers of the
  program, and a run of the whole program from the order to the end of its workflow.
\<close>

section \<open>The phases of an order\<close>

text \<open>What the engine recorded under a key, decoded at the type the workflow expects.\<close>

definition recorded :: "any events \<Rightarrow> uuid \<Rightarrow> gotype \<Rightarrow> (error + any) option" where
  "recorded evs k t = map_option (\<lambda>e. Get \<lparr>fut_event = Some e, fut_out = t\<rparr>) (evs k)"

datatype order_phase = Charging | Waiting | Declined | Emailing | Notified | Unreadable

definition charge_key :: "('d, any) env \<Rightarrow> uuid \<Rightarrow> uuid" where
  "charge_key env i = activity_IdempotencyKey env ChargeCardActivity i"

definition email_key :: "('d, any) env \<Rightarrow> uuid \<Rightarrow> uuid" where
  "email_key env i = activity_IdempotencyKey env SendEmailActivity i"

definition notify_key :: "('d, any) env \<Rightarrow> uuid \<Rightarrow> uuid" where
  "notify_key env i = signal_IdempotencyKey env NotifySignal i"

definition order_phase :: "('d, any) env \<Rightarrow> uuid \<Rightarrow> any events \<Rightarrow> any events \<Rightarrow> order_phase" where
  "order_phase env i h g =
     (case recorded h (charge_key env i) ''ChargeOutput'' of
        None \<Rightarrow> Charging
      | Some (Inl e) \<Rightarrow> Unreadable
      | Some (Inr c) \<Rightarrow>
          (case recorded g (notify_key env i) ''NotifySignalInput'' of
             None \<Rightarrow> Waiting
           | Some (Inl e) \<Rightarrow> Unreadable
           | Some (Inr n) \<Rightarrow>
               if \<not> ns_ShouldNotify (the_NotifySignalInput n) then Declined
               else (case recorded h (email_key env i) ''EmailOutput'' of
                       None \<Rightarrow> Emailing
                     | Some (Inl e) \<Rightarrow> Unreadable
                     | Some (Inr m) \<Rightarrow> Notified)))"

lemma order_call_keys [simp]:
  "activity_call_key env (NewWorkflowContext i st h g) ChargeCardActivity [WithActivityMaxAttempts n] w = charge_key env i"
  "activity_call_key env (NewWorkflowContext i st h g) SendEmailActivity
     [WithActivityMaxAttempts n, WithActivityScheduledAt at] w = email_key env i"
  by (simp_all add: activity_call_key_def charge_key_def email_key_def NewWorkflowContext_def
      WithActivityMaxAttempts_def WithActivityScheduledAt_def)

lemma order_types [simp]:
  "act_Out ChargeCardActivity = ''ChargeOutput''" "act_Out SendEmailActivity = ''EmailOutput''"
  "act_Name ChargeCardActivity = ''ChargeCard''" "act_Name SendEmailActivity = ''SendEmail''"
  "sig_In NotifySignal = ''NotifySignalInput''"
  by (simp_all add: ChargeCardActivity_def SendEmailActivity_def NotifySignal_def NewActivity_def NewSignal_def)

lemma NewWorkflowContext_sel [simp]:
  "ctx_history (NewWorkflowContext i st h g) = h" "ctx_signals (NewWorkflowContext i st h g) = g"
  "ctx_storage (NewWorkflowContext i st h g) = st" "ctx_workflowID (NewWorkflowContext i st h g) = i"
  by (simp_all add: NewWorkflowContext_def)

text \<open>The calls of the workflow, from what is recorded.\<close>

lemma order_charge_recorded:
  "recorded h (charge_key env i) ''ChargeOutput'' = Some r \<Longrightarrow>
     ExecuteActivity env (NewWorkflowContext i st h g) ChargeCardActivity inp [WithActivityMaxAttempts n] w = (r, w)"
  by (auto simp: recorded_def ExecuteActivity_history)

lemma order_email_recorded:
  "recorded h (email_key env i) ''EmailOutput'' = Some r \<Longrightarrow>
     ExecuteActivity env (NewWorkflowContext i st h g) SendEmailActivity inp
       [WithActivityMaxAttempts n, WithActivityScheduledAt at] w = (r, w)"
  by (auto simp: recorded_def ExecuteActivity_history)

lemma order_signal_recorded:
  "ReceiveSignal env (NewWorkflowContext i st h g) NotifySignal [] w =
     (case recorded g (notify_key env i) ''NotifySignalInput'' of None \<Rightarrow> Inl ErrWorkflowSuspended | Some r \<Rightarrow> r, w)"
  by (auto simp: recorded_def ReceiveSignal_def ReceiveSignalAsync_def notify_key_def defaultSignalOptionsFor_def
      bindE_def Let_def split: option.split)

text \<open>A stored call: a pending activity with the call's key, input, limit and time.\<close>

definition call_stored :: "any pg_storage \<Rightarrow> uuid \<Rightarrow> uuid \<Rightarrow> string \<Rightarrow> any \<Rightarrow> instant \<Rightarrow> db \<Rightarrow> db \<Rightarrow> bool" where
  "call_stored s key wid name inp at d d' \<longleftrightarrow> key \<notin> a_idempotency_key ` set (activities d) \<and>
     (\<exists>a. d' = d\<lparr>activities := activities d @ [a]\<rparr> \<and> a_idempotency_key a = key \<and> a_name a = name \<and>
        a_workflow_id a = wid \<and> a_status a = ActivityPending \<and> a_attempts a = 0 \<and> a_max_attempts a = 3 \<and>
        a_scheduled_at a = at \<and> encode_nullable s ''encode input'' (Some inp) = Inr (a_input a))"

lemma sql_insert_activity_call:
  assumes "sql_insert_activity i key wid name b p 3 ms at q d = Inr (n, d')" and "encode_nullable s ''encode input'' (Some inp) = Inr b"
  shows "d' = d \<or> call_stored s key wid name inp at d d'"
  using assms(1)
proof (cases rule: sql_insert_activity_ok)
  case inserted
  then have "call_stored s key wid name inp at d d'"
    unfolding call_stored_def
    by (intro conjI exI [of _ "new_activity (q_now q) i key wid name b p 3 ms at"]) (simp_all add: new_activity_def assms(2))
  then show ?thesis ..
qed simp

lemma InsertActivity_call:
  assumes "InsertActivity env s name i key wid (Some inp) o' w = (r, w')" and "ao_maxAttempts o' = 3"
  shows "store w' = store w \<or> call_stored s key wid name inp (ao_scheduledAt o') (store w) (store w')"
  using assms
  by (cases r; auto simp: InsertActivity_def bindE_ok bindE_err wrapE_err exec_ok ao_MaxAttempts_def ao_ScheduledAt_def
      dest!: exec_err sql_insert_activity_call)

lemma charge_call:
  assumes "recorded h (charge_key env i) ''ChargeOutput'' = None"
    and "ExecuteActivity env (NewWorkflowContext i (postgres env s) h g) ChargeCardActivity (Some inp) [WithActivityMaxAttempts 3] w = (r, w')"
  shows "(\<exists>e. r = Inl e) \<and> (store w' = store w \<or>
    call_stored s (charge_key env i) i ''ChargeCard'' inp (env_go_now env (ticks w)) (store w) (store w'))"
proof -
  from assms(1) have none: "h (charge_key env i) = None" by (simp add: recorded_def)
  with assms(2) obtain j r1 where "InsertActivity env s ''ChargeCard'' j (charge_key env i) i (Some inp)
      \<lparr>ao_idempotencyKey = charge_key env i, ao_priority = 0, ao_maxAttempts = 3, ao_stuckTimeout = Minute * 5,
       ao_scheduledAt = env_go_now env (ticks w)\<rparr> (w\<lparr>ticks := Suc (ticks w)\<rparr>) = (r1, w')" and r: "\<exists>e. r = Inl e"
    by (auto simp: ExecuteActivity_def ExecuteActivityAsync_def bindE_def wrapE_def Let_def Get_def charge_key_def
        WithActivityMaxAttempts_def split: prod.splits sum.splits)
  from InsertActivity_call [OF this(1)] r show ?thesis by simp
qed

lemma email_call:
  assumes "recorded h (email_key env i) ''EmailOutput'' = None"
    and "ExecuteActivity env (NewWorkflowContext i (postgres env s) h g) SendEmailActivity (Some inp)
      [WithActivityMaxAttempts 3, WithActivityScheduledAt at] w = (r, w')"
  shows "(\<exists>e. r = Inl e) \<and> (store w' = store w \<or>
    call_stored s (email_key env i) i ''SendEmail'' inp at (store w) (store w'))"
proof -
  from assms(1) have none: "h (email_key env i) = None" by (simp add: recorded_def)
  with assms(2) obtain j r1 where "InsertActivity env s ''SendEmail'' j (email_key env i) i (Some inp)
      \<lparr>ao_idempotencyKey = email_key env i, ao_priority = 0, ao_maxAttempts = 3, ao_stuckTimeout = Minute * 5,
       ao_scheduledAt = at\<rparr> (w\<lparr>ticks := Suc (ticks w)\<rparr>) = (r1, w')" and r: "\<exists>e. r = Inl e"
    by (auto simp: ExecuteActivity_def ExecuteActivityAsync_def bindE_def wrapE_def Let_def Get_def email_key_def
        WithActivityMaxAttempts_def WithActivityScheduledAt_def split: prod.splits sum.splits)
  from InsertActivity_call [OF this(1)] r show ?thesis by simp
qed

text \<open>What a run must do in each phase.\<close>

definition order_promise ::
    "(db, any) env \<Rightarrow> any pg_storage \<Rightarrow> uuid \<Rightarrow> order_input \<Rightarrow> any events \<Rightarrow> any events \<Rightarrow> db world \<Rightarrow>
     error + unit \<Rightarrow> db \<Rightarrow> bool" where
  "order_promise env s i inp h g w r d' =
     (case order_phase env i h g of
        Charging \<Rightarrow> (\<exists>e. r = Inl e) \<and> (d' = store w \<or>
          call_stored s (charge_key env i) i ''ChargeCard''
            (AnyChargeInput \<lparr>ci_UserID = oi_UserID inp, ci_Amount = oi_Amount inp\<rparr>) (env_go_now env (ticks w)) (store w) d')
      | Waiting \<Rightarrow> (\<exists>e. r = Inl e \<and> errors_Is_suspended e) \<and> d' = store w
      | Declined \<Rightarrow> r = Inr () \<and> d' = store w
      | Emailing \<Rightarrow> (\<exists>e. r = Inl e) \<and> (d' = store w \<or>
          (\<exists>c. recorded h (charge_key env i) ''ChargeOutput'' = Some (Inr c) \<and>
             call_stored s (email_key env i) i ''SendEmail''
               (AnyEmailInput \<lparr>ei_UserID = oi_UserID inp, ei_IsCharged = co_IsCharged (the_ChargeOutput c),
                  ei_ChargedAmount = co_ChargedAmount (the_ChargeOutput c)\<rparr>)
               (env_go_now env (ticks w) + 30000000000) (store w) d'))
      | Notified \<Rightarrow> r = Inr () \<and> d' = store w
      | Unreadable \<Rightarrow> (\<exists>e. r = Inl e) \<and> d' = store w)"

lemma half_minute: "time_Add t (Second * 30) = t + 30000000000"
  by (simp add: time_Add_def Second_def Millisecond_def)

lemma suspended_notify: "errors_Is_suspended (WrapError m ErrWorkflowSuspended)"
  by (simp add: errors_Is_suspended_def)

lemma order_run_charging:
  assumes "recorded h (charge_key env i) ''ChargeOutput'' = None"
    and "RunOrderWorkflow env (NewWorkflowContext i (postgres env s) h g) inp w = (r, w')"
  shows "(\<exists>e. r = Inl e) \<and> (store w' = store w \<or> call_stored s (charge_key env i) i ''ChargeCard''
      (AnyChargeInput \<lparr>ci_UserID = oi_UserID inp, ci_Amount = oi_Amount inp\<rparr>) (env_go_now env (ticks w)) (store w) (store w'))"
proof -
  let ?call = "ExecuteActivity env (NewWorkflowContext i (postgres env s) h g) ChargeCardActivity
      (Some (AnyChargeInput \<lparr>ci_UserID = oi_UserID inp, ci_Amount = oi_Amount inp\<rparr>)) [WithActivityMaxAttempts 3] w"
  obtain r1 w1 where run: "?call = (r1, w1)" by fastforce
  note call = charge_call [OF assms(1) run]
  then obtain e where "r1 = Inl e" by blast
  with run assms(2) have "w' = w1 \<and> (\<exists>e. r = Inl e)"
    by (auto simp: RunOrderWorkflow_def bindE_def wrapE_def)
  with call show ?thesis by simp
qed

lemma order_run_emailing:
  assumes c: "recorded h (charge_key env i) ''ChargeOutput'' = Some (Inr c)"
    and n: "recorded g (notify_key env i) ''NotifySignalInput'' = Some (Inr n)" "ns_ShouldNotify (the_NotifySignalInput n)"
    and m: "recorded h (email_key env i) ''EmailOutput'' = None"
    and run: "RunOrderWorkflow env (NewWorkflowContext i (postgres env s) h g) inp w = (r, w')"
  shows "(\<exists>e. r = Inl e) \<and> (store w' = store w \<or> call_stored s (email_key env i) i ''SendEmail''
      (AnyEmailInput \<lparr>ei_UserID = oi_UserID inp, ei_IsCharged = co_IsCharged (the_ChargeOutput c),
         ei_ChargedAmount = co_ChargedAmount (the_ChargeOutput c)\<rparr>)
      (env_go_now env (ticks w) + 30000000000) (store w) (store w'))"
proof -
  let ?call = "ExecuteActivity env (NewWorkflowContext i (postgres env s) h g) SendEmailActivity
      (Some (AnyEmailInput \<lparr>ei_UserID = oi_UserID inp, ei_IsCharged = co_IsCharged (the_ChargeOutput c),
         ei_ChargedAmount = co_ChargedAmount (the_ChargeOutput c)\<rparr>))
      [WithActivityMaxAttempts 3, WithActivityScheduledAt (env_go_now env (ticks w) + 30000000000)] w"
  obtain r1 w1 where call: "?call = (r1, w1)" by fastforce
  note eff = email_call [OF m call]
  then obtain e where "r1 = Inl e" by blast
  with call run have "w' = w1 \<and> (\<exists>e. r = Inl e)"
    by (auto simp: RunOrderWorkflow_def bindE_def wrapE_def tryE_def Let_def half_minute n
        order_charge_recorded [OF c] order_signal_recorded)
  with eff show ?thesis by simp
qed

lemma order_run_promise:
  assumes "RunOrderWorkflow env (NewWorkflowContext i (postgres env s) h g) inp w = (r, w')"
  shows "order_promise env s i inp h g w r (store w')"
proof (cases "recorded h (charge_key env i) ''ChargeOutput''")
  case None
  with order_run_charging [OF None assms] show ?thesis by (simp add: order_promise_def order_phase_def)
next
  case charge: (Some rc)
  show ?thesis
  proof (cases rc)
    case (Inl e)
    with charge assms show ?thesis
      by (auto simp: RunOrderWorkflow_def bindE_def wrapE_def order_charge_recorded order_promise_def order_phase_def)
  next
    case (Inr c)
    note charge = charge [unfolded Inr]
    show ?thesis
    proof (cases "recorded g (notify_key env i) ''NotifySignalInput''")
      case None
      with assms show ?thesis
        by (auto simp: RunOrderWorkflow_def bindE_def wrapE_def tryE_def Let_def order_charge_recorded [OF charge]
            order_signal_recorded order_promise_def order_phase_def charge suspended_notify)
    next
      case notify: (Some rn)
      show ?thesis
      proof (cases rn)
        case (Inl e)
        with notify assms show ?thesis
          by (auto simp: RunOrderWorkflow_def bindE_def wrapE_def tryE_def Let_def order_charge_recorded [OF charge]
              order_signal_recorded order_promise_def order_phase_def charge)
      next
        case (Inr n)
        note notify = notify [unfolded Inr]
        show ?thesis
        proof (cases "ns_ShouldNotify (the_NotifySignalInput n) \<and> recorded h (email_key env i) ''EmailOutput'' = None")
          case True
          with order_run_emailing [OF charge notify _ _ assms] show ?thesis
            by (simp add: order_promise_def order_phase_def charge notify)
        next
          case False
          with assms show ?thesis
            by (auto simp: RunOrderWorkflow_def bindE_def wrapE_def tryE_def Let_def order_charge_recorded [OF charge]
                order_signal_recorded order_promise_def order_phase_def charge notify half_minute order_email_recorded
                split: sum.splits)
        qed
      qed
    qed
  qed
qed

text \<open>
  C18: a run of the order workflow does exactly what the phase of its order asks for. It
  stores the charge with the order's user and amount; it waits for the signal without an
  effect; it ends when the customer is not to be notified; otherwise it stores the
  notification, with the recorded charge, for half a minute later; and it ends once the
  notification was sent. No phase but the first stores a charge: the customer is charged
  once, however often the workflow is replayed.
\<close>

theorem RunOrderWorkflow_phases:
  assumes "RunOrderWorkflow env (NewWorkflowContext i (postgres env s) h g) inp w = (r, w')"
  shows "order_promise env s i inp h g w r (store w')"
  using assms by (rule order_run_promise)

end
