(* ===== verification/Order_Script.thy ===== *)
theory Order_Script
  imports Order_Properties Durable_Properties
begin

text \<open>
  The order workflow as a script, to which the theorems on durable execution apply, and its direct
  execution.
\<close>

definition order_script :: "order_input \<Rightarrow> any script" where
  "order_script inp =
     Call ChargeCardActivity (AnyChargeInput \<lparr>ci_UserID = oi_UserID inp, ci_Amount = oi_Amount inp\<rparr>)
       [WithActivityMaxAttempts 3] (Errorf ''charge card'')
     (\<lambda>v. Await NotifySignal [] (\<lambda>err. WrapError (''can not handle notify signal '' @ Error err) err)
     (\<lambda>n. if \<not> ns_ShouldNotify (the_NotifySignalInput n) then Finish (Inr ())
       else Clock (\<lambda>now.
         Call SendEmailActivity (AnyEmailInput \<lparr>ei_UserID = oi_UserID inp, ei_IsCharged = co_IsCharged (the_ChargeOutput v),
             ei_ChargedAmount = co_ChargedAmount (the_ChargeOutput v)\<rparr>)
           [WithActivityMaxAttempts 3, WithActivityScheduledAt (time_Add now (Second * 30))] (Errorf ''notify customer'')
         (\<lambda>m. Finish (Inr ())))))"

lemma bindE_wrapE: "bindE (wrapE l m) k = tryE m (\<lambda>e. throw (Errorf l e)) k"
  by (auto simp: fun_eq_iff bindE_def wrapE_def tryE_def split: prod.split sum.split)

lemma ret_liftE: "ret x = liftE (Inr x)"
  by (simp add: fun_eq_iff)

lemma order_options_stable: "stable_key [WithActivityMaxAttempts n]" "stable_key [WithActivityMaxAttempts n, WithActivityScheduledAt at]"
  by (simp_all add: stable_key_def WithActivityMaxAttempts_def WithActivityScheduledAt_def)

lemma order_keys [simp]:
  "activity_key env i ChargeCardActivity [WithActivityMaxAttempts n] = charge_key env i"
  "activity_key env i SendEmailActivity [WithActivityMaxAttempts n, WithActivityScheduledAt at] = email_key env i"
  "signal_key env i NotifySignal [] = notify_key env i"
  by (simp_all add: activity_key_def signal_key_def charge_key_def email_key_def notify_key_def
      WithActivityMaxAttempts_def WithActivityScheduledAt_def defaultSignalOptionsFor_def)

text \<open>The calls of an order.\<close>

definition charge_step :: "(db, any) env \<Rightarrow> uuid \<Rightarrow> order_input \<Rightarrow> any step" where
  "charge_step env i inp = Activity_Step (charge_key env i) ''ChargeCard''
     (AnyChargeInput \<lparr>ci_UserID = oi_UserID inp, ci_Amount = oi_Amount inp\<rparr>)"

definition email_step :: "(db, any) env \<Rightarrow> uuid \<Rightarrow> order_input \<Rightarrow> charge_output \<Rightarrow> any step" where
  "email_step env i inp charged = Activity_Step (email_key env i) ''SendEmail''
     (AnyEmailInput \<lparr>ei_UserID = oi_UserID inp, ei_IsCharged = co_IsCharged charged, ei_ChargedAmount = co_ChargedAmount charged\<rparr>)"

lemma order_performs: "RunOrderWorkflow_any env ctx v = perform (order_script (the_OrderInput v)) env ctx"
  by (simp add: RunOrderWorkflow_any_def RunOrderWorkflow_def order_script_def bindE_wrapE ret_liftE Let_def
      if_distrib [of "\<lambda>s. perform s env ctx"] cong: if_cong)

lemma order_settled: "settled (order_script inp) env i dec"
  by (simp add: order_script_def order_options_stable)

lemma order_direct:
  "direct (order_script inp) env i dec out sg =
     asks (charge_step env i inp) (Errorf ''charge card'') (answer dec ''ChargeOutput'' out (charge_key env i)) (\<lambda>c.
     asks (Signal_Step (notify_key env i)) (\<lambda>e. WrapError (''can not handle notify signal '' @ Error e) e)
       (answer dec ''NotifySignalInput'' sg (notify_key env i)) (\<lambda>n.
     if \<not> ns_ShouldNotify (the_NotifySignalInput n) then ([], Inr ())
     else asks (email_step env i inp (the_ChargeOutput c)) (Errorf ''notify customer'')
       (answer dec ''EmailOutput'' out (email_key env i)) (\<lambda>m. ([], Inr ()))))"
  by (simp add: order_script_def charge_step_def email_step_def Let_def
      if_distrib [of "\<lambda>s. direct s env i dec out sg"] cong: if_cong)

text \<open>
  C17: the handler of the order workflow is a script that the engine can replay, and its direct execution
  charges the card, receives the signal, and, if the signal asks for it, sends the email that tells the
  result of the charge; the first error ends it, wrapped.
\<close>

theorem order_is_script:
  "RunOrderWorkflow_any env ctx v = perform (order_script (the_OrderInput v)) env ctx \<and> settled (order_script inp) env i dec \<and>
   direct (order_script inp) env i dec out sg =
     asks (charge_step env i inp) (Errorf ''charge card'') (answer dec ''ChargeOutput'' out (charge_key env i)) (\<lambda>c.
     asks (Signal_Step (notify_key env i)) (\<lambda>e. WrapError (''can not handle notify signal '' @ Error e) e)
       (answer dec ''NotifySignalInput'' sg (notify_key env i)) (\<lambda>n.
     if \<not> ns_ShouldNotify (the_NotifySignalInput n) then ([], Inr ())
     else asks (email_step env i inp (the_ChargeOutput c)) (Errorf ''notify customer'')
       (answer dec ''EmailOutput'' out (email_key env i)) (\<lambda>m. ([], Inr ()))))"
  by (intro conjI order_performs order_settled order_direct)

end
