(* ===== verification/Order_Program.thy ===== *)
theory Order_Program
  imports Order_Properties Poller_Properties Lifecycle_Properties
begin

text \<open>
  The example program as a whole: its two workers, its client and the goroutine of the
  client interleave on one store, between the storage calls of other processes. The locale
  \<open>main_kept\<close> is what a relation between databases needs for the whole process to keep it when
  the others do; its first provider are the sequences of storage calls themselves.
\<close>

section \<open>The parts of the program\<close>

lemma order_handlers:
  "su_registry (main_workflow_worker env others) name = Some h \<Longrightarrow> wh_handler h = (\<lambda>st run.
     case wrun_IntoInput run (wf_In OrderWorkflow) of
       Inl e \<Rightarrow> throw (Errorf (''decode workflow payload [id = '' @ env_uuid_string env (wrun_WorkflowID run) @ '']'') e)
     | Inr input \<Rightarrow> runWorkflow env st (wrun_WorkflowID run) input (RunOrderWorkflow_any env))"
  by (auto simp: main_workflow_worker_def example_RegisterWorkflow_def RegisterWorkflow_def NewWorkflowRegistry_def
      split: if_splits)

lemma main_workers [simp]:
  "su_env (main_workflow_worker env others) = env" "su_storage (main_workflow_worker env others) = main_storage env others"
  "su_env (main_activity_worker env others) = env" "su_storage (main_activity_worker env others) = main_storage env others"
  "su_config (main_workflow_worker env others) = main_config" "su_config (main_activity_worker env others) = main_config"
  "Concurrency (Poll main_config) = 5"
  by (simp_all add: main_workflow_worker_def main_activity_worker_def main_config_def)

lemma order_activities_pure:
  "su_registry (main_activity_worker env others) name = Some h \<Longrightarrow> store (snd (ah_handler h run w)) = store w"
  by (auto simp: main_activity_worker_def example_RegisterWorkflow_def RegisterActivity_def
      NewActivityRegistry_def WithActivityBackoffCalculator_def ChargeCard_any_def SendEmail_any_def ChargeCard_def SendEmail_def
      bindE_def split: if_splits sum.split)

lemma keeps_order_activities:
  "(\<And>d. R d d) \<Longrightarrow> su_registry (main_activity_worker env others) name = Some h \<Longrightarrow> keeps R (ah_handler h run)"
  by (simp add: keeps_def order_activities_pure)

text \<open>The contracts of the storage, at the type of the program's payloads.\<close>

locale order_frame = kept_frame R mk lawful
  for R :: "db \<Rightarrow> db \<Rightarrow> bool" and mk :: "'e \<Rightarrow> (db, any) storage" and lawful :: "'e \<Rightarrow> bool"
begin

lemma keeps_client:
  assumes "lawful e" and "postgres env (NewStorage env []) = mk e"
  shows "keeps R (main_enqueue cl env)"
    and "keeps R (notify_goroutine cl env (postgres env (NewStorage env [])) StorageDb wid)"
proof -
  have "keeps R (tryE (SendSignal env (mk e) txer i sig v opts) (\<lambda>e. ret ()) (\<lambda>_. ret ()))" for txer i sig v opts
    by (intro keeps_intros keeps_SendSignal assms(1))
  then show "keeps R (notify_goroutine cl env (postgres env (NewStorage env [])) StorageDb wid)"
    by (simp add: keeps_def notify_goroutine_def assms(2))
  have "keeps R (bindE (EnqueueWorkflow env (mk e) StorageDb OrderWorkflow key v opts)
      (\<lambda>i. ret (notify_goroutine cl env (mk e) StorageDb i)))" for key v opts
    by (intro keeps_intros keeps_EnqueueWorkflow assms(1))
  then have "keeps R (\<lambda>w. bindE (EnqueueWorkflow env (mk e) StorageDb OrderWorkflow key (v w) opts)
      (\<lambda>i. ret (notify_goroutine cl env (mk e) StorageDb i)) w)" for key v opts
    by (simp add: keeps_def)
  then show "keeps R (main_enqueue cl env)"
    unfolding main_enqueue_def EnqueueOrderWorkflow_def assms(2) by (intro keeps_intros)
qed

lemma main_polls_keep:
  assumes "lawful e" and "main_storage env others = mk e"
  shows "workflow_poll (main_workflow_worker env others) k w = (x, w') \<Longrightarrow> R (store w) (store w')"
    and "activity_poll (main_activity_worker env others) k w = (y, w') \<Longrightarrow> R (store w) (store w')"
  using processWorkflowTasks_keeps [OF assms(1)] processActivities_keeps [OF assms(1)]
  by (simp_all add: workflow_poll_def activity_poll_def assms(2))

end

locale order_storage = order_frame R mk lawful + kept_storage R mk lawful
  for R :: "db \<Rightarrow> db \<Rightarrow> bool" and mk :: "'e \<Rightarrow> (db, any) storage" and lawful :: "'e \<Rightarrow> bool"
begin

lemma keeps_order_activity_handle:
  assumes "lawful e" and "main_storage env others = mk e"
  shows "keeps R (activity_handle (main_activity_worker env others) a)"
  unfolding activity_handle_def main_workers assms(2)
  by (intro keeps_handleActivity assms(1) keeps_order_activities R_refl)

lemma keeps_RunOrderWorkflow:
  assumes "lawful e" and "ctx_storage ctx = mk e"
  shows "keeps R (RunOrderWorkflow env ctx inp)"
  unfolding RunOrderWorkflow_def Let_def by (intro keeps_intros keeps_ExecuteActivity [OF assms] keeps_ReceiveSignal)

lemma keeps_order_task_handle:
  assumes e: "lawful e" and st: "main_storage env others = mk e" and law: "wait_group_law env"
  shows "keeps R (workflow_handle (main_workflow_worker env others) t)"
proof -
  have "keeps R (runWorkflow env (mk e) i inp (RunOrderWorkflow_any env))" for i inp
    by (rule keeps_runWorkflow [OF e law]) (simp add: RunOrderWorkflow_any_def keeps_RunOrderWorkflow [OF e])
  then show ?thesis
    unfolding workflow_handle_def main_workers st
    by (intro keeps_handleWorkflowTask e) (auto simp: order_handlers keeps_throw split: sum.split)
qed

end

interpretation order_reach: order_storage "engine_reach env s" "\<lambda>others. interleaved others (postgres env s)"
  "interferes (engine_reach env s)" for env :: "(db, any) env" and s :: "any pg_storage"
  by unfold_locales

interpretation order_valid: order_storage valid_kept pg_mk "pg_lawful valid_kept"
  by unfold_locales

section \<open>What the whole process keeps\<close>

text \<open>
  The others may do what the process itself does: a relation \<open>R\<close> bounds both. The records in
  flight agree with the database, which the polls establish and \<open>R\<close> keeps.
\<close>

locale main_kept =
  fixes R :: "(db, any) env \<Rightarrow> db \<Rightarrow> db \<Rightarrow> bool" and lawful :: "(db, any) env \<Rightarrow> bool"
    and task_ok :: "db \<Rightarrow> workflow_task_record \<Rightarrow> bool" and activity_ok :: "db \<Rightarrow> activity_record \<Rightarrow> bool"
  assumes relation: "step_relation (R env)"
    and enqueue: "lawful env \<Longrightarrow> keeps (R env) (main_enqueue cl env)"
    and notify: "lawful env \<Longrightarrow> keeps (R env) (notify_goroutine cl env (postgres env (NewStorage env [])) StorageDb i)"
    and task_stable: "R env d d' \<Longrightarrow> task_ok d t \<Longrightarrow> task_ok d' t"
    and activity_stable: "R env d d' \<Longrightarrow> activity_ok d a \<Longrightarrow> activity_ok d' a"
    and task_poll: "lawful env \<Longrightarrow> interferes (R env) others \<Longrightarrow>
      workflow_poll (main_workflow_worker env others) k w = ((b, ts), w') \<Longrightarrow>
      R env (store w) (store w') \<and> (\<forall>t \<in> set ts. task_ok (store w') t)"
    and activity_poll: "lawful env \<Longrightarrow> interferes (R env) others \<Longrightarrow>
      activity_poll (main_activity_worker env others) k w = ((b, as), w') \<Longrightarrow>
      R env (store w) (store w') \<and> (\<forall>a \<in> set as. activity_ok (store w') a)"
    and task_handle: "lawful env \<Longrightarrow> interferes (R env) others \<Longrightarrow> task_ok (store w) t \<Longrightarrow>
      workflow_handle (main_workflow_worker env others) t w = (r, w') \<Longrightarrow> R env (store w) (store w')"
    and activity_handle: "lawful env \<Longrightarrow> interferes (R env) others \<Longrightarrow> activity_ok (store w) a \<Longrightarrow>
      activity_handle (main_activity_worker env others) a w = (r, w') \<Longrightarrow> R env (store w) (store w')"
begin

lemma R_refl: "R env d d" and R_trans: "R env d1 d2 \<Longrightarrow> R env d2 d3 \<Longrightarrow> R env d1 d3"
  using relation [of env] by (simp_all add: step_relation_def)

definition process_ok :: "client_env \<Rightarrow> (db, any) env \<Rightarrow> process \<Rightarrow> db \<Rightarrow> bool" where
  "process_ok cl env p d \<longleftrightarrow>
     (\<forall>g. sender p = Some g \<longrightarrow> (\<exists>i. g = notify_goroutine cl env (postgres env (NewStorage env [])) StorageDb i)) \<and>
     (\<forall>t \<in> set (inflight (workflow_loop p)). task_ok d t) \<and> (\<forall>a \<in> set (inflight (activity_loop p)). activity_ok d a)"

lemma process_ok_stable: "process_ok cl env p d \<Longrightarrow> R env d d' \<Longrightarrow> process_ok cl env p d'"
  unfolding process_ok_def using task_stable activity_stable by blast

lemma step_keeps:
  assumes law: "lawful env" and "main_step cl env (R env) (p, w) (p', w')" and ok: "process_ok cl env p (store w)"
  shows "R env (store w) (store w') \<and> process_ok cl env p' (store w')"
  using assms(2)
proof (cases rule: main_step.cases)
  case (enqueued g)
  moreover have "\<exists>i. g = notify_goroutine cl env (postgres env (NewStorage env [])) StorageDb i"
    using enqueued by (auto simp: main_enqueue_def EnqueueOrderWorkflow_def bindE_ok)
  moreover have "R env (store w) (store w')" using enqueued keepsD [OF enqueue [OF law]] by blast
  ultimately show ?thesis using process_ok_stable [OF ok] by (simp add: process_ok_def)
next
  case (not_enqueued e)
  moreover from this have "R env (store w) (store w')" using keepsD [OF enqueue [OF law]] by blast
  ultimately show ?thesis using process_ok_stable [OF ok] by (simp add: process_ok_def)
next
  case (send g r)
  moreover from this ok obtain i where "g = notify_goroutine cl env (postgres env (NewStorage env [])) StorageDb i"
    by (auto simp: process_ok_def)
  ultimately have "R env (store w) (store w')" using keepsD [OF notify [OF law]] by blast
  with send show ?thesis using process_ok_stable [OF ok] by (simp add: process_ok_def)
next
  case (activity others s)
  have "R env (store w) (store w') \<and> (\<forall>a \<in> set (inflight s). activity_ok (store w') a)"
    using relation activity(4) [unfolded activity_worker_step_def]
  proof (rule step_relation.worker_step_keeps)
    show "R env d d' \<Longrightarrow> activity_ok d a \<Longrightarrow> activity_ok d' a" for d d' a by (rule activity_stable)
  qed (use activity_poll [OF law activity(3)] activity_handle [OF law activity(3)] ok in \<open>auto simp: process_ok_def\<close>)
  with activity show ?thesis using process_ok_stable [OF ok, of "store w'"] by (simp add: process_ok_def)
next
  case (workflow others s)
  have "R env (store w) (store w') \<and> (\<forall>t \<in> set (inflight s). task_ok (store w') t)"
    using relation workflow(4) [unfolded workflow_worker_step_def]
  proof (rule step_relation.worker_step_keeps)
    show "R env d d' \<Longrightarrow> task_ok d t \<Longrightarrow> task_ok d' t" for d d' t by (rule task_stable)
  qed (use task_poll [OF law workflow(3)] task_handle [OF law workflow(3)] ok in \<open>auto simp: process_ok_def\<close>)
  with workflow show ?thesis using process_ok_stable [OF ok, of "store w'"] by (simp add: process_ok_def)
next
  case others
  then show ?thesis using process_ok_stable [OF ok] by blast
qed (use ok R_refl in \<open>simp_all add: process_ok_def\<close>)

lemma reachable_keeps:
  assumes law: "lawful env" and "main_reachable cl env (R env) w0 p w"
  shows "R env (store w0) (store w) \<and> process_ok cl env p (store w)"
  using assms(2)
proof (induction rule: main_reachable.induct)
  case started
  show ?case by (simp add: R_refl process_ok_def main_started_def Start_def)
next
  case (step p w p' w')
  then show ?case using step_keeps [OF law step(2)] R_trans by blast
qed

end

text \<open>The process does nothing but call the storage, if the others do nothing else.\<close>

interpretation reached: main_kept "\<lambda>env. engine_reach env (NewStorage env [])" wait_group_law "\<lambda>d t. True" "\<lambda>d a. True"
proof unfold_locales
  fix env :: "(db, any) env" and others :: "db world \<Rightarrow> db world"
  let ?R = "engine_reach env (NewStorage env [])"
  have alone: "interferes ?R id" "postgres env (NewStorage env []) = interleaved id (postgres env (NewStorage env []))"
    by (simp_all add: reach_steps.interferes_id)
  show "keeps ?R (main_enqueue cl env)" "keeps ?R (notify_goroutine cl env (postgres env (NewStorage env [])) StorageDb i)" for cl i
    by (rule order_reach.keeps_client [OF alone])+
  assume others: "interferes ?R others"
  note st = others main_storage_def
  show "workflow_poll (main_workflow_worker env others) k w = ((b, ts), w') \<Longrightarrow> ?R (store w) (store w') \<and> (\<forall>t \<in> set ts. True)"
    "activity_poll (main_activity_worker env others) k w = ((b, as), w') \<Longrightarrow> ?R (store w) (store w') \<and> (\<forall>t \<in> set as. True)"
    for k w b ts w' as
    using order_reach.main_polls_keep [OF st] by blast+
  show "activity_handle (main_activity_worker env others) a w = (r, w') \<Longrightarrow> ?R (store w) (store w')" for a w r w'
    by (rule keepsD [OF order_reach.keeps_order_activity_handle [OF st]])
  show "wait_group_law env \<Longrightarrow> workflow_handle (main_workflow_worker env others) t w = (r, w') \<Longrightarrow> ?R (store w) (store w')" for t w r w'
    by (rule keepsD [OF order_reach.keeps_order_task_handle [OF st]])
qed (auto intro: engine_reach_refl engine_reach_trans)

section \<open>Safety\<close>

lemma main_capacity [simp]:
  "capacity_of (main_workflow_worker env others) = 5" "capacity_of (main_activity_worker env others) = 5"
  by (simp_all add: capacity_of_def)

lemma main_workers_lawful:
  assumes "begin_func_law env" and "wait_group_law env" and "interferes valid_kept others"
  shows "lawful_workflow_worker (main_workflow_worker env others)" and "lawful_activity_worker (main_activity_worker env others)"
proof -
  have e: "pg_lawful valid_kept (others, env, NewStorage env [])" using assms by simp
  have "keeps valid_kept (runWorkflow env (main_storage env others) i inp (RunOrderWorkflow_any env))" for i inp
    using valid.pgst.keeps_runWorkflow [OF e assms(2)] order_valid.keeps_RunOrderWorkflow [OF e]
    by (simp add: main_storage_def RunOrderWorkflow_any_def)
  moreover have "shared_postgres valid_kept (main_workflow_worker env others)" "shared_postgres valid_kept (main_activity_worker env others)"
    using assms unfolding shared_postgres_def main_workers by (auto simp: main_storage_def)
  ultimately show "lawful_workflow_worker (main_workflow_worker env others)" and "lawful_activity_worker (main_activity_worker env others)"
    using keeps_order_activities [where R = valid_kept, OF valid.R_refl]
    by (auto simp: lawful_workflow_worker_def lawful_activity_worker_def order_handlers valid.keeps_throw split: sum.split)
qed

definition five_slots :: "'r worker \<Rightarrow> bool" where
  "five_slots s \<longleftrightarrow> length (inflight s) \<le> 5 \<and>
     (case loop s of Fetching k \<Rightarrow> length (inflight s) \<le> k \<and> k \<le> 5 | _ \<Rightarrow> True)"

lemma main_loops:
  assumes laws: "begin_func_law env" "wait_group_law env" and rely: "\<And>d d'. rely d d' \<Longrightarrow> valid_kept d d'"
    and valid: "\<And>p w. main_reachable cl env rely w0 p w \<Longrightarrow> valid_db (store w)" and "main_reachable cl env rely w0 p w"
  shows "length (inflight (activity_loop p)) \<le> 5 \<and> length (inflight (workflow_loop p)) \<le> 5 \<and>
    (stopped (activity_loop p) \<or> stopped (workflow_loop p) \<longrightarrow> main_at p = Stopping \<or> main_at p = Ended)"
proof -
  have fives: "activity_poller.slots_inv (main_activity_worker env others) s \<longleftrightarrow> five_slots s"
    "workflow_poller.slots_inv (main_workflow_worker env others) t \<longleftrightarrow> five_slots t" for others s t
    by (simp_all add: activity_poller.slots_inv_def workflow_poller.slots_inv_def five_slots_def cong: loop.case_cong)
  have "five_slots (activity_loop p) \<and> five_slots (workflow_loop p) \<and>
    (stopped (activity_loop p) \<or> stopped (workflow_loop p) \<longrightarrow> main_at p = Stopping \<or> main_at p = Ended)"
    using assms(5)
  proof (induction rule: main_reachable.induct)
    case started
    show ?case by (simp add: main_started_def Start_def five_slots_def)
  next
    case (step p w p' w')
    note v = valid [OF step(1)]
    have lawful: "lawful_activity_worker (main_activity_worker env others)" "lawful_workflow_worker (main_workflow_worker env others)"
      if "interferes rely others" for others
      using main_workers_lawful [OF laws] interferes_mono [OF that, of valid_kept] rely by simp_all
    from step(2) show ?case
    proof (cases rule: main_step.cases)
      case (activity others s)
      from activity_poller.step_invariant [OF lawful(1) [OF activity(3)] activity(4) [unfolded activity_worker_step_def] v] step(3)
      have "five_slots s" by (simp add: fives)
      with activity step(3) show ?thesis by auto
    next
      case (workflow others s)
      from workflow_poller.step_invariant [OF lawful(2) [OF workflow(3)] workflow(4) [unfolded workflow_worker_step_def] v] step(3)
      have "five_slots s" by (simp add: fives)
      with workflow step(3) show ?thesis by auto
    qed (use step(3) in auto)
  qed
  then show ?thesis by (simp add: five_slots_def)
qed

text \<open>
  C19: the example program among processes that use the engine. In every interleaving of its two
  workers, its client, the goroutine that sends the signal and the interrupt, where the others
  may call the storage in front of every call that the program makes, under any errors: what happened
  to the database is a sequence of storage calls, so the program gives what it relies on; signals and
  activities are permanent and finished workflows stay finished; the database stays reachable and
  valid; each worker runs at most the five handlers of its configuration, and neither stops before
  the interrupt. The program's handlers need no hypothesis: they are the code's.
\<close>

theorem main_safe:
  assumes "begin_func_law env" and "wait_group_law env" and "storage_reachable env (NewStorage env []) w0"
    and "main_reachable cl env (engine_reach env (NewStorage env [])) w0 p w"
  shows "engine_reach env (NewStorage env []) (store w0) (store w) \<and>
    signals_kept (store w0) (store w) \<and> activities_kept (store w0) (store w) \<and> workflows_kept (store w0) (store w) \<and>
    storage_reachable env (NewStorage env []) w \<and> valid_db (store w) \<and>
    length (inflight (activity_loop p)) \<le> 5 \<and> length (inflight (workflow_loop p)) \<le> 5 \<and>
    (stopped (activity_loop p) \<or> stopped (workflow_loop p) \<longrightarrow> main_at p = Stopping \<or> main_at p = Ended)"
proof -
  let ?R = "engine_reach env (NewStorage env [])"
  have reach: "?R (store w0) (store w)" if "main_reachable cl env ?R w0 p w" for p w
    using reached.reachable_keeps [OF assms(2) that] by blast
  have valid: "storage_reachable env (NewStorage env []) w \<and> valid_db (store w)" if "main_reachable cl env ?R w0 p w" for p w
    using engine_reach_reachable [OF reach [OF that] assms(3)] storage_reachable_valid [OF assms(1)] by blast
  have loops: "length (inflight (activity_loop p)) \<le> 5 \<and> length (inflight (workflow_loop p)) \<le> 5 \<and>
      (stopped (activity_loop p) \<or> stopped (workflow_loop p) \<longrightarrow> main_at p = Stopping \<or> main_at p = Ended)"
    using assms(1,2) valid.engine_reach_keeps [OF _ assms(1)] valid [THEN conjunct2] assms(4) by (rule main_loops)
  show ?thesis
    using reach [OF assms(4)] valid [OF assms(4)] loops signals.engine_reach_keeps [OF _ assms(1)]
      acts.engine_reach_keeps [OF _ assms(1)] flows.engine_reach_keeps [OF _ assms(1)] by blast
qed

section \<open>A process that has the database for itself\<close>

lemma main_step_mono:
  assumes "main_step cl env rely x y" and "\<And>d d'. rely d d' \<Longrightarrow> rely' d d'"
  shows "main_step cl env rely' x y"
  using assms(1)
proof (cases rule: main_step.cases)
  case (activity p others w s w')
  then show ?thesis using interferes_mono [of rely others rely'] assms(2) by (auto intro: main_step.activity)
next
  case (workflow p others w s w')
  then show ?thesis using interferes_mono [of rely others rely'] assms(2) by (auto intro: main_step.workflow)
qed (auto intro: main_step.intros assms(2))

lemma main_reachable_mono:
  assumes "main_reachable cl env rely w0 p w" and "\<And>d d'. rely d d' \<Longrightarrow> rely' d d'"
  shows "main_reachable cl env rely' w0 p w"
  using assms(1)
proof (induction rule: main_reachable.induct)
  case (step p w p' w')
  show ?case by (rule main_reachable.step [OF step(3) main_step_mono [OF step(2) assms(2)]])
qed (rule main_reachable.started)


text \<open>
  A pass of an idle worker that drains the queue: it ticks, polls, and its handlers finish in
  the order of the batch.
\<close>

definition handled :: "('r \<Rightarrow> ('d, unit) io) \<Rightarrow> 'r list \<Rightarrow> 'd world \<Rightarrow> 'd world" where
  "handled handle rs w = foldl (\<lambda>w r. snd (handle r w)) w rs"

lemma handlers_finish:
  assumes closed: "\<And>s w s' w'. reach s w \<Longrightarrow> worker_step poll handle (s, w) (s', w') \<Longrightarrow> \<not> stopped s' \<Longrightarrow> reach s' w'"
    and "reach (Start\<lparr>inflight := rs\<rparr>) w"
  shows "reach Start (handled handle rs w)"
  using assms(2)
proof (induction rs arbitrary: w)
  case Nil
  then show ?case by (simp add: handled_def Start_def)
next
  case (Cons r rs)
  obtain res w1 where h: "handle r w = (res, w1)" by fastforce
  then have "worker_step poll handle (Start\<lparr>inflight := r # rs\<rparr>, w) (Start\<lparr>inflight := rs\<rparr>, w1)"
    using worker_step.finish [of "Start\<lparr>inflight := r # rs\<rparr>" "[]" r rs handle w res w1] by simp
  with Cons(2) have "reach (Start\<lparr>inflight := rs\<rparr>) w1" by (rule closed) (simp add: Start_def)
  from Cons(1) [OF this] show ?case by (simp add: handled_def h)
qed

lemma pass_reaches:
  assumes closed: "\<And>s w s' w'. reach s w \<Longrightarrow> worker_step poll handle (s, w) (s', w') \<Longrightarrow> \<not> stopped s' \<Longrightarrow> reach s' w'"
    and "reach Start w" and poll: "poll 0 w = ((True, rs), w')"
  shows "reach Start (handled handle rs w')"
proof -
  have "reach (Start\<lparr>loop := Polling\<rparr>) w"
    by (rule closed [OF assms(2) start_ticks]) (simp add: Start_def)
  moreover have "worker_step poll handle (Start\<lparr>loop := Polling\<rparr>, w) (Start\<lparr>loop := Fetching 0\<rparr>, w)"
    using worker_step.slots [of "Start\<lparr>loop := Polling\<rparr>"] by (simp add: Start_def)
  ultimately have "reach (Start\<lparr>loop := Fetching 0\<rparr>) w" by (rule closed) (simp add: Start_def)
  moreover have "worker_step poll handle (Start\<lparr>loop := Fetching 0\<rparr>, w) (Start\<lparr>inflight := rs\<rparr>, w')"
    using worker_step.drained [of "Start\<lparr>loop := Fetching 0\<rparr>" 0 poll w rs w'] poll by (simp add: Start_def)
  ultimately have "reach (Start\<lparr>inflight := rs\<rparr>) w'" by (rule closed) (simp add: Start_def)
  with closed show ?thesis by (rule handlers_finish [where poll = poll and reach = reach])
qed

lemma activity_pass_reaches:
  assumes "main_reachable cl env (=) w0 p w" and "main_at p \<noteq> Ended" and "activity_loop p = Start"
    and "activity_poll (main_activity_worker env id) 0 w = ((True, rs), w')"
  shows "main_reachable cl env (=) w0 p (handled (activity_handle (main_activity_worker env id)) rs w')"
proof -
  let ?reach = "\<lambda>s w. main_reachable cl env (=) w0 (p\<lparr>activity_loop := s\<rparr>) w"
  have p: "p\<lparr>activity_loop := Start\<rparr> = p" using assms(3) by (metis process.surjective process.update_convs(3))
  have "?reach s' w'" if "?reach s w" "worker_step (activity_poll (main_activity_worker env id))
      (activity_handle (main_activity_worker env id)) (s, w) (s', w')" "\<not> stopped s'" for s w s' w'
    using main_reachable.step [OF that(1) main_step.activity [of _ "(=)" id env w s' w']] that assms(2)
    by (simp add: activity_worker_step_def interferes_def)
  from pass_reaches [where reach = ?reach and poll = "activity_poll (main_activity_worker env id)" and handle = "activity_handle (main_activity_worker env id)", OF this _ assms(4)] show ?thesis using assms(1) by (simp add: p)
qed

lemma workflow_pass_reaches:
  assumes "main_reachable cl env (=) w0 p w" and "main_at p \<noteq> Ended" and "workflow_loop p = Start"
    and "workflow_poll (main_workflow_worker env id) 0 w = ((True, rs), w')"
  shows "main_reachable cl env (=) w0 p (handled (workflow_handle (main_workflow_worker env id)) rs w')"
proof -
  let ?reach = "\<lambda>s w. main_reachable cl env (=) w0 (p\<lparr>workflow_loop := s\<rparr>) w"
  have p: "p\<lparr>workflow_loop := Start\<rparr> = p" using assms(3) by (metis process.surjective process.update_convs(4))
  have "?reach s' w'" if "?reach s w" "worker_step (workflow_poll (main_workflow_worker env id))
      (workflow_handle (main_workflow_worker env id)) (s, w) (s', w')" "\<not> stopped s'" for s w s' w'
    using main_reachable.step [OF that(1) main_step.workflow [of _ "(=)" id env w s' w']] that assms(2)
    by (simp add: workflow_worker_step_def interferes_def)
  from pass_reaches [where reach = ?reach and poll = "workflow_poll (main_workflow_worker env id)" and handle = "workflow_handle (main_workflow_worker env id)", OF this _ assms(4)] show ?thesis using assms(1) by (simp add: p)
qed

end
