(* ===== verification/Order_Invariant.thy ===== *)
theory Order_Invariant
  imports Order_Program Row_Invariant
begin

text \<open>
  What the database says about orders, whoever wrote it: each stored activity is the charge or the
  notification of an order, with the order's user and amount and with the result of the charge.
  It is an invariant of rows in the sense of \<open>Row_Invariant\<close>, which says what its writers have to know.
\<close>

section \<open>Orders\<close>

text \<open>
  What is documented of \<open>encoding/json\<close> and used here: the integer of a \<open>ChargeInput\<close> and the fields of a
  \<open>ChargeOutput\<close>, a flag and an integer, are read back as they were written.
\<close>

definition json_law :: "(db, any) env \<Rightarrow> bool" where
  "json_law env \<longleftrightarrow>
     (\<forall>x b. env_json_marshal env (AnyChargeInput x) = Inr b \<longrightarrow>
        (\<exists>y. env_json_unmarshal env ''ChargeInput'' (Some b) = Inr (AnyChargeInput y) \<and> ci_Amount y = ci_Amount x)) \<and>
     (\<forall>x b. env_json_marshal env (AnyChargeOutput x) = Inr b \<longrightarrow>
        env_json_unmarshal env ''ChargeOutput'' (Some b) = Inr (AnyChargeOutput x))"

text \<open>An amount is charged when it is even.\<close>

definition charge_result :: "64 word \<Rightarrow> charge_output" where
  "charge_result amount = (if sint amount smod 2 = 0 then \<lparr>co_IsCharged = True, co_ChargedAmount = amount\<rparr>
     else \<lparr>co_IsCharged = False, co_ChargedAmount = 0\<rparr>)"

definition stored_as :: "(db, any) env \<Rightarrow> any \<Rightarrow> bytes option \<Rightarrow> bool" where
  "stored_as env v b \<longleftrightarrow> (\<exists>x. env_json_marshal env v = Inr x \<and> b = Some x)"

definition order_of :: "(db, any) env \<Rightarrow> bytes option \<Rightarrow> order_input option" where
  "order_of env b = (case env_json_unmarshal env ''OrderInput'' b of Inl e \<Rightarrow> None | Inr v \<Rightarrow> Some (the_OrderInput v))"

definition placed :: "(db, any) env \<Rightarrow> uuid \<Rightarrow> order_input \<Rightarrow> db \<Rightarrow> bool" where
  "placed env i inp d \<longleftrightarrow> (\<exists>w \<in> set (workflows d). w_id w = i \<and> order_of env (w_input w) = Some inp)"

definition asks_notify :: "(db, any) env \<Rightarrow> signal_row \<Rightarrow> bool" where
  "asks_notify env s = (case env_json_unmarshal env ''NotifySignalInput'' (s_input s) of
     Inl e \<Rightarrow> False | Inr n \<Rightarrow> ns_ShouldNotify (the_NotifySignalInput n))"

definition asked :: "(db, any) env \<Rightarrow> uuid \<Rightarrow> db \<Rightarrow> bool" where
  "asked env i d \<longleftrightarrow> (\<exists>s \<in> set (signals d). s_workflow_id s = i \<and> s_idempotency_key s = notify_key env i \<and> asks_notify env s)"

text \<open>The charge of an order, and its notification, which tells the result of the charge.\<close>

definition charge_row :: "(db, any) env \<Rightarrow> order_input \<Rightarrow> activity_row \<Rightarrow> bool" where
  "charge_row env inp a \<longleftrightarrow>
     a_name a = ''ChargeCard'' \<and> a_idempotency_key a = charge_key env (a_workflow_id a) \<and>
     stored_as env (AnyChargeInput \<lparr>ci_UserID = oi_UserID inp, ci_Amount = oi_Amount inp\<rparr>) (a_input a) \<and>
     (a_status a = ActivityCompleted \<longrightarrow> stored_as env (AnyChargeOutput (charge_result (oi_Amount inp))) (a_output a))"

definition email_row :: "(db, any) env \<Rightarrow> order_input \<Rightarrow> activity_row \<Rightarrow> bool" where
  "email_row env inp a \<longleftrightarrow>
     a_name a = ''SendEmail'' \<and> a_idempotency_key a = email_key env (a_workflow_id a) \<and>
     email_key env (a_workflow_id a) \<noteq> charge_key env (a_workflow_id a) \<and>
     stored_as env (AnyEmailInput \<lparr>ei_UserID = oi_UserID inp, ei_IsCharged = co_IsCharged (charge_result (oi_Amount inp)),
       ei_ChargedAmount = co_ChargedAmount (charge_result (oi_Amount inp))\<rparr>) (a_input a)"

definition order_row :: "(db, any) env \<Rightarrow> db \<Rightarrow> activity_row \<Rightarrow> bool" where
  "order_row env d a \<longleftrightarrow> (\<exists>inp. placed env (a_workflow_id a) inp d \<and>
     (charge_row env inp a \<or> email_row env inp a \<and> asked env (a_workflow_id a) d))"

abbreviation orders_ok :: "(db, any) env \<Rightarrow> db \<Rightarrow> bool" where
  "orders_ok env \<equiv> rows_ok (order_row env)"

text \<open>What a process relies on and gives.\<close>

abbreviation orders_kept :: "(db, any) env \<Rightarrow> db \<Rightarrow> db \<Rightarrow> bool" where
  "orders_kept env \<equiv> rows_kept (order_row env)"

lemma encode_stored: "encode_nullable (NewStorage env []) l (Some v) = Inr b \<longleftrightarrow> stored_as env v b"
  by (auto simp: encode_nullable_def NewStorage_def JsonEncoder_def stored_as_def split: sum.splits)

lemma placed_kept: "engine_kept d d' \<Longrightarrow> placed env i inp d \<Longrightarrow> placed env i inp d'"
  by (drule engine_keptD(4)) (fastforce simp: placed_def workflows_kept_def workflow_kept_def)

lemma asked_kept: "engine_kept d d' \<Longrightarrow> asked env i d \<Longrightarrow> asked env i d'"
  by (drule engine_keptD(2)) (auto simp: asked_def)

lemma placed_unique: "valid_db d \<Longrightarrow> placed env i inp d \<Longrightarrow> placed env i inp' d \<Longrightarrow> inp = inp'"
  by (drule valid_dbD(1)) (force simp: placed_def keys_ok_def distinct_map dest: inj_onD)

lemma order_row_calm:
  assumes "order_row env d a" and calm: "calm a b" and kept: "engine_kept d d'"
  shows "order_row env d' b"
proof -
  from assms(1) obtain inp where "placed env (a_workflow_id a) inp d"
    and "charge_row env inp a \<or> email_row env inp a \<and> asked env (a_workflow_id a) d"
    by (auto simp: order_row_def)
  moreover have "charge_row env inp a \<Longrightarrow> charge_row env inp b" "email_row env inp a \<Longrightarrow> email_row env inp b"
    using calm by (auto simp: calm_def charge_row_def email_row_def)
  moreover have "a_workflow_id b = a_workflow_id a" using calm by (simp add: calm_def)
  ultimately show ?thesis
    unfolding order_row_def using placed_kept [OF kept] asked_kept [OF kept] by metis
qed

interpretation orders: row_law "order_row env" for env :: "(db, any) env"
  by unfold_locales (rule order_row_calm)

text \<open>The completion of a charge with its result.\<close>

lemma order_row_completed:
  assumes "order_row env d a"
    and "\<And>inp. charge_row env inp a \<Longrightarrow> stored_as env (AnyChargeOutput (charge_result (oi_Amount inp))) out"
  shows "order_row env d (a\<lparr>a_status := ActivityCompleted, a_output := out\<rparr>)"
  using assms by (auto simp: order_row_def charge_row_def email_row_def)

end
