(* ===== verification/Order_Once.thy ===== *)
theory Order_Once
  imports Order_Invariant Claimed_Records
begin

text \<open>
  What the process stores for an order, among other processes of its kind: at most one charge,
  of the order's amount, and at most one notification, which tells the truth about the charge and
  was asked for.
\<close>

section \<open>A run of the order workflow\<close>

lemma recorded_Inr:
  assumes "recorded evs k t = Some (Inr n)"
  obtains e where "evs k = Some e" "ev_decoder e t (ev_value e) = Inr n"
proof -
  from assms obtain e where e: "evs k = Some e" "Get \<lparr>fut_event = Some e, fut_out = t\<rparr> = Inr n"
    by (auto simp: recorded_def)
  then show ?thesis using that by (cases "ev_decoder e t (ev_value e)") (simp_all add: Get_def IntoValue_def)
qed

lemma NewStorage_decoder [simp]: "pg_Decoder (NewStorage env []) = env_json_unmarshal env"
  by (simp add: pg_Decoder_def NewStorage_def JsonEncoder_def)

text \<open>What a run learns from the signals and from the history that it loads.\<close>

lemma loaded_signal_asks:
  assumes "keys_ok (store v)" and load: "ListWorkflowSignals env (NewStorage env []) i v = (Inr g, v')"
    and n: "recorded g (notify_key env i) ''NotifySignalInput'' = Some (Inr n)" "ns_ShouldNotify (the_NotifySignalInput n)"
  shows "asked env i (store v)"
proof -
  from n(1) obtain e where e: "g (notify_key env i) = Some e" "ev_decoder e ''NotifySignalInput'' (ev_value e) = Inr n"
    by (rule recorded_Inr)
  from e(1) ListWorkflowSignals_lookup(1) [OF assms(1) load] obtain x where x: "x \<in> set (signals (store v))"
    "s_workflow_id x = i" "s_idempotency_key x = notify_key env i"
    "e = NewEvent (notify_key env i) (s_input x) (env_json_unmarshal env)"
    by auto
  with e(2) n(2) have "asks_notify env x" by (simp add: asks_notify_def NewEvent_def)
  with x show ?thesis by (auto simp: asked_def)
qed

lemma loaded_charge_true:
  assumes json: "json_law env" and v: "valid_db (store u)" and ok: "orders_ok env (store u)" and inp: "placed env i inp (store u)"
    and load: "ListHistoryEventsForWorkflow env (NewStorage env []) i u = (Inr h, u')"
    and c: "recorded h (charge_key env i) ''ChargeOutput'' = Some (Inr c)"
  shows "the_ChargeOutput c = charge_result (oi_Amount inp)"
proof -
  from c obtain e where e: "h (charge_key env i) = Some e" "ev_decoder e ''ChargeOutput'' (ev_value e) = Inr c"
    by (rule recorded_Inr)
  from e(1) ListHistory_lookup(1) [OF valid_dbD(1) [OF v] load] obtain a where a: "a \<in> set (activities (store u))"
    "a_workflow_id a = i" "a_status a = ActivityCompleted" "a_idempotency_key a = charge_key env i"
    "e = NewEvent (charge_key env i) (a_output a) (env_json_unmarshal env)"
    by auto
  from ok a(1) obtain inp' where "placed env i inp' (store u)" and row: "charge_row env inp' a \<or> email_row env inp' a"
    by (auto simp: rows_ok_def order_row_def a(2))
  with placed_unique [OF v inp] have "inp' = inp" by simp
  with row a have "stored_as env (AnyChargeOutput (charge_result (oi_Amount inp))) (a_output a)"
    by (auto simp: charge_row_def email_row_def)
  with json e(2) a(5) have "c = AnyChargeOutput (charge_result (oi_Amount inp))"
    by (auto simp: stored_as_def json_law_def NewEvent_def)
  then show ?thesis by (simp add: the_ChargeOutput_def)
qed

text \<open>The results of the calls are what is recorded.\<close>

lemma charge_result_recorded:
  assumes "ExecuteActivity env (NewWorkflowContext i st h g) ChargeCardActivity x [WithActivityMaxAttempts n] w = (Inr c, w')"
  shows "recorded h (charge_key env i) ''ChargeOutput'' = Some (Inr c)"
proof (cases "h (charge_key env i)")
  case None
  then have "\<exists>e. Inr c = (Inl e :: error + any)"
    by (intro ExecuteActivity_pending [OF _ assms]) simp
  then show ?thesis by simp
next
  case (Some e)
  then obtain r where r: "recorded h (charge_key env i) ''ChargeOutput'' = Some r" by (simp add: recorded_def)
  with assms show ?thesis by (simp add: order_charge_recorded [OF r])
qed

lemma notify_result_recorded:
  assumes "ReceiveSignal env (NewWorkflowContext i st h g) NotifySignal [] w = (Inr n, w')"
  shows "recorded g (notify_key env i) ''NotifySignalInput'' = Some (Inr n)"
  using assms by (auto simp: order_signal_recorded split: option.splits)

text \<open>A call of the workflow, whose row is an order's when the writer knows enough.\<close>

lemma keeps_order_call:
  assumes others: "interferes (orders_kept env) others"
    and row: "\<And>j now b p maxa ms at d. valid_db d \<Longrightarrow> orders_ok env d \<Longrightarrow> Q d \<Longrightarrow> stored_as env v b \<Longrightarrow>
      h (activity_IdempotencyKey env act i) = None \<Longrightarrow>
      order_row env d (new_activity now j (activity_IdempotencyKey env act i) i (act_Name act) b p maxa ms at)"
    and opts: "\<And>o'. ao_idempotencyKey (apply_opts opts o') = ao_idempotencyKey o'"
  shows "keeps (under (order_row env) Q) (ExecuteActivity env
    (NewWorkflowContext i (interleaved others (postgres env (NewStorage env []))) h g) act (Some v) opts)"
  by (rule orders.keeps_call [OF others]) (simp add: opts, rule row, simp_all add: encode_stored)

lemma keeps_RunOrderWorkflow_under:
  assumes others: "interferes (orders_kept env) others"
    and placed: "\<And>d. Q d \<Longrightarrow> placed env i inp d"
    and asks: "\<And>n d. recorded g (notify_key env i) ''NotifySignalInput'' = Some (Inr n) \<Longrightarrow>
      ns_ShouldNotify (the_NotifySignalInput n) \<Longrightarrow> Q d \<Longrightarrow> asked env i d"
    and charged: "\<And>c. recorded h (charge_key env i) ''ChargeOutput'' = Some (Inr c) \<Longrightarrow>
      the_ChargeOutput c = charge_result (oi_Amount inp)"
  shows "keeps (under (order_row env) Q) (RunOrderWorkflow env
    (NewWorkflowContext i (interleaved others (postgres env (NewStorage env []))) h g) inp)"
proof -
  let ?ctx = "NewWorkflowContext i (interleaved others (postgres env (NewStorage env []))) h g"
  have charge: "keeps (under (order_row env) Q) (ExecuteActivity env ?ctx ChargeCardActivity
      (Some (AnyChargeInput \<lparr>ci_UserID = oi_UserID inp, ci_Amount = oi_Amount inp\<rparr>)) [WithActivityMaxAttempts 3])"
    using placed
    by (intro keeps_order_call [OF others])
      (auto simp: order_row_def charge_row_def charge_key_def new_activity_def WithActivityMaxAttempts_def)
  have email: "keeps (under (order_row env) Q) (ExecuteActivity env ?ctx SendEmailActivity
      (Some (AnyEmailInput \<lparr>ei_UserID = oi_UserID inp, ei_IsCharged = co_IsCharged (the_ChargeOutput c),
         ei_ChargedAmount = co_ChargedAmount (the_ChargeOutput c)\<rparr>)) [WithActivityMaxAttempts 3, WithActivityScheduledAt at])"
    if c: "recorded h (charge_key env i) ''ChargeOutput'' = Some (Inr c)"
      and n: "recorded g (notify_key env i) ''NotifySignalInput'' = Some (Inr n)" "ns_ShouldNotify (the_NotifySignalInput n)" for c n at
  proof -
    have "h (email_key env i) = None \<Longrightarrow> email_key env i \<noteq> charge_key env i" using c by (auto simp: recorded_def)
    with placed asks [OF n] charged [OF c] show ?thesis
      by (intro keeps_order_call [OF others])
        (auto simp: order_row_def email_row_def email_key_def new_activity_def WithActivityMaxAttempts_def
          WithActivityScheduledAt_def)
  qed
  show ?thesis
    unfolding RunOrderWorkflow_def Let_def
  proof (rule orders.steer.keeps_bindE_results)
    fix c w w'
    assume "wrapE ''charge card'' (ExecuteActivity env ?ctx ChargeCardActivity
      (Some (AnyChargeInput \<lparr>ci_UserID = oi_UserID inp, ci_Amount = oi_Amount inp\<rparr>)) [WithActivityMaxAttempts 3]) w = (Inr c, w')"
    then have c: "recorded h (charge_key env i) ''ChargeOutput'' = Some (Inr c)" by (auto intro: charge_result_recorded)
    show "keeps (under (order_row env) Q) (tryE (ReceiveSignal env ?ctx NotifySignal [])
       (\<lambda>err. throw (WrapError (''can not handle notify signal '' @ Error err) err))
     (\<lambda>n. if \<not> ns_ShouldNotify (the_NotifySignalInput n) then ret ()
       else bindE (time_Now env) (\<lambda>now.
            bindE (wrapE ''notify customer'' (ExecuteActivity env ?ctx SendEmailActivity
                (Some (AnyEmailInput \<lparr>ei_UserID = oi_UserID inp, ei_IsCharged = co_IsCharged (the_ChargeOutput c),
                   ei_ChargedAmount = co_ChargedAmount (the_ChargeOutput c)\<rparr>))
                [WithActivityMaxAttempts 3, WithActivityScheduledAt (time_Add now (Second * 30))]))
              (\<lambda>_. ret ()))))"
    proof (rule orders.steer.keeps_tryE_results)
      fix n w w'
      assume "ReceiveSignal env ?ctx NotifySignal [] w = (Inr n, w')"
      then have "recorded g (notify_key env i) ''NotifySignalInput'' = Some (Inr n)" by (rule notify_result_recorded)
      note email = email [OF c this]
      show "keeps (under (order_row env) Q) (if \<not> ns_ShouldNotify (the_NotifySignalInput n) then ret ()
       else bindE (time_Now env) (\<lambda>now.
            bindE (wrapE ''notify customer'' (ExecuteActivity env ?ctx SendEmailActivity
                (Some (AnyEmailInput \<lparr>ei_UserID = oi_UserID inp, ei_IsCharged = co_IsCharged (the_ChargeOutput c),
                   ei_ChargedAmount = co_ChargedAmount (the_ChargeOutput c)\<rparr>))
                [WithActivityMaxAttempts 3, WithActivityScheduledAt (time_Add now (Second * 30))]))
              (\<lambda>_. ret ())))"
      proof (cases "ns_ShouldNotify (the_NotifySignalInput n)")
        case True
        then show ?thesis by (simp only: not_True_eq_False if_False) (intro orders.steer.keeps_bindE orders.steer.keeps_time_Now
          orders.steer.keeps_wrapE orders.steer.keeps_ret email)
      qed (simp add: orders.steer.keeps_ret)
    qed (rule orders.steer.keeps_ReceiveSignal orders.steer.keeps_throw)+
  qed (intro orders.steer.keeps_wrapE charge)
qed

interpretation order_engine: order_storage engine_kept pg_mk "pg_lawful engine_kept"
  by unfold_locales

lemma keeps_runWorkflow_under:
  assumes law: "begin_func_law env" and wait: "wait_group_law env" and json: "json_law env"
    and others: "interferes (orders_kept env) others"
  shows "keeps (under (order_row env) (placed env i (the_OrderInput v))) (runWorkflow env (main_storage env others) i v (RunOrderWorkflow_any env))"
  unfolding keeps_def
proof
  fix w
  let ?inp = "the_OrderInput v"
  obtain r w' where run: "runWorkflow env (main_storage env others) i v (RunOrderWorkflow_any env) w = (r, w')" by fastforce
  have e: "pg_lawful engine_kept (others, env, NewStorage env [])"
    using law interferes_mono [OF others, of engine_kept] by (simp add: rows_kept_def)
  have "keeps engine_kept (runWorkflow env (main_storage env others) i v (RunOrderWorkflow_any env))"
    using kept.pgst.keeps_runWorkflow [OF e wait] order_engine.keeps_RunOrderWorkflow [OF e]
    by (simp add: main_storage_def RunOrderWorkflow_any_def)
  then have kept: "engine_kept (store w) (store w')" using run by (rule keepsD)
  have "orders_ok env (store w')" if valid: "valid_db (store w)" and ok: "orders_ok env (store w)" and p: "placed env i ?inp (store w)"
  proof -
    have know: "valid_db d \<and> orders_ok env d \<and> placed env i ?inp d" if "orders_kept env (store w) d" for d
      using that valid ok placed_kept [OF _ p] by (auto simp: rows_kept_def dest: engine_keptD(1))
    have frame: "pg_frame (orders_kept env)" unfolding rows_kept_eq by (rule orders.steer.pg_frame_axioms)
    from frame wait others run [unfolded main_storage_def] show ?thesis
    proof (cases rule: pg_frame.runWorkflow_split [consumes 4, case_names unloaded loaded])
      case unloaded
      then show ?thesis using know by blast
    next
      case (loaded h g u u' z z' w1 r2 w2)
      let ?Q = "\<lambda>d. placed env i ?inp d \<and> (\<forall>n. recorded g (notify_key env i) ''NotifySignalInput'' = Some (Inr n) \<longrightarrow>
        ns_ShouldNotify (the_NotifySignalInput n) \<longrightarrow> asked env i d)"
      have charged: "the_ChargeOutput c = charge_result (oi_Amount ?inp)"
        if "recorded h (charge_key env i) ''ChargeOutput'' = Some (Inr c)" for c
        using loaded_charge_true [OF json _ _ _ loaded(3) that] know [OF loaded(1)] by blast
      have "asked env i (store z)"
        if "recorded g (notify_key env i) ''NotifySignalInput'' = Some (Inr n)" "ns_ShouldNotify (the_NotifySignalInput n)" for n
        using loaded_signal_asks [OF _ loaded(6) that] know [OF loaded(4)] valid_dbD(1) by blast
      moreover have "engine_kept (store z) (store w1)" using loaded(5) by (simp add: rows_kept_def)
      ultimately have Q1: "?Q (store w1)" using know [OF loaded(7)] asked_kept by blast
      have "keeps (under (order_row env) ?Q) (RunOrderWorkflow env
          (NewWorkflowContext i (interleaved others (postgres env (NewStorage env []))) h g) ?inp)"
        by (rule keeps_RunOrderWorkflow_under [OF others]) (use charged in auto)
      then have "under (order_row env) ?Q (store w1) (store w2)"
        using loaded(8) [unfolded RunOrderWorkflow_any_def] by (rule keepsD)
      then have "orders_kept env (store w1) (store w2)"
        by (rule under_rows_kept) (use Q1 placed_kept asked_kept in blast)+
      then have "orders_kept env (store w) (store w')"
        using loaded(7,9) rows_kept_trans by blast
      then show ?thesis using know by blast
    qed
  qed
  with kept show "under (order_row env) (placed env i ?inp) (store w) (store (snd (runWorkflow env (main_storage env others) i v (RunOrderWorkflow_any env) w)))"
    using run by (simp add: under_def) (metis henceforth_now)
qed

section \<open>The handlers of the program\<close>

lemma task_of_placed: "task_of d t \<Longrightarrow> env_json_unmarshal env ''OrderInput'' (wr_Input (tr_Workflow t)) = Inr v \<Longrightarrow>
    placed env (wr_ID (tr_Workflow t)) (the_OrderInput v) d"
  by (auto simp: task_of_def placed_def order_of_def)

lemma order_task_handled:
  assumes law: "begin_func_law env" and wait: "wait_group_law env" and json: "json_law env"
    and others: "interferes (orders_kept env) others" and t: "task_of (store w) t"
    and run: "workflow_handle (main_workflow_worker env others) t w = (r, w')"
  shows "orders_kept env (store w) (store w')"
proof -
  let ?e = "(others, env, NewStorage env [])"
  let ?Q = "\<lambda>d. task_of d t"
  have e: "pg_lawful (under (order_row env) ?Q) ?e"
    using law interferes_mono [OF others, of "under (order_row env) ?Q"] rows_kept_under by simp
  have st: "main_storage env others = pg_mk ?e" by (simp add: main_storage_def)
  have "keeps (under (order_row env) ?Q) (runWorkflow env (pg_mk ?e) (wr_ID (tr_Workflow t)) v (RunOrderWorkflow_any env))"
    if "env_json_unmarshal env ''OrderInput'' (wr_Input (tr_Workflow t)) = Inr v" for v
    using keeps_runWorkflow_under [OF law wait json others, of "wr_ID (tr_Workflow t)" v] unfolding st
    by (rule keeps_mono) (auto intro: under_mono task_of_placed [OF _ that])
  then have "keeps (under (order_row env) ?Q) (wh_handler h (pg_mk ?e) (ToWorkflowRun t (st_Decoder (pg_mk ?e))))"
    if "su_registry (main_workflow_worker env others) (wr_Name (tr_Workflow t)) = Some h" for h
    by (auto simp: order_handlers [OF that] ToWorkflowRun_def NewWorkflowRun_def wrun_IntoInput_def OrderWorkflow_def
        NewWorkflow_def intro: orders.steer.keeps_throw split: sum.split)
  then have "keeps (under (order_row env) ?Q) (workflow_handle (main_workflow_worker env others) t)"
    unfolding workflow_handle_def main_workers st
    by (intro kept_frame.keeps_handleWorkflowTask [OF orders.steer.pg_kept_frame e])
  from under_rows_kept [OF keepsD [OF this run]] show ?thesis using t task_of_kept by blast
qed

lemma ChargeCard_runs: "ChargeCard x w = (Inr (charge_result (ci_Amount x)), w)"
  by (simp add: ChargeCard_def charge_result_def)

lemma charge_handler:
  assumes "su_registry (main_activity_worker env others) ''ChargeCard'' = Some h"
    and "ah_handler h (NewActivityRun i b (env_json_unmarshal env)) w = (Inr out, w')"
  obtains v where "env_json_unmarshal env ''ChargeInput'' b = Inr v"
    "out = Some (AnyChargeOutput (charge_result (ci_Amount (the_ChargeInput v))))"
  using assms
  by (auto simp: main_activity_worker_def example_RegisterWorkflow_def RegisterActivity_def ChargeCardActivity_def
      SendEmailActivity_def NewActivity_def NewActivityRun_def arun_IntoInput_def ChargeCard_any_def ChargeCard_runs
      bindE_def split: sum.splits)

lemma order_activity_handled:
  assumes law: "begin_func_law env" and json: "json_law env"
    and others: "interferes (orders_kept env) others" and a: "activity_of (store w) a"
    and run: "activity_handle (main_activity_worker env others) a w = (r, w')"
  shows "orders_kept env (store w) (store w')"
proof -
  let ?e = "(others, env, NewStorage env [])"
  let ?Q = "\<lambda>d. activity_of d a"
  have i: "interferes (under (order_row env) ?Q) others" using others by (rule interferes_mono) (rule rows_kept_under)
  then have e: "pg_lawful (under (order_row env) ?Q) ?e" using law by simp
  have st: "main_storage env others = pg_mk ?e" by (simp add: main_storage_def)
  have "keeps (under (order_row env) ?Q) (st_CompleteActivity (pg_mk ?e) (ar_ID a) (ar_WorkflowID a) out)"
    if h: "su_registry (main_activity_worker env others) (ar_Name a) = Some h"
      "ah_handler h (ToActivityRun a (st_Decoder (pg_mk ?e))) v = (Inr out, v')" for h out v v'
  proof -
    have "stored_as env (AnyChargeOutput (charge_result (oi_Amount inp))) b"
      if "encode_nullable (NewStorage env []) ''encode output'' out = Inr b" and d: "valid_db d" "activity_of d a"
        and x: "x \<in> set (activities d)" "a_id x = ar_ID a" "charge_row env inp x" for b d x inp
    proof -
      from d(2) obtain y where y: "y \<in> set (activities d)" "a_id y = ar_ID a" "a_name y = ar_Name a" "a_input y = ar_Input a"
        by (auto simp: activity_of_def)
      moreover have "y = x"
        using find_activity_mem [OF valid_dbD(1) [OF d(1)] y(1)] find_activity_mem [OF valid_dbD(1) [OF d(1)] x(1)] y(2) x(2)
        by simp
      ultimately have name: "ar_Name a = ''ChargeCard''"
        and inp: "stored_as env (AnyChargeInput \<lparr>ci_UserID = oi_UserID inp, ci_Amount = oi_Amount inp\<rparr>) (ar_Input a)"
        using x(3) by (simp_all add: charge_row_def)
      from h(2) have run: "ah_handler h (NewActivityRun (ar_ID a) (ar_Input a) (env_json_unmarshal env)) v = (Inr out, v')"
        by (simp add: ToActivityRun_def)
      from inp json obtain z where "env_json_unmarshal env ''ChargeInput'' (ar_Input a) = Inr (AnyChargeInput z)"
        "ci_Amount z = oi_Amount inp"
        unfolding stored_as_def json_law_def by (metis charge_input.select_convs(2))
      moreover from h(1)[unfolded name] run obtain z' where "env_json_unmarshal env ''ChargeInput'' (ar_Input a) = Inr z'"
        "out = Some (AnyChargeOutput (charge_result (ci_Amount (the_ChargeInput z'))))"
        by (rule charge_handler)
      ultimately show ?thesis using that(1) by (simp add: the_ChargeInput_def encode_stored)
    qed
    then have "keeps (under (order_row env) ?Q) (CompleteActivity env (NewStorage env []) (ar_ID a) (ar_WorkflowID a) out)"
      by (intro orders.steer.keeps_CompleteActivity_if orders.stmt_under_complete law order_row_completed)
    then show ?thesis by (simp add: orders.steer.keeps_amid i)
  qed
  then have "keeps (under (order_row env) ?Q) (activity_handle (main_activity_worker env others) a)"
    unfolding activity_handle_def main_workers st
    by (intro kept_frame.keeps_handleActivity_if [OF orders.steer.pg_kept_frame e] keeps_order_activities orders.steer.R_refl)
  from under_rows_kept [OF keepsD [OF this run]] show ?thesis using a activity_of_kept by blast
qed

section \<open>The batches of the program\<close>

lemma main_polls_of:
  "workflow_poll (main_workflow_worker env others) k w = ((b, ts), w') \<Longrightarrow> \<forall>t \<in> set ts. task_of (store w') t"
  "activity_poll (main_activity_worker env others) k w = ((b, as), w') \<Longrightarrow> \<forall>a \<in> set as. activity_of (store w') a"
  using workflow_poll_of [of "main_workflow_worker env others" others env "NewStorage env []"]
    activity_poll_of [of "main_activity_worker env others" others env "NewStorage env []"]
  by (auto simp: main_storage_def)

section \<open>Once\<close>

definition order_laws :: "(db, any) env \<Rightarrow> bool" where
  "order_laws env \<longleftrightarrow> begin_func_law env \<and> wait_group_law env \<and> json_law env"

text \<open>The process gives what it relies on.\<close>

interpretation ordered: main_kept orders_kept order_laws task_of activity_of
proof unfold_locales
  fix env :: "(db, any) env" and others :: "db world \<Rightarrow> db world"
  show "orders_kept env d d" for d by (simp add: rows_kept_eq under_refl)
  show "orders_kept env d1 d2 \<Longrightarrow> orders_kept env d2 d3 \<Longrightarrow> orders_kept env d1 d3" for d1 d2 d3
    unfolding rows_kept_eq by (rule under_trans)
  show "orders_kept env d d' \<Longrightarrow> task_of d t \<Longrightarrow> task_of d' t" "orders_kept env d d' \<Longrightarrow> activity_of d a \<Longrightarrow> activity_of d' a" for d d' t a
    by (auto simp: rows_kept_def intro: task_of_kept activity_of_kept)
  assume laws: "order_laws env"
  then have law: "begin_func_law env" "wait_group_law env" "json_law env" by (simp_all add: order_laws_def)
  have frame: "order_frame (orders_kept env) pg_mk (pg_lawful (orders_kept env))"
    unfolding rows_kept_eq by (rule order_frame.intro [OF orders.steer.pg_kept_frame])
  have alone: "pg_lawful (orders_kept env) (id, env, NewStorage env [])" "postgres env (NewStorage env []) = pg_mk (id, env, NewStorage env [])"
    using law orders.steer.interferes_id [where Q = "\<lambda>_. True", folded rows_kept_eq] by simp_all
  show "keeps (orders_kept env) (main_enqueue cl env)"
    "keeps (orders_kept env) (notify_goroutine cl env (postgres env (NewStorage env [])) StorageDb i)" for cl i
    by (rule order_frame.keeps_client [OF frame alone])+
  assume others: "interferes (orders_kept env) others"
  then have e: "pg_lawful (orders_kept env) (others, env, NewStorage env [])" "main_storage env others = pg_mk (others, env, NewStorage env [])"
    using law by (simp_all add: main_storage_def)
  show "workflow_poll (main_workflow_worker env others) k w = ((b, ts), w') \<Longrightarrow>
      orders_kept env (store w) (store w') \<and> (\<forall>t \<in> set ts. task_of (store w') t)" for k w b ts w'
    using order_frame.main_polls_keep(1) [OF frame e] main_polls_of(1) by blast
  show "activity_poll (main_activity_worker env others) k w = ((b, as), w') \<Longrightarrow>
      orders_kept env (store w) (store w') \<and> (\<forall>a \<in> set as. activity_of (store w') a)" for k w b as w'
    using order_frame.main_polls_keep(2) [OF frame e] main_polls_of(2) by blast
  show "task_of (store w) t \<Longrightarrow> workflow_handle (main_workflow_worker env others) t w = (r, w') \<Longrightarrow> orders_kept env (store w) (store w')"
    "activity_of (store w) a \<Longrightarrow> activity_handle (main_activity_worker env others) a w = (r, w') \<Longrightarrow> orders_kept env (store w) (store w')"
    for t a w r w'
    using order_task_handled [OF law others] order_activity_handled [OF law(1,3) others] by blast+
qed

text \<open>
  C20: in every interleaving of the example process with others that leave orders as it does, under
  any errors and lost answers: every stored activity is the one charge of an order, for the order's user and
  amount, or its one notification, which tells the user the result of that charge and which a signal
  asked for; a completed charge has recorded that result. The process in turn leaves orders so: any
  number of such processes can share the database.
\<close>

theorem order_stored_once:
  assumes "begin_func_law env" and "wait_group_law env" and "json_law env"
    and "valid_db (store w0)" and "orders_ok env (store w0)" and "main_reachable cl env (orders_kept env) w0 p w"
  shows "orders_kept env (store w0) (store w) \<and> orders_ok env (store w) \<and>
    (\<forall>a \<in> set (activities (store w)). \<forall>b \<in> set (activities (store w)).
       a_workflow_id a = a_workflow_id b \<and> a_name a = a_name b \<longrightarrow> a = b)"
proof -
  have kept: "orders_kept env (store w0) (store w)"
    using ordered.reachable_keeps [OF _ assms(6)] assms(1-3) by (simp add: order_laws_def)
  with assms(4,5) have ok: "orders_ok env (store w)" and v: "valid_db (store w)"
    by (auto simp: rows_kept_def dest: engine_keptD(1))
  have dist: "distinct (map a_idempotency_key (activities (store w)))" using valid_dbD(1) [OF v] by (simp add: keys_ok_def)
  have "a = b" if "a \<in> set (activities (store w))" "b \<in> set (activities (store w))"
    "a_workflow_id a = a_workflow_id b" "a_name a = a_name b" for a b
  proof -
    have "order_row env (store w) a" "order_row env (store w) b" using that(1,2) ok by (simp_all add: rows_ok_def)
    with that(3,4) have "a_idempotency_key a = a_idempotency_key b" by (auto simp: order_row_def charge_row_def email_row_def)
    with dist that(1,2) show ?thesis by (simp add: distinct_map inj_on_def)
  qed
  with kept ok show ?thesis by blast
qed

end
