(* ===== verification/Order_Run.thy ===== *)
theory Order_Run
  imports Order_Once
begin

text \<open>
  The example program on a concrete environment, where an order runs from its enqueueing to
  its end and the process stops.
\<close>

section \<open>An environment\<close>

text \<open>
  A codec for the payloads: numbers in unary, then flags and text. An interaction takes
  twenty seconds, so that a delay of half a minute passes.
\<close>

definition unary :: "64 word \<Rightarrow> bytes" where
  "unary n = replicate (unat n) CHR ''i'' @ ''.''"

definition of_unary :: "bytes \<Rightarrow> 64 word" where
  "of_unary b = word_of_nat (length (takeWhile (\<lambda>c. c = CHR ''i'') b))"

definition after_unary :: "bytes \<Rightarrow> bytes" where
  "after_unary b = drop 1 (dropWhile (\<lambda>c. c = CHR ''i'') b)"

definition flag :: "bool \<Rightarrow> bytes" where
  "flag b = (if b then ''t'' else ''f'')"

definition of_flag :: "bytes \<Rightarrow> bool" where
  "of_flag b = (take 1 b = ''t'')"

fun encode_any :: "any \<Rightarrow> bytes" where
  "encode_any (AnyChargeInput x) = unary (ci_Amount x) @ ci_UserID x"
| "encode_any (AnyChargeOutput x) = unary (co_ChargedAmount x) @ flag (co_IsCharged x)"
| "encode_any (AnyEmailInput x) = unary (ei_ChargedAmount x) @ flag (ei_IsCharged x) @ ei_UserID x"
| "encode_any (AnyEmailOutput x) = flag (eo_IsSent x)"
| "encode_any (AnyNotifySignalInput x) = flag (ns_ShouldNotify x)"
| "encode_any (AnyOrderInput x) = unary (oi_Amount x) @ oi_UserID x"

definition decode_any :: "gotype \<Rightarrow> bytes option \<Rightarrow> error + any" where
  "decode_any t b = (case b of None \<Rightarrow> Inl (ErrorString ''unexpected end of JSON input'') | Some s \<Rightarrow>
     if t = ''ChargeInput'' then Inr (AnyChargeInput \<lparr>ci_UserID = after_unary s, ci_Amount = of_unary s\<rparr>)
     else if t = ''ChargeOutput'' then Inr (AnyChargeOutput \<lparr>co_IsCharged = of_flag (after_unary s), co_ChargedAmount = of_unary s\<rparr>)
     else if t = ''EmailInput'' then Inr (AnyEmailInput \<lparr>ei_UserID = drop 1 (after_unary s),
       ei_IsCharged = of_flag (after_unary s), ei_ChargedAmount = of_unary s\<rparr>)
     else if t = ''EmailOutput'' then Inr (AnyEmailOutput \<lparr>eo_IsSent = of_flag s\<rparr>)
     else if t = ''NotifySignalInput'' then Inr (AnyNotifySignalInput \<lparr>ns_ShouldNotify = of_flag s\<rparr>)
     else if t = ''OrderInput'' then Inr (AnyOrderInput \<lparr>oi_UserID = after_unary s, oi_Amount = of_unary s\<rparr>)
     else Inl (ErrorString ''unknown type''))"

definition shop_env :: "(db, any) env" where
  "shop_env =
     \<lparr>env_outcome = (\<lambda>n. Served), env_pg_now = (\<lambda>n. int n * 20000000000), env_rank = (\<lambda>n k i. unat i),
      env_pg_text = ref_pg_text, env_begin_func = plain_begin_func (\<lambda>n. int n * 20000000000),
      env_scan_uint = (\<lambda>n. if 0 \<le> n then Inr (word_of_int n) else Inl (ErrorString ''cannot scan'')),
      env_wait_group = plain_wait_group, env_go_now = (\<lambda>n. int n * 20000000000),
      env_new_v7 = (\<lambda>n. 1024 + word_of_nat n),
      env_new_sha1 = (\<lambda>ns name. 256 * ns + word_of_nat (length name)), env_uuid_string = (\<lambda>i. ''uuid''),
      env_json_marshal = (\<lambda>v. Inr (encode_any v)), env_json_unmarshal = decode_any\<rparr>"

text \<open>A client that orders for 4 and, half a minute later, asks for the notification or not.\<close>

definition shop_client :: "bool \<Rightarrow> client_env" where
  "shop_client notify = \<lparr>cl_NewString = (\<lambda>n. ''alice''), cl_IntN = (\<lambda>m n. if m = 100 then 4 else if notify then 0 else 1)\<rparr>"

definition shop_opened :: "db world" where
  "shop_opened = \<lparr>store = empty_db, ticks = 0\<rparr>"

lemma shop_begin_func_law: "begin_func_law shop_env"
  by (rule plain_begin_func_law) (simp add: shop_env_def)

lemma shop_wait_group_law: "wait_group_law shop_env"
  by (rule plain_wait_group_law) (simp add: shop_env_def)

section \<open>A run of the process\<close>

text \<open>
  The world after each stage, with the flag that the order was accepted and every poll so far
  has drained its queue.
\<close>

definition shop_enqueued :: "bool \<Rightarrow> bool \<times> db world" where
  "shop_enqueued notify =
     (case main_enqueue (shop_client notify) shop_env shop_opened of (r, w) \<Rightarrow> (\<not> isl r, w))"

definition shop_goroutine :: "bool \<Rightarrow> (db, unit) io" where
  "shop_goroutine notify = projr (fst (main_enqueue (shop_client notify) shop_env shop_opened))"

definition shop_sent :: "bool \<Rightarrow> bool \<times> db world \<Rightarrow> bool \<times> db world" where
  "shop_sent notify x = (fst x, snd (shop_goroutine notify (snd x)))"

definition shop_tasks :: "bool \<times> db world \<Rightarrow> bool \<times> db world" where
  "shop_tasks x = (case workflow_poll (main_workflow_worker shop_env id) 0 (snd x) of
     ((b, ts), w) \<Rightarrow> (fst x \<and> b, handled (workflow_handle (main_workflow_worker shop_env id)) ts w))"

definition shop_activities :: "bool \<times> db world \<Rightarrow> bool \<times> db world" where
  "shop_activities x = (case activity_poll (main_activity_worker shop_env id) 0 (snd x) of
     ((b, as), w) \<Rightarrow> (fst x \<and> b, handled (activity_handle (main_activity_worker shop_env id)) as w))"

text \<open>The order is charged and its workflow waits for the signal.\<close>

definition shop_waiting :: "db world" where
  "shop_waiting =
    \<lparr>store =
       \<lparr>workflows =
          [\<lparr>w_id = 1025, w_idempotency_key = 1024, w_name = ''OrderWorkflow'',
              w_status = WorkflowRunning, w_input = Some ''iiii.alice'',
              w_output = None, w_priority = 0, w_attempts = 1,
              w_max_attempts = 3, w_stuck_timeout_millis = 300000,
              w_completed_at = None, w_error_message = None,
              w_created_at = 40000000000, w_updated_at = 40000000000\<rparr>],
          tasks =
            [\<lparr>t_id = 1027, t_workflow_id = 1025, t_name = ''OrderWorkflow'',
                t_status = TaskCompleted, t_priority = 0,
                t_stuck_timeout_millis = 300000, t_scheduled_at = 20000000000,
                t_run_at = Some 100000000000, t_stuck_at = Some 400000000000,
                t_completed_at = Some 200000000000, t_created_at = 40000000000,
                t_updated_at = 200000000000\<rparr>,
             \<lparr>t_id = 1038, t_workflow_id = 1025, t_name = ''OrderWorkflow'',
                t_status = TaskCompleted, t_priority = 0,
                t_stuck_timeout_millis = 300000, t_scheduled_at = 300000000000,
                t_run_at = Some 320000000000, t_stuck_at = Some 620000000000,
                t_completed_at = Some 380000000000,
                t_created_at = 260000000000, t_updated_at = 380000000000\<rparr>],
          activities =
            [\<lparr>a_id = 1032, a_idempotency_key = 262410, a_workflow_id = 1025,
                a_name = ''ChargeCard'', a_status = ActivityCompleted,
                a_input = Some ''iiii.alice'', a_output = Some ''iiii.t'',
                a_priority = 0, a_attempts = 1, a_max_attempts = 3,
                a_stuck_timeout_millis = 300000, a_scheduled_at = 160000000000,
                a_run_at = Some 240000000000, a_stuck_at = Some 540000000000,
                a_completed_at = Some 260000000000, a_error_message = None,
                a_created_at = 180000000000, a_updated_at = 260000000000\<rparr>],
          signals = []\<rparr>,
       ticks = 21\<rparr>"

lemma shop_reaches_waiting_notified: "shop_tasks (shop_activities (shop_tasks (shop_enqueued True))) = (True, shop_waiting)"
  by code_simp

lemma shop_reaches_waiting_declined: "shop_tasks (shop_activities (shop_tasks (shop_enqueued False))) = (True, shop_waiting)"
  by code_simp

definition order_done :: "bool \<Rightarrow> db \<Rightarrow> bool" where
  "order_done notify d \<longleftrightarrow>
     map w_status (workflows d) = [WorkflowCompleted] \<and>
     list_all (\<lambda>t. t_status t = TaskCompleted) (tasks d) \<and>
     map (\<lambda>a. (a_name a, a_status a, a_attempts a)) (activities d) =
       (''ChargeCard'', ActivityCompleted, 1) # (if notify then [(''SendEmail'', ActivityCompleted, 1)] else []) \<and>
     length (signals d) = 1"

definition shop_checked :: "bool \<Rightarrow> bool \<times> db world \<Rightarrow> bool" where
  "shop_checked notify x = (case x of (b, w) \<Rightarrow> b \<and> order_done notify (store w))"

definition shop_finished :: "bool \<Rightarrow> bool \<times> db world" where
  "shop_finished notify =
     shop_tasks (shop_activities (shop_tasks (shop_sent notify (shop_tasks (shop_activities (shop_tasks (shop_enqueued notify)))))))"

lemma shop_done_notified:
  "shop_checked True (shop_tasks (shop_activities (shop_tasks (shop_sent True (True, shop_waiting)))))"
  by code_simp

lemma shop_done_declined:
  "shop_checked False (shop_tasks (shop_activities (shop_tasks (shop_sent False (True, shop_waiting)))))"
  by code_simp

lemma shop_finished_checked: "shop_checked notify (shop_finished notify)"
  by (cases notify)
    (simp_all only: shop_finished_def shop_reaches_waiting_notified shop_reaches_waiting_declined shop_done_notified shop_done_declined)

text \<open>The stages are steps of the process.\<close>

definition shop_holds :: "bool \<Rightarrow> process \<Rightarrow> bool \<times> db world \<Rightarrow> bool" where
  "shop_holds notify p x \<longleftrightarrow> (fst x \<longrightarrow> main_reachable (shop_client notify) shop_env (=) shop_opened p (snd x))"

definition serving :: "(db, unit) io option \<Rightarrow> process" where
  "serving g = main_started\<lparr>main_at := Serving, sender := g\<rparr>"

lemma serving_loops [simp]: "activity_loop (serving g) = Start" "workflow_loop (serving g) = Start"
  "sender (serving g) = g" "main_at (serving g) = Serving" "serving g\<lparr>sender := g'\<rparr> = serving g'"
  by (simp_all add: serving_def main_started_def)

lemma shop_enqueued_holds: "shop_holds notify (serving (Some (shop_goroutine notify))) (shop_enqueued notify)"
proof -
  obtain r w where run: "main_enqueue (shop_client notify) shop_env shop_opened = (r, w)" by fastforce
  show ?thesis
  proof (cases r)
    case (Inr g)
    have "main_step (shop_client notify) shop_env (=) (main_started, shop_opened)
        (main_started\<lparr>main_at := Serving, sender := Some g\<rparr>, w)"
      using run Inr by (intro main_step.enqueued) (simp_all add: main_started_def)
    from main_reachable.step [OF main_reachable.started this] run Inr show ?thesis
      by (simp add: shop_holds_def shop_enqueued_def shop_goroutine_def serving_def)
  qed (simp add: shop_holds_def shop_enqueued_def run)
qed

lemma shop_sent_holds:
  assumes "shop_holds notify (serving (Some (shop_goroutine notify))) x"
  shows "shop_holds notify (serving None) (shop_sent notify x)"
proof -
  obtain r w where run: "shop_goroutine notify (snd x) = (r, w)" by fastforce
  have "main_step (shop_client notify) shop_env (=) (serving (Some (shop_goroutine notify)), snd x) (serving None, w)"
    using main_step.send [of "serving (Some (shop_goroutine notify))" "shop_goroutine notify" "snd x" r w] run by simp
  with assms run show ?thesis by (auto simp: shop_holds_def shop_sent_def intro: main_reachable.step)
qed

lemma shop_passes_hold:
  assumes "shop_holds notify (serving g) x"
  shows "shop_holds notify (serving g) (shop_tasks x)" and "shop_holds notify (serving g) (shop_activities x)"
  using assms by (auto simp: shop_holds_def shop_tasks_def shop_activities_def intro: workflow_pass_reaches activity_pass_reaches
      split: prod.splits)

lemma shop_finished_holds: "shop_holds notify (serving None) (shop_finished notify)"
  unfolding shop_finished_def by (intro shop_passes_hold shop_sent_holds shop_enqueued_holds)

lemma shop_runs_to_end:
  obtains w where "main_reachable (shop_client notify) shop_env (=) shop_opened (serving None) w" "order_done notify (store w)"
  using shop_finished_holds [of notify] shop_finished_checked [of notify]
  by (auto simp: shop_holds_def shop_checked_def split: prod.splits)

text \<open>After the interrupt both workers stop and the process ends.\<close>

definition main_stopped :: process where
  "main_stopped = \<lparr>main_at = Ended, sender = None, activity_loop = ref_stopped, workflow_loop = ref_stopped\<rparr>"

lemma idle_worker_stops:
  "worker_step poll handle (Start, w) (Start\<lparr>stopped := True\<rparr>, w)"
  "worker_step poll handle (Start\<lparr>stopped := True\<rparr>, w) (ref_stopped, w)"
  using start_stops worker_step.exit [of "Start\<lparr>stopped := True\<rparr>"]
  by (simp_all add: Start_def ref_stopped_def)

lemma idle_process_stops:
  assumes "main_reachable cl env (=) w0 (serving None) w"
  shows "main_reachable cl env (=) w0 main_stopped w"
proof -
  let ?p = "\<lambda>m a f. \<lparr>main_at = m, sender = None, activity_loop = a, workflow_loop = f\<rparr>"
  have id: "interferes (=) (id :: db world \<Rightarrow> db world)" by (simp add: interferes_def)
  have act: "main_step cl env (=) (?p Stopping a f, w) (?p Stopping a' f, w)"
    if "worker_step (activity_poll (main_activity_worker env id)) (activity_handle (main_activity_worker env id)) (a, w) (a', w)" for a a' f
    using main_step.activity [of "?p Stopping a f" "(=)" id env w a' w] that id by (simp add: activity_worker_step_def)
  have wfl: "main_step cl env (=) (?p Stopping a f, w) (?p Stopping a f', w)"
    if "worker_step (workflow_poll (main_workflow_worker env id)) (workflow_handle (main_workflow_worker env id)) (f, w) (f', w)" for a f f'
    using main_step.workflow [of "?p Stopping a f" "(=)" id env w f' w] that id by (simp add: workflow_worker_step_def)
  have "main_step cl env (=) (serving None, w) (?p Stopping Start Start, w)"
    using main_step.interrupt [of "serving None"] by (simp add: serving_def main_started_def)
  from main_reachable.step [OF assms this] have "main_reachable cl env (=) w0 (?p Stopping Start Start) w" .
  from main_reachable.step [OF main_reachable.step [OF this act [OF idle_worker_stops(1)]] act [OF idle_worker_stops(2)]]
  have "main_reachable cl env (=) w0 (?p Stopping ref_stopped Start) w" .
  from main_reachable.step [OF main_reachable.step [OF this wfl [OF idle_worker_stops(1)]] wfl [OF idle_worker_stops(2)]]
  have "main_reachable cl env (=) w0 (?p Stopping ref_stopped ref_stopped) w" .
  moreover have "main_step cl env (=) (?p Stopping ref_stopped ref_stopped, w) (main_stopped, w)"
    using main_step.ended [of "?p Stopping ref_stopped ref_stopped" None "Inr ()" "Inr ()" cl env "(=)" w]
    by (simp add: main_stopped_def ref_stopped_def wg_done_def)
  ultimately show ?thesis by (rule main_reachable.step)
qed

text \<open>
  The example program can do its work. From an empty database, on an environment whose
  driver, clocks, ids and codec are concrete, and with no other process, it enqueues an order, its workers charge
  the card, the workflow waits, the goroutine sends the signal, the email is sent if and only if the
  signal asks for it, the workflow is completed with one attempt of each activity and
  no unfinished task, and after the interrupt both workers stop and the process ends.
\<close>

lemma order_completes:
  "\<exists>w. main_reachable (shop_client notify) shop_env (=) shop_opened main_stopped w \<and> order_done notify (store w) \<and>
    Stop_returns (activity_loop main_stopped) None (Inr ()) \<and> Stop_returns (workflow_loop main_stopped) None (Inr ())"
proof -
  obtain w where "main_reachable (shop_client notify) shop_env (=) shop_opened (serving None) w" "order_done notify (store w)"
    by (rule shop_runs_to_end)
  moreover have "wg_done (activity_loop main_stopped)" "wg_done (workflow_loop main_stopped)"
    by (simp_all add: wg_done_def main_stopped_def ref_stopped_def)
  ultimately show ?thesis by (simp only: Stop_returns_nil) (blast intro: idle_process_stops)
qed

section \<open>The laws at work\<close>

lemma shop_opened_valid: "valid_db (store shop_opened)"
  by (simp add: shop_opened_def valid_empty_db)

lemma shop_opened_orders: "orders_ok env (store shop_opened)"
  by (simp add: rows_ok_def shop_opened_def empty_db_def)

lemma shop_unary [simp]: "of_unary (unary n @ b) = n" "after_unary (unary n @ b) = b"
proof -
  have t: "takeWhile (\<lambda>c. c = CHR ''i'') (replicate k CHR ''i'' @ CHR ''.'' # b) = replicate k CHR ''i''"
    "dropWhile (\<lambda>c. c = CHR ''i'') (replicate k CHR ''i'' @ CHR ''.'' # b) = CHR ''.'' # b" for k
    by (induction k) simp_all
  show "of_unary (unary n @ b) = n" "after_unary (unary n @ b) = b"
    by (simp_all add: of_unary_def after_unary_def unary_def t)
qed

lemma shop_json_law: "json_law shop_env"
  by (auto simp: json_law_def shop_env_def decode_any_def flag_def of_flag_def)

text \<open>
  The finished order, as the invariant describes it: with the signal that asked, the notification tells
  that the amount of four was charged.
\<close>

lemma order_stored_once_witness:
  "\<exists>w :: db world. order_done True (store w) \<and> orders_ok shop_env (store w) \<and>
    (\<exists>a \<in> set (activities (store w)). \<exists>inp. placed shop_env (a_workflow_id a) inp (store w) \<and>
       email_row shop_env inp a \<and> asked shop_env (a_workflow_id a) (store w))"
proof -
  obtain w where w: "main_reachable (shop_client True) shop_env (=) shop_opened (serving None) w" "order_done True (store w)"
    by (rule shop_runs_to_end)
  have "main_reachable (shop_client True) shop_env (orders_kept shop_env) shop_opened (serving None) w"
    using w(1) by (rule main_reachable_mono) (simp add: rows_kept_eq under_refl)
  from order_stored_once [OF shop_begin_func_law shop_wait_group_law shop_json_law shop_opened_valid shop_opened_orders this]
  have ok: "orders_ok shop_env (store w)" by blast
  have "''SendEmail'' \<in> fst ` set (map (\<lambda>a. (a_name a, a_status a, a_attempts a)) (activities (store w)))"
    using w(2) by (simp add: order_done_def)
  then obtain a where "a \<in> set (activities (store w))" "a_name a = ''SendEmail''" by force
  with ok have "\<exists>inp. placed shop_env (a_workflow_id a) inp (store w) \<and> email_row shop_env inp a \<and>
      asked shop_env (a_workflow_id a) (store w)"
    by (auto simp: rows_ok_def order_row_def charge_row_def)
  with w(2) ok \<open>a \<in> set (activities (store w))\<close> show ?thesis by blast
qed

lemma main_safe_witness:
  "\<exists>w :: db world. order_done True (store w) \<and> valid_db (store w) \<and> signals_kept empty_db (store w)"
proof -
  obtain w where w: "main_reachable (shop_client True) shop_env (=) shop_opened (serving None) w" "order_done True (store w)"
    by (rule shop_runs_to_end)
  have "main_reachable (shop_client True) shop_env (engine_reach shop_env (NewStorage shop_env [])) shop_opened (serving None) w"
    using w(1) by (rule main_reachable_mono) (simp add: engine_reach_refl)
  moreover have "storage_reachable shop_env (NewStorage shop_env []) shop_opened"
    by (rule storage_reachable.initial) (simp add: shop_opened_def)
  ultimately have "signals_kept (store shop_opened) (store w) \<and> valid_db (store w)"
    using main_safe [OF shop_begin_func_law shop_wait_group_law] by blast
  with w(2) show ?thesis by (auto simp: shop_opened_def)
qed

text \<open>A run of the order workflow whose charge and signal are recorded, in the waiting world.\<close>

definition shop_history :: "any events" where
  "shop_history = events_of_rows decode_any [(charge_key shop_env 1025, Some ''iiii.t'')]"

definition shop_signals :: "any events" where
  "shop_signals = events_of_rows decode_any [(notify_key shop_env 1025, Some ''t'')]"

definition shop_input :: order_input where
  "shop_input = \<lparr>oi_UserID = ''alice'', oi_Amount = 4\<rparr>"

definition shop_run :: "(error + unit) \<times> db world" where
  "shop_run = RunOrderWorkflow shop_env
     (NewWorkflowContext 1025 (postgres shop_env (NewStorage shop_env [])) shop_history shop_signals) shop_input shop_waiting"

lemma shop_run_emails:
  "order_phase shop_env 1025 shop_history shop_signals = Emailing"
  "map a_name (activities (store (snd shop_run))) = [''ChargeCard'', ''SendEmail'']"
  by code_simp+

lemma RunOrderWorkflow_phases_witness:
  "order_phase shop_env 1025 shop_history shop_signals = Emailing \<and>
   map a_name (activities (store (snd shop_run))) = [''ChargeCard'', ''SendEmail''] \<and>
   order_promise shop_env (NewStorage shop_env []) 1025 shop_input shop_history shop_signals shop_waiting
     (fst shop_run) (store (snd shop_run))"
proof -
  have "RunOrderWorkflow shop_env (NewWorkflowContext 1025 (postgres shop_env (NewStorage shop_env [])) shop_history shop_signals)
      shop_input shop_waiting = (fst shop_run, snd shop_run)"
    by (simp add: shop_run_def)
  from RunOrderWorkflow_phases [OF this] show ?thesis by (simp add: shop_run_emails)
qed

end
