(* ===== verification/Order_Durable.thy ===== *)
theory Order_Durable
  imports Order_Script Order_Run
begin

text \<open>
  Orders complete: the theorem on durable execution for the order workflow, whose activities and signal are
  answered as the handlers of the program answer.
\<close>

section \<open>The course of an order\<close>

text \<open>Its charge records \<open>out\<close>, its notification \<open>em\<close>, and its signal brings \<open>sg\<close>.\<close>

definition order_course :: "(db, any) env \<Rightarrow> uuid \<Rightarrow> order_input \<Rightarrow> bytes option \<Rightarrow> bytes option \<Rightarrow> bytes option \<Rightarrow> any course" where
  "order_course env i inp out em sg =
     \<lparr>cs_id = i, cs_script = order_script inp,
      cs_out = (\<lambda>k. if k = charge_key env i then out else em), cs_sig = (\<lambda>k. sg)\<rparr>"

lemma order_course_simps [simp]:
  "cs_id (order_course env i inp out em sg) = i" "cs_script (order_course env i inp out em sg) = order_script inp"
  "cs_out (order_course env i inp out em sg) k = (if k = charge_key env i then out else em)"
  "cs_sig (order_course env i inp out em sg) k = sg"
  by (simp_all add: order_course_def)

lemma order_steps_distinct [simp]: "charge_step env i inp \<noteq> Signal_Step k" "email_step env i inp c \<noteq> Signal_Step k"
  by (simp_all add: charge_step_def email_step_def)

lemma order_course_calls:
  assumes json: "json_law env" and out: "env_json_marshal env (AnyChargeOutput (charge_result (oi_Amount inp))) = Inr b"
    and sg: "env_json_unmarshal env ''NotifySignalInput'' sg = Inr n" and em: "env_json_unmarshal env ''EmailOutput'' em = Inr m"
    and keys: "email_key env i \<noteq> charge_key env i"
  shows "course env (NewStorage env []) (order_course env i inp (Some b) em sg) =
    ([charge_step env i inp, Signal_Step (notify_key env i)] @
       (if ns_ShouldNotify (the_NotifySignalInput n) then [email_step env i inp (charge_result (oi_Amount inp))] else []), Inr ())"
proof -
  have dec: "pg_Decoder (NewStorage env []) = env_json_unmarshal env"
    by (simp add: pg_Decoder_def NewStorage_def JsonEncoder_def)
  have "env_json_unmarshal env ''ChargeOutput'' (Some b) = Inr (AnyChargeOutput (charge_result (oi_Amount inp)))"
    using json out by (simp add: json_law_def)
  with sg em keys show ?thesis
    by (simp add: course_def order_direct dec asks_def answer_def Get_def IntoValue_def NewEvent_def the_ChargeOutput_def)
qed

text \<open>What is stored of such an order is its charge and, when the signal asks, its notification.\<close>

lemma order_course_row:
  assumes calls: "course env (NewStorage env []) (order_course env i inp (Some b) em sg) =
      ([charge_step env i inp, Signal_Step (notify_key env i)] @ (if notify then [email_step env i inp (charge_result (oi_Amount inp))] else []), Inr ())"
    and out: "env_json_marshal env (AnyChargeOutput (charge_result (oi_Amount inp))) = Inr b"
    and keys: "email_key env i \<noteq> charge_key env i"
    and row: "course_row env (NewStorage env []) (order_course env i inp (Some b) em sg) d a" "a_workflow_id a = i"
      "signals_as (order_course env i inp (Some b) em sg) d"
  shows "a_idempotency_key a = charge_key env i \<and> charge_row env inp a \<or>
    a_idempotency_key a = email_key env i \<and> notify \<and> email_row env inp a"
proof -
  let ?c = "order_course env i inp (Some b) em sg" and ?s = "NewStorage env []"
  from row have fin: "a_status a = ActivityCompleted \<Longrightarrow> a_output a = cs_out ?c (a_idempotency_key a)"
    and call: "is_call env ?s ?c (a_idempotency_key a) (a_name a) (a_input a)"
    using call_row_is_call [of env ?s ?c d a] by (simp_all add: course_row_def)
  from call obtain v where v: "Activity_Step (a_idempotency_key a) (a_name a) v \<in> set (fst (course env ?s ?c))"
    "stored_as env v (a_input a)" by (auto simp: is_call_def encode_stored)
  then have "Activity_Step (a_idempotency_key a) (a_name a) v = charge_step env i inp \<or>
      notify \<and> Activity_Step (a_idempotency_key a) (a_name a) v = email_step env i inp (charge_result (oi_Amount inp))"
    by (auto simp: calls split: if_splits)
  with v(2) fin keys out row(2) show ?thesis
    by (auto simp: charge_step_def email_step_def charge_row_def email_row_def stored_as_def)
qed

section \<open>Orders complete\<close>

text \<open>
  C21: an order completes. On a database that others use too, let an order's charge be answered with its
  result, its notification with something that decodes, and its signal with \<open>sg\<close>, each before the next
  run of its workflow. When four runs have returned nil, the workflow is completed, its card has been charged
  for the order's user and amount, and a notification that tells the result is stored exactly when
  the signal asked for it.
\<close>

theorem order_completes_answered:
  assumes "begin_func_law env" and "wait_group_law env" and "json_law env"
    and "env_json_marshal env (AnyChargeOutput (charge_result (oi_Amount (the_OrderInput v)))) = Inr b"
    and "env_json_unmarshal env ''NotifySignalInput'' sg = Inr n" and "env_json_unmarshal env ''EmailOutput'' em = Inr m"
    and "email_key env i \<noteq> charge_key env i" and c: "c = order_course env i (the_OrderInput v) (Some b) em sg"
    and "interferes (answers_kept env (NewStorage env []) c) others" and "foreign_errors env (NewStorage env [])"
    and "valid_db (store w0)" and "rows_ok (course_row env (NewStorage env []) c) (store w0)"
    and "rounds env (NewStorage env []) c others (RunOrderWorkflow_any env) v k w0 w" and "3 < k"
    and "signals_as c (store w)" and "own_keys env (NewStorage env []) c (store w)"
  shows "(\<forall>y \<in> set (workflows (store w)). w_id y = i \<longrightarrow> w_status y = WorkflowCompleted) \<and>
    (\<exists>a \<in> set (activities (store w)). a_workflow_id a = i \<and> charge_row env (the_OrderInput v) a) \<and>
    ((\<exists>a \<in> set (activities (store w)). a_workflow_id a = i \<and> email_row env (the_OrderInput v) a) \<longleftrightarrow>
       ns_ShouldNotify (the_NotifySignalInput n))"
proof -
  let ?inp = "the_OrderInput v" and ?s = "NewStorage env []" and ?notify = "ns_ShouldNotify (the_NotifySignalInput n)"
  have calls: "course env ?s c = ([charge_step env i ?inp, Signal_Step (notify_key env i)] @
      (if ?notify then [email_step env i ?inp (charge_result (oi_Amount ?inp))] else []), Inr ())"
    unfolding c by (rule order_course_calls [OF assms(3-7)])
  have settled: "settled (cs_script c) env (cs_id c) (pg_Decoder ?s)" by (simp add: c order_settled)
  have performs: "performs env (RunOrderWorkflow_any env) v (cs_script c)" by (simp add: c performs_def order_performs)
  have len: "length (fst (course env ?s c)) < k" using assms(14) by (simp add: calls)
  have plain: "\<forall>e. snd (course env ?s c) = Inl e \<longrightarrow> \<not> errors_Is_suspended e" by (simp add: calls)
  from completes [OF assms(1,2) settled assms(9,10) plain assms(11,12) performs assms(13) len assms(15,16)]
  have ends: "\<forall>x \<in> set (fst (course env ?s c)). stored i (store w) x"
    "\<forall>y \<in> set (workflows (store w)). w_id y = i \<longrightarrow> w_status y = WorkflowCompleted" "rows_ok (course_row env ?s c) (store w)"
    by (simp_all add: c)
  have row: "a_idempotency_key a = charge_key env i \<and> charge_row env ?inp a \<or>
      a_idempotency_key a = email_key env i \<and> ?notify \<and> email_row env ?inp a"
    if "a \<in> set (activities (store w))" "a_workflow_id a = i" for a
    using order_course_row [OF calls [unfolded c] assms(4,7)] assms(15) ends(3) that unfolding rows_ok_def c by blast
  from ends(1) have "stored i (store w) (charge_step env i ?inp)" by (simp add: calls)
  then obtain a where a: "a \<in> set (activities (store w))" "a_workflow_id a = i" "a_idempotency_key a = charge_key env i"
    by (auto simp: charge_step_def)
  with row [OF a(1,2)] assms(7) have "charge_row env ?inp a" by simp
  moreover have "\<exists>x \<in> set (activities (store w)). a_workflow_id x = i \<and> email_row env ?inp x" if ?notify
  proof -
    from ends(1) that have "stored i (store w) (email_step env i ?inp (charge_result (oi_Amount ?inp)))" by (simp add: calls)
    then obtain x where x: "x \<in> set (activities (store w))" "a_workflow_id x = i" "a_idempotency_key x = email_key env i"
      by (auto simp: email_step_def)
    with row [OF x(1,2)] assms(7) have "email_row env ?inp x" by simp
    with x show ?thesis by blast
  qed
  moreover have "?notify" if "a \<in> set (activities (store w))" "a_workflow_id a = i" "email_row env ?inp a" for a
    using row [OF that(1,2)] that(2,3) by (auto simp: email_row_def)
  ultimately show ?thesis using ends(2) a by blast
qed

section \<open>An order on the example environment\<close>

text \<open>
  The order of Alice for four, whose signal has arrived and asks for the notification: two calls are
  stored and completed, the third run completes the workflow and the fourth finds all done.
\<close>

definition shop_storage :: "any pg_storage" where
  "shop_storage = NewStorage shop_env []"

definition shop_course :: "any course" where
  "shop_course = order_course shop_env 1025 shop_input (Some ''iiii.t'') (Some ''t'') (Some ''t'')"

definition shop_bare :: "db world" where
  "shop_bare = \<lparr>store = \<lparr>workflows = [new_workflow 5 1025 1024 ''OrderWorkflow'' (Some ''iiii.alice'') 0 3 300000],
     tasks = [], activities = [],
     signals = [\<lparr>s_id = 7, s_idempotency_key = notify_key shop_env 1025, s_workflow_id = 1025, s_name = ''NotifySignal'',
       s_input = Some ''t'', s_created_at = 6\<rparr>]\<rparr>, ticks = 10\<rparr>"

definition shop_ran :: "db world \<Rightarrow> (error + unit) \<times> db world" where
  "shop_ran = runWorkflow shop_env (postgres shop_env shop_storage) 1025 (AnyOrderInput shop_input) (RunOrderWorkflow_any shop_env)"

definition shop_answer :: "any \<Rightarrow> db world \<Rightarrow> (error + unit) \<times> db world" where
  "shop_answer out w = CompleteActivity shop_env shop_storage (a_id (last (activities (store w)))) 1025 (Some out) w"

definition shop_charging :: "db world" where
  "shop_charging = snd (shop_ran shop_bare)"

definition shop_charged :: "db world" where
  "shop_charged = \<lparr>store =
  \<lparr>workflows =
     [\<lparr>w_id = 1025, w_idempotency_key = 1024, w_name = ''OrderWorkflow'',
         w_status = WorkflowRunning, w_input = Some ''iiii.alice'',
         w_output = None, w_priority = 0, w_attempts = 1,
         w_max_attempts = 3, w_stuck_timeout_millis = 300000,
         w_completed_at = None, w_error_message = None, w_created_at = 5,
         w_updated_at = 5\<rparr>],
     tasks =
       [\<lparr>t_id = 1039, t_workflow_id = 1025, t_name = ''OrderWorkflow'',
           t_status = TaskPending, t_priority = 0,
           t_stuck_timeout_millis = 300000, t_scheduled_at = 320000000000,
           t_run_at = None, t_stuck_at = None, t_completed_at = None,
           t_created_at = 280000000000, t_updated_at = 280000000000\<rparr>],
     activities =
       [\<lparr>a_id = 1036, a_idempotency_key = 262410, a_workflow_id = 1025,
           a_name = ''ChargeCard'', a_status = ActivityCompleted,
           a_input = Some ''iiii.alice'', a_output = Some ''iiii.t'',
           a_priority = 0, a_attempts = 0, a_max_attempts = 3,
           a_stuck_timeout_millis = 300000, a_scheduled_at = 240000000000,
           a_run_at = None, a_stuck_at = None,
           a_completed_at = Some 280000000000, a_error_message = None,
           a_created_at = 260000000000, a_updated_at = 280000000000\<rparr>],
     signals =
       [\<lparr>s_id = 7, s_idempotency_key = 262412, s_workflow_id = 1025,
           s_name = ''NotifySignal'', s_input = Some ''t'',
           s_created_at = 6\<rparr>]\<rparr>, ticks = 17\<rparr>"

definition shop_emailing :: "db world" where
  "shop_emailing = snd (shop_ran shop_charged)"

definition shop_emailed :: "db world" where
  "shop_emailed = \<lparr>store =
  \<lparr>workflows =
     [\<lparr>w_id = 1025, w_idempotency_key = 1024, w_name = ''OrderWorkflow'',
         w_status = WorkflowRunning, w_input = Some ''iiii.alice'',
         w_output = None, w_priority = 0, w_attempts = 1,
         w_max_attempts = 3, w_stuck_timeout_millis = 300000,
         w_completed_at = None, w_error_message = None, w_created_at = 5,
         w_updated_at = 5\<rparr>],
     tasks =
       [\<lparr>t_id = 1039, t_workflow_id = 1025, t_name = ''OrderWorkflow'',
           t_status = TaskPending, t_priority = 0,
           t_stuck_timeout_millis = 300000, t_scheduled_at = 320000000000,
           t_run_at = None, t_stuck_at = None, t_completed_at = None,
           t_created_at = 280000000000, t_updated_at = 280000000000\<rparr>,
        \<lparr>t_id = 1046, t_workflow_id = 1025, t_name = ''OrderWorkflow'',
           t_status = TaskPending, t_priority = 0,
           t_stuck_timeout_millis = 300000, t_scheduled_at = 460000000000,
           t_run_at = None, t_stuck_at = None, t_completed_at = None,
           t_created_at = 420000000000, t_updated_at = 420000000000\<rparr>],
     activities =
       [\<lparr>a_id = 1036, a_idempotency_key = 262410, a_workflow_id = 1025,
           a_name = ''ChargeCard'', a_status = ActivityCompleted,
           a_input = Some ''iiii.alice'', a_output = Some ''iiii.t'',
           a_priority = 0, a_attempts = 0, a_max_attempts = 3,
           a_stuck_timeout_millis = 300000, a_scheduled_at = 240000000000,
           a_run_at = None, a_stuck_at = None,
           a_completed_at = Some 280000000000, a_error_message = None,
           a_created_at = 260000000000, a_updated_at = 280000000000\<rparr>,
        \<lparr>a_id = 1043, a_idempotency_key = 262409, a_workflow_id = 1025,
           a_name = ''SendEmail'', a_status = ActivityCompleted,
           a_input = Some ''iiii.talice'', a_output = Some ''t'',
           a_priority = 0, a_attempts = 0, a_max_attempts = 3,
           a_stuck_timeout_millis = 300000, a_scheduled_at = 410000000000,
           a_run_at = None, a_stuck_at = None,
           a_completed_at = Some 420000000000, a_error_message = None,
           a_created_at = 400000000000, a_updated_at = 420000000000\<rparr>],
     signals =
       [\<lparr>s_id = 7, s_idempotency_key = 262412, s_workflow_id = 1025,
           s_name = ''NotifySignal'', s_input = Some ''t'',
           s_created_at = 6\<rparr>]\<rparr>, ticks = 24\<rparr>"

definition shop_once :: "db world" where
  "shop_once = snd (shop_ran shop_emailed)"

definition shop_twice :: "db world" where
  "shop_twice = snd (shop_ran shop_once)"

lemma shop_charged_eq: "snd (shop_answer (AnyChargeOutput (charge_result 4)) shop_charging) = shop_charged"
  unfolding shop_charging_def by code_simp

lemma shop_emailed_eq: "snd (shop_answer (AnyEmailOutput \<lparr>eo_IsSent = True\<rparr>) shop_emailing) = shop_emailed"
  unfolding shop_emailing_def by code_simp

lemmas shop_worlds = shop_twice_def shop_once_def shop_emailing_def shop_charging_def

lemma shop_calls:
  "course shop_env shop_storage shop_course = ([charge_step shop_env 1025 shop_input, Signal_Step (notify_key shop_env 1025),
     email_step shop_env 1025 shop_input (charge_result (oi_Amount shop_input))], Inr ())"
proof -
  have "env_json_marshal shop_env (AnyChargeOutput (charge_result (oi_Amount shop_input))) = Inr ''iiii.t''"
    "env_json_unmarshal shop_env ''NotifySignalInput'' (Some ''t'') = Inr (AnyNotifySignalInput \<lparr>ns_ShouldNotify = True\<rparr>)"
    "env_json_unmarshal shop_env ''EmailOutput'' (Some ''t'') = Inr (AnyEmailOutput \<lparr>eo_IsSent = True\<rparr>)"
    "email_key shop_env 1025 \<noteq> charge_key shop_env 1025"
    by code_simp+
  from order_course_calls [OF shop_json_law this] show ?thesis
    by (simp add: shop_storage_def shop_course_def the_NotifySignalInput_def)
qed

lemma shop_rounds_run:
  "fst (shop_ran shop_bare) = Inr ()" "fst (shop_ran shop_charged) = Inr ()"
  "fst (shop_ran shop_emailed) = Inr ()" "fst (shop_ran shop_once) = Inr ()"
  unfolding shop_worlds by code_simp+

lemma shop_caught_up:
  "caught_up shop_env shop_storage shop_course (store shop_bare)" "caught_up shop_env shop_storage shop_course (store shop_charged)"
  "caught_up shop_env shop_storage shop_course (store shop_emailed)" "caught_up shop_env shop_storage shop_course (store shop_once)"
  unfolding caught_up_def shop_calls shop_worlds by code_simp+

lemma answers_asI:
  "list_ex (\<lambda>a. a_id a = i \<and> out = cs_out c (a_idempotency_key a)) (activities d) \<Longrightarrow> answers_as env s c i out d"
  by (auto simp: answers_as_def list_ex_iff)

lemma shop_answer_kept:
  assumes "list_ex (\<lambda>a. a_id a = a_id (last (activities (store w))) \<and> Some (encode_any out) = cs_out shop_course (a_idempotency_key a))
    (activities (store w))"
  shows "rows_kept (course_row shop_env shop_storage shop_course) (store w) (store (snd (shop_answer out w)))"
proof (rule under_rows_kept)
  let ?i = "a_id (last (activities (store w)))" and ?b = "Some (encode_any out)"
  show "under (course_row shop_env shop_storage shop_course) (answers_as shop_env shop_storage shop_course ?i ?b)
      (store w) (store (snd (shop_answer out w)))"
  proof (rule keepsD [OF completion_keeps [where res = "Some out" and i = ?i and wid = 1025, OF shop_begin_func_law]])
    show "CompleteActivity shop_env shop_storage ?i 1025 (Some out) w = (fst (shop_answer out w), snd (shop_answer out w))"
      by (simp add: shop_answer_def)
  qed (auto simp: encode_nullable_def shop_storage_def NewStorage_def JsonEncoder_def shop_env_def)
qed (erule (1) answers_as_kept, rule answers_asI, rule assms)

lemma shop_charge_kept: "rows_kept (course_row shop_env shop_storage shop_course) (store shop_charging) (store shop_charged)"
  unfolding shop_charged_eq [symmetric] by (rule shop_answer_kept, unfold shop_charging_def, code_simp)

lemma shop_email_kept: "rows_kept (course_row shop_env shop_storage shop_course) (store shop_emailing) (store shop_emailed)"
  unfolding shop_emailed_eq [symmetric] by (rule shop_answer_kept, unfold shop_emailing_def, code_simp)

lemma shop_rounds:
  "rounds shop_env shop_storage shop_course id (RunOrderWorkflow_any shop_env) (AnyOrderInput shop_input) 4 shop_bare shop_twice"
proof -
  let ?rounds = "rounds shop_env shop_storage shop_course id (RunOrderWorkflow_any shop_env) (AnyOrderInput shop_input)"
  have run: "runWorkflow shop_env (interleaved id (postgres shop_env shop_storage)) (cs_id shop_course) (AnyOrderInput shop_input)
      (RunOrderWorkflow_any shop_env) w = (Inr (), snd (shop_ran w))" if "fst (shop_ran w) = Inr ()" for w
    using that by (simp add: shop_ran_def shop_course_def prod_eq_iff)
  have "?rounds (Suc 0) shop_bare shop_charging"
    unfolding shop_charging_def
    by (rule rounds.round [OF rounds.start rows_kept_refl shop_caught_up(1) run [OF shop_rounds_run(1)]])
  from rounds.round [OF this shop_charge_kept shop_caught_up(2) run [OF shop_rounds_run(2)]]
  have "?rounds (Suc (Suc 0)) shop_bare shop_emailing" by (simp add: shop_emailing_def)
  from rounds.round [OF this shop_email_kept shop_caught_up(3) run [OF shop_rounds_run(3)]]
  have "?rounds (Suc (Suc (Suc 0))) shop_bare shop_once" by (simp add: shop_once_def)
  from rounds.round [OF this rows_kept_refl shop_caught_up(4) run [OF shop_rounds_run(4)]]
  have "?rounds (Suc (Suc (Suc (Suc 0)))) shop_bare shop_twice" by (simp add: shop_twice_def)
  moreover have "Suc (Suc (Suc (Suc 0))) = 4" by simp
  ultimately show ?thesis by metis
qed

lemma shop_end:
  "signals_as shop_course (store shop_twice)" "own_keys shop_env shop_storage shop_course (store shop_twice)"
  unfolding own_keys_def shop_calls signals_as_def shop_worlds by code_simp+

lemma shop_bare_ok: "valid_db (store shop_bare)" "rows_ok (course_row shop_env shop_storage shop_course) (store shop_bare)"
  by (simp_all add: shop_bare_def valid_db_def keys_ok_def refs_ok_def wf_ids_def rows_ok_def new_workflow_def workflow_ok_def
      in_int4_def min_int4_def max_int4_def)

lemma order_completes_answered_witness:
  "list_all (\<lambda>y. w_status y = WorkflowCompleted) (workflows (store shop_twice)) \<and> length (workflows (store shop_twice)) = 1 \<and>
   (\<exists>a \<in> set (activities (store shop_twice)). a_workflow_id a = 1025 \<and> charge_row shop_env shop_input a) \<and>
   (\<exists>a \<in> set (activities (store shop_twice)). a_workflow_id a = 1025 \<and> email_row shop_env shop_input a)"
proof -
  have "env_json_marshal shop_env (AnyChargeOutput (charge_result (oi_Amount (the_OrderInput (AnyOrderInput shop_input))))) = Inr ''iiii.t''"
    "env_json_unmarshal shop_env ''NotifySignalInput'' (Some ''t'') = Inr (AnyNotifySignalInput \<lparr>ns_ShouldNotify = True\<rparr>)"
    "env_json_unmarshal shop_env ''EmailOutput'' (Some ''t'') = Inr (AnyEmailOutput \<lparr>eo_IsSent = True\<rparr>)"
    "email_key shop_env 1025 \<noteq> charge_key shop_env 1025"
    by code_simp+
  note shop = this
  have inp: "the_OrderInput (AnyOrderInput shop_input) = shop_input" by (simp add: the_OrderInput_def)
  have c: "shop_course = order_course shop_env 1025 (the_OrderInput (AnyOrderInput shop_input)) (Some ''iiii.t'') (Some ''t'') (Some ''t'')"
    by (simp add: inp shop_course_def)
  have "interferes (answers_kept shop_env (NewStorage shop_env []) shop_course) id" by (rule progress.interferes_id)
  moreover have "foreign_errors shop_env (NewStorage shop_env [])"
    by (simp add: foreign_errors_def shop_env_def NewStorage_def JsonEncoder_def)
  ultimately have ends: "(\<forall>y \<in> set (workflows (store shop_twice)). w_id y = 1025 \<longrightarrow> w_status y = WorkflowCompleted) \<and>
      (\<exists>a \<in> set (activities (store shop_twice)). a_workflow_id a = 1025 \<and> charge_row shop_env shop_input a) \<and>
      ((\<exists>a \<in> set (activities (store shop_twice)). a_workflow_id a = 1025 \<and> email_row shop_env shop_input a) \<longleftrightarrow> True)"
    using order_completes_answered [OF shop_begin_func_law shop_wait_group_law shop_json_law shop c _ _
        shop_bare_ok(1) shop_bare_ok(2) [unfolded shop_storage_def] shop_rounds [unfolded shop_storage_def] _
        shop_end(1) shop_end(2) [unfolded shop_storage_def]]
    by (simp add: inp the_NotifySignalInput_def)
  moreover have "map w_id (workflows (store shop_twice)) = [1025]" unfolding shop_worlds by code_simp
  ultimately show ?thesis by (auto simp: map_eq_Cons_conv)
qed

end
