(* ===== verification/Spec2Isabelle.thy ===== *)
theory Spec2Isabelle
  imports Engine_Properties Worker_Properties Record_Properties Lifecycle_Properties Poller_Properties
    Claim_Properties Retry_Properties Wakeup_Properties Durable_Properties Durable_Workers Order_Durable
begin

text \<open>
  \<^bold>\<open>floww, a workflow engine on PostgreSQL, in Isabelle/HOL\<close>

  \<^bold>\<open>The program.\<close> A client enqueues a workflow (\<open>EnqueueWorkflow\<close>) and sends it signals
  (\<open>SendSignal\<close>). Both write the four tables of \<open>migrations/init_floww.up.sql\<close> through the
  interface \<open>Storage\<close> (\<open>storage.go\<close>), implemented in \<open>storage/postgres\<close>. Workflow workers
  poll for workflow tasks and run the handler from the start each time; the handler asks
  its context for the results of activities and for signals. A recorded result is returned
  at once; otherwise the activity is stored, at most once, and the run is suspended.
  Activity workers poll for activities, run their handlers and record the output, which
  enqueues a new task for the workflow. The tables are the whole shared state. The program under
  \<open>example\<close> runs an order workflow on the engine with both workers in one process.

  \<^bold>\<open>What is outside.\<close> The PostgreSQL service, \<open>pgx\<close>, \<open>google/uuid\<close>, \<open>errgroup\<close>, the
  clocks and \<open>encoding/json\<close> are the fields of the record \<open>env\<close> (theory \<open>Effects\<close>): for each
  interaction whether the statement is served, refused, or served with its answer lost; the
  value of \<open>now()\<close>; the order of rows that SQL leaves open; the generated ids and hashes; the
  transaction manager; the wait group; the codec. The theorems hold for every such
  environment. Where they rely on documented behaviour it is a named hypothesis:
  \<open>begin_func_law\<close> (\<open>pgx.BeginFunc\<close> commits the effect of a function that returned nil and
  otherwise leaves no effect), \<open>wait_group_law\<close> (\<open>errgroup\<close>), \<open>scan_uint_law\<close> (scanning a
  negative number into an unsigned one fails), \<open>fresh_uuids\<close> (generated ids are not in use), \<open>foreign_errors\<close> (errors
  from outside do not wrap the engine's \<open>ErrWorkflowSuspended\<close>), \<open>json_law\<close> (the encoded
  amount of an order's charge, and the encoded result of it, decode to themselves).
  Theory \<open>Reference_Env\<close> has one environment that satisfies them, on which the witnesses
  evaluate the model. What the SQL statements of the repository do is modelled: they are
  its code.

  \<^bold>\<open>The model.\<close> A Go function that may fail and talks to the store is a function from a
  world to \<open>error + 'a\<close> and a world.

  \<^item> \<open>Prelude\<close>: 64-bit integers, durations, ids, tables as lists, updates and counts.
  \<^item> \<open>Errors\<close>: \<open>unrecoverable_error.go\<close>, error wrapping, \<open>ErrWorkflowSuspended\<close>.
  \<^item> \<open>Events\<close>, \<open>Effects\<close>: \<open>encoder.go\<close>, \<open>json_encoder.go\<close>, \<open>event.go\<close>, \<open>future.go\<close>,
    \<open>workflow_run.go\<close>, \<open>activity_run.go\<close>; effects, execution of a statement, lifting.
  \<^item> \<open>Options\<close>: the keys and options of \<open>activity.go\<close>, \<open>workflow.go\<close>, \<open>signal.go\<close>.
  \<^item> \<open>Schema\<close>: the tables as records of lists, and the invariant \<open>valid_db\<close>.
  \<^item> \<open>Claiming\<close>, \<open>Sql_Workflows\<close>, \<open>Sql_Tasks\<close>, \<open>Sql_Activities\<close>: one definition for each SQL
    statement, with its constraints, its clauses in the order of the statement, and the
    lemma that it keeps the invariant.
  \<^item> \<open>Pg_Storage\<close>, \<open>Storage\<close>: the methods of \<open>storage/postgres\<close>, and the interface as a
    record of methods of which the PostgreSQL storage is one value. \<open>interleaved\<close> makes of a storage
    the one that a process sees whose calls alternate with what other processes do.
  \<^item> \<open>Workflow_Context\<close>: \<open>workflow_context.go\<close>. \<open>Workflow\<close>: \<open>runWorkflow\<close>, the registry,
    \<open>EnqueueWorkflow\<close>, \<open>SendSignal\<close>. \<open>Workers\<close>: the handling of a claimed task or activity
    and the cleanups of \<open>workflow_worker.go\<close> and \<open>activity_worker.go\<close>, and the activity registry.
  \<^item> \<open>Poller\<close>: the polling loops as step relations over the loop's position, the stop
    flag and the handlers in flight, and what \<open>Stop\<close> returns. A \<open>deployment\<close> is a worker as
    \<open>NewActivityWorker\<close> and \<open>NewWorkflowWorker\<close> make it.
  \<^item> \<open>Example_Order\<close>: \<open>example/order.go\<close> and \<open>example/main.go\<close>: the order workflow with its
    activities, signal and client, the set-up of the connection pool, and the process as a step relation over
    its two workers, its client, the goroutine of the client, the interrupt, the shutdown and other
    processes on the same database.

  \<^bold>\<open>The interfaces.\<close> \<open>step_relation\<close> is a reflexive and transitive relation between stores;
  \<open>pg_frame\<close> adds that the statements keep it which neither add an activity nor make
  anything known to a workflow, \<open>pg_quiet\<close> the insertion of activities, \<open>pg_steer\<close> instead the failure of
  activities and the signals, \<open>pg_call\<close> also their completion, \<open>pg_step\<close> all of them, from which every method
  keeps it, and \<open>pg_step_delete\<close> the same of the cleanup; they are interpreted for the invariant
  (\<open>valid\<close>), for the permanence of signals (\<open>signals\<close>), of activities (\<open>acts\<close>) and of
  finished workflows (\<open>flows\<close>). \<open>pg_progress\<close> extends \<open>pg_quiet\<close> by the three transactions that
  do make something known, taken whole; it is interpreted for wake-ups (\<open>wakes\<close>) and for the end of
  failed workflows (\<open>ends\<close>), which no single statement keeps. \<open>pg_steer\<close> is interpreted for what
  leaves the stored activities alone (\<open>calms\<close>), \<open>pg_step\<close> also for all that is permanent together (\<open>kept\<close>). \<open>kept_frame\<close> is what the engine needs of a storage,
  \<open>kept_calls\<close> adds the completion of activities and \<open>kept_storage\<close> their insertion; \<open>pg_steer\<close>, \<open>pg_call\<close>
  and \<open>pg_step\<close> provide them for the PostgreSQL storage amid other processes, and \<open>reach\<close> for the relation
  \<open>engine_reach\<close>, a sequence of storage calls. \<open>bounded_poll\<close> is what a loop needs of its poll, provided by both
  workers. \<open>row_law\<close> is what an invariant of stored activities has to
  satisfy to outlive the engine, whatever writers know more; it is interpreted for the rows of a script
  (\<open>course\<close>) and of an order (\<open>orders\<close>), and gives a \<open>pg_steer\<close>. \<open>db_relation\<close> is what a run relies on between
  its reads, interpreted for such invariants (\<open>rows\<close>) and for answers that are not taken back (\<open>progress\<close>). \<open>order_frame\<close> and \<open>order_storage\<close> extend the contracts to the order program's handlers and client, and
  \<open>main_kept\<close> to its process: a rely-guarantee rule, of which \<open>reached\<close> (\<open>engine_reach\<close>) and \<open>ordered\<close> (the
  invariant of orders) are the uses.

  \<^bold>\<open>The theorems.\<close>

  \<^item> \<open>Lifecycle_Properties\<close> (over \<open>Reachability\<close>): the invariant holds in every database that
    any interleaving of storage calls can reach; signals, activities and final workflow states
    are permanent until the cleanup; the cleanup deletes what it may and nothing else.
  \<^item> \<open>Durable_Course\<close> (over \<open>Durable\<close>, the handlers as scripts and their direct execution, and
    \<open>Row_Invariant\<close>): what the engine is for. A handler that is replayed from its start whenever its workflow has a task
    stores nothing but the calls of its direct execution, in order, each once, among other processes and under any
    errors. \<open>Durable_Workers\<close> (over \<open>Claimed_Records\<close>, what a poll hands to a handler) says so of the polling loops of
    both workers. \<open>Durable_Properties\<close>: when its calls get answered its workflow completes, after at most as many
    productive runs as the direct execution has calls, and one. \<open>Order_Script\<close>: the order workflow is such a
    handler; \<open>Order_Durable\<close>: so every order completes, charged and notified as it asks.
  \<^item> \<open>Engine_Properties\<close> (over \<open>Replay\<close>, and \<open>Availability\<close>, which calls succeed when the service answers every
    statement): a completed activity is replayed with its output, a
    signal is delivered, a call without a result schedules its activity once; and two limits of
    this, outputs that a second completion overwrites and nil outputs, which no run passes until they are.
  \<^item> \<open>Storage_Properties\<close> (over \<open>Transactions\<close> and \<open>Storage_Specs\<close>, the abstract effects):
    enqueueing, signalling and completing happen as a whole or not at all, and
    what becomes of a repeated key.
  \<^item> \<open>Fetch_Properties\<close> (over \<open>Fetching\<close>, the direct description of a batch): the two-branch
    query takes exactly the first rows of all eligible ones; what a worker gets; and the
    limits: batches lost to a bad row, claims
    beyond the maximum, timeouts below a millisecond. \<open>Claim_Properties\<close>: no attempt is handed out twice, whoever fetches.
    \<open>Retry_Properties\<close>: how often an activity, and a workflow for one of its tasks, is run and fails before it
    has failed for good.
  \<^item> \<open>Record_Properties\<close>: every fetched row fits the record it is read into.
  \<^item> \<open>Wakeup_Properties\<close> (over \<open>Wakeups\<close>): no wake-up is lost, a suspended call is answered by the history once
    its activity completes, or ends with its workflow, and the exception, a key of another workflow, whose call
    suspends for ever.
  \<^item> \<open>Worker_Properties\<close>: the outcome of a run and the retry policies of both workers; a
    failed workflow that a late run completes.
  \<^item> \<open>Poller_Properties\<close>: the concurrency limit, the end of the inner loop within a bound that depends on the
    concurrency only, stopping.
  \<^item> \<open>Order_Properties\<close>: what a run of the order workflow does in each phase of an order.
    \<open>Order_Program\<close>: among other processes that call the storage, every interleaving of the process is a
    sequence of storage calls; its limits. \<open>Order_Once\<close> (over \<open>Order_Invariant\<close>, what the rows of an order say): an
    order has at most one charge and one notification stored, the charge of the order's user and amount, the
    notification with the result of the charge and only when a signal asks. \<open>Order_Run\<close>: one run of the process from an order to its end, evaluated on a
    concrete environment and shown to be a path of the step relation.

  \<^bold>\<open>Granularity.\<close> A statement is one step. That is what PostgreSQL gives for the
  statements that update by id; a fetch selects under its snapshot and then claims, and its \<open>FOR NO KEY UPDATE
  SKIP LOCKED\<close> stands on a reference to a common table expression, where it locks no row. Row locks and the race of
  two overlapping fetches are not modelled: a fetch is one step too. Reachability
  interleaves whole method calls. In the loop, a fetch with its dispatch and a handler
  are one step each, but the storage calls inside a step are not: \<open>interleaved\<close> lets the other handlers and
  processes do what keeps the relation in question between any two of them. A process that dies in the middle of a
  handler is one whose later statements are refused. A run of the process of \<open>Order_Run\<close> is one path, which shows that an order can
  complete; \<open>durable_completes\<close> counts the runs that return nil of any path, and says nothing of how soon they come. No definition needs fuel: queries are structural on their tables, and
  the loop, which need not end, is a relation.

  \<^bold>\<open>Not modelled.\<close> Logging, printing and sleeping; deadlines and contexts, whose effect on a statement is part of its
  arbitrary outcome; indices; the misuse of a worker that panics or starves it (a second \<open>Stop\<close>, a second \<open>Start\<close>, a poll
  interval of zero); a handler that panics.

  \<^bold>\<open>Limits.\<close> The theorems on durable execution and on orders hold as long as no other process deletes the workflow in
  question: a cleanup is not among what they rely on (\<open>cleanup_safe\<close> says what it deletes: workflows that have ended). They
  count the runs that return nil, not the time until the next one: the engine orders work by priority and schedule only,
  so that nothing bounds how long a task waits behind others. The bounds on retries count the errors whose outcome was
  stored, and rely on no worker storing the outcome of an attempt after the activity or the task has failed: the
  statements that reschedule do not look at the status. Two tasks of one workflow may be run at the same time, in any
  order; the theorems hold for that too, since each run is one of the others to the other. The number of claims of an
  activity has no bound either, as \<open>stuck_claim_beyond_max\<close> shows.
\<close>

end
